(* ===== verification/Arbor_Prelude.thy ===== *)
theory Arbor_Prelude
  imports Main "HOL-Library.Word" "HOL-Library.Product_Lexorder"
begin

text \<open>
  Shared vocabulary of the development: the machine integers and fixed-width byte arrays of
  the Rust sources, Rust's \<open>Result\<close> with the \<open>?\<close> operator, big-endian conversions between
  words and byte lists, and the window checks the sources run over sorted slices.
\<close>

section \<open>Machine types\<close>

type_synonym u8 = "8 word"
type_synonym u16 = "16 word"
type_synonym u32 = "32 word"
type_synonym u64 = "64 word"
type_synonym u128 = "128 word"
type_synonym bytes = "8 word list"

text \<open>
  Fixed-width byte arrays are words of the same width; their \<open>Ord\<close> instance (lexicographic on
  bytes) is the unsigned order of the big-endian value. \<open>usize\<close> is \<^typ>\<open>nat\<close>: every place
  where the sources check or cast a \<open>usize\<close> states its bound.
\<close>

type_synonym b256 = "256 word"
type_synonym address = "160 word"
type_synonym u256 = "256 word"
type_synonym bloom = "2048 word"

type_synonym hash_fn = "bytes \<Rightarrow> b256"

named_theorems wire_simps \<open>exactness equations of the wire readers\<close>
named_theorems checked_simps \<open>characterisations of checked and saturating arithmetic\<close>

section \<open>Results and the question-mark operator\<close>

datatype ('a, 'e) result = Ok 'a | Err 'e

fun bind_res :: "('a, 'e) result \<Rightarrow> ('a \<Rightarrow> ('b, 'e) result) \<Rightarrow> ('b, 'e) result" where
  "bind_res (Ok x) f = f x"
| "bind_res (Err e) f = Err e"

fun map_err :: "('e \<Rightarrow> 'f) \<Rightarrow> ('a, 'e) result \<Rightarrow> ('a, 'f) result" where
  "map_err g (Ok x) = Ok x"
| "map_err g (Err e) = Err (g e)"

fun ok_or :: "'e \<Rightarrow> 'a option \<Rightarrow> ('a, 'e) result" where
  "ok_or e (Some x) = Ok x"
| "ok_or e None = Err e"

fun is_ok :: "('a, 'e) result \<Rightarrow> bool" where
  "is_ok (Ok _) = True"
| "is_ok (Err _) = False"

lemma bind_res_eq_Ok [simp]: "bind_res m f = Ok y \<longleftrightarrow> (\<exists>x. m = Ok x \<and> f x = Ok y)"
  by (cases m) auto

lemma bind_res_eq_Err:
  "bind_res m f = Err e \<longleftrightarrow> m = Err e \<or> (\<exists>x. m = Ok x \<and> f x = Err e)"
  by (cases m) auto

lemma map_err_eq_Ok [simp]: "map_err g m = Ok y \<longleftrightarrow> m = Ok y"
  by (cases m) auto

lemma ok_or_eq_Ok [simp]: "ok_or e m = Ok y \<longleftrightarrow> m = Some y"
  by (cases m) auto

lemma bind_res_assoc: "bind_res (bind_res m f) g = bind_res m (\<lambda>x. bind_res (f x) g)"
  by (cases m) auto

lemma bind_res_cong [fundef_cong]:
  "m = m' \<Longrightarrow> (\<And>x. m' = Ok x \<Longrightarrow> f x = f' x) \<Longrightarrow> bind_res m f = bind_res m' f'"
  by (cases m') auto

text \<open>\<open>iter().map(f).collect::<Result<Vec<_>, _>>()\<close>: the first error wins.\<close>

fun collect_res :: "('a \<Rightarrow> ('b, 'e) result) \<Rightarrow> 'a list \<Rightarrow> ('b list, 'e) result" where
  "collect_res f [] = Ok []"
| "collect_res f (x # xs) =
     bind_res (f x) (\<lambda>y. bind_res (collect_res f xs) (\<lambda>ys. Ok (y # ys)))"

lemma collect_res_eq_Ok:
  "collect_res f xs = Ok ys \<longleftrightarrow> list_all2 (\<lambda>x y. f x = Ok y) xs ys"
proof (induction xs arbitrary: ys)
  case (Cons x xs)
  show ?case by (auto simp: Cons.IH list_all2_Cons1)
qed auto

lemma collect_res_length: "collect_res f xs = Ok ys \<Longrightarrow> length ys = length xs"
  by (simp add: collect_res_eq_Ok list_all2_lengthD)

text \<open>A \<open>for\<close> loop whose body may return early with \<open>?\<close>.\<close>

fun fold_res :: "('a \<Rightarrow> 's \<Rightarrow> ('s, 'e) result) \<Rightarrow> 'a list \<Rightarrow> 's \<Rightarrow> ('s, 'e) result" where
  "fold_res f [] s = Ok s"
| "fold_res f (x # xs) s = bind_res (f x s) (fold_res f xs)"

lemma fold_res_append: "fold_res f (xs @ ys) s = bind_res (fold_res f xs s) (fold_res f ys)"
  by (induction xs arbitrary: s) (auto simp: bind_res_assoc intro!: bind_res_cong)

lemma fold_res_invariant:
  assumes "fold_res f xs s = Ok s'" and "I s"
    and "\<And>x s s'. x \<in> set xs \<Longrightarrow> I s \<Longrightarrow> f x s = Ok s' \<Longrightarrow> I s'"
  shows "I s'"
  using assms by (induction xs arbitrary: s) auto

lemma fold_res_each: "fold_res f xs s = Ok s' \<Longrightarrow> x \<in> set xs \<Longrightarrow> \<exists>t t'. f x t = Ok t'"
  by (induction xs arbitrary: s) auto

section \<open>Checked and saturating arithmetic\<close>

definition checked_add :: "'a::len word \<Rightarrow> 'a word \<Rightarrow> 'a word option" where
  "checked_add a b = (if unat a + unat b < 2 ^ LENGTH('a) then Some (a + b) else None)"

definition saturating_add :: "'a::len word \<Rightarrow> 'a word \<Rightarrow> 'a word" where
  "saturating_add a b = (if unat a + unat b < 2 ^ LENGTH('a) then a + b else - 1)"

definition saturating_sub :: "'a::len word \<Rightarrow> 'a word \<Rightarrow> 'a word" where
  "saturating_sub a b = (if b \<le> a then a - b else 0)"

definition saturating_mul :: "'a::len word \<Rightarrow> 'a word \<Rightarrow> 'a word" where
  "saturating_mul a b = (if unat a * unat b < 2 ^ LENGTH('a) then a * b else - 1)"

lemma unat_less_exp: "unat (w :: 'a::len word) < 2 ^ LENGTH('a)"
  by (fact unsigned_less)

lemma unat_of_nat_fits: "k < 2 ^ LENGTH('a) \<Longrightarrow> unat (word_of_nat k :: 'a::len word) = k"
  by (simp add: unat_of_nat)

lemma unat_plus_fits:
  fixes a b :: "'a::len word"
  shows "unat a + unat b < 2 ^ LENGTH('a) \<Longrightarrow> unat (a + b) = unat a + unat b"
  by (simp add: unat_word_ariths)

lemma unat_succ:
  fixes a b :: "'a::len word"
  assumes "a < b"
  shows "unat (a + 1) = unat a + 1"
proof -
  have "unat a + 1 < 2 ^ LENGTH('a)"
    using assms unat_less_exp [of b] unfolding word_less_nat_alt by linarith
  then show ?thesis using unat_plus_fits [of a 1] by simp
qed

lemma unat_times_fits:
  fixes a b :: "'a::len word"
  shows "unat a * unat b < 2 ^ LENGTH('a) \<Longrightarrow> unat (a * b) = unat a * unat b"
  by (simp add: unat_word_ariths)

lemma checked_add_eq_Some [checked_simps]:
  fixes a b c :: "'a::len word"
  shows "checked_add a b = Some c \<longleftrightarrow> unat c = unat a + unat b"
proof
  assume "checked_add a b = Some c"
  then show "unat c = unat a + unat b"
    by (auto simp: checked_add_def unat_plus_fits split: if_splits)
next
  assume c: "unat c = unat a + unat b"
  then have "unat a + unat b < 2 ^ LENGTH('a)"
    by (metis unat_less_exp)
  with c show "checked_add a b = Some c"
    by (simp add: checked_add_def unat_plus_fits word_unat_eq_iff)
qed

lemma unat_minus_one_word [simp]: "unat (- 1 :: 'a::len word) = 2 ^ LENGTH('a) - 1"
  by transfer (simp add: take_bit_minus_one_eq_mask mask_eq_exp_minus_1 nat_diff_distrib nat_power_eq)

lemma unat_saturating_add [checked_simps]:
  fixes a b :: "'a::len word"
  shows "unat (saturating_add a b) = min (unat a + unat b) (2 ^ LENGTH('a) - 1)"
  by (auto simp: saturating_add_def unat_plus_fits)

lemma unat_saturating_sub [checked_simps]: "unat (saturating_sub a b) = unat a - unat b"
  by (auto simp: saturating_sub_def unat_sub word_le_nat_alt)

lemma unat_saturating_mul [checked_simps]:
  fixes a b :: "'a::len word"
  shows "unat (saturating_mul a b) = min (unat a * unat b) (2 ^ LENGTH('a) - 1)"
  by (auto simp: saturating_mul_def unat_times_fits)

section \<open>Big-endian bytes\<close>

fun be_of_nat :: "nat \<Rightarrow> nat \<Rightarrow> bytes" where
  "be_of_nat 0 k = []"
| "be_of_nat (Suc n) k = be_of_nat n (k div 256) @ [word_of_nat (k mod 256)]"

definition be_to_nat :: "bytes \<Rightarrow> nat" where
  "be_to_nat bs = foldl (\<lambda>acc b. acc * 256 + unat b) 0 bs"

lemma be_to_nat_Nil [simp]: "be_to_nat [] = 0"
  by (simp add: be_to_nat_def)

lemma be_to_nat_snoc [simp]: "be_to_nat (bs @ [b]) = be_to_nat bs * 256 + unat b"
  by (simp add: be_to_nat_def)

lemma length_be_of_nat [simp]: "length (be_of_nat n k) = n"
  by (induction n arbitrary: k) auto

lemma unat_byte_less [simp]: "unat (b :: 8 word) < 256"
  using unat_less_exp [of b] by simp

lemma be_to_nat_less: "be_to_nat bs < 256 ^ length bs"
proof (induction bs rule: rev_induct)
  case (snoc b bs)
  have "be_to_nat bs * 256 + unat b < (be_to_nat bs + 1) * 256"
    using unat_byte_less [of b] by simp
  also have "\<dots> \<le> 256 ^ length bs * 256"
    using snoc by (intro mult_right_mono) auto
  finally show ?case by (simp add: mult.commute)
qed simp

lemma be_to_nat_be_of_nat: "be_to_nat (be_of_nat n k) = k mod 256 ^ n"
proof (induction n arbitrary: k)
  case (Suc n)
  have "k mod 256 < 2 ^ 8" by simp
  then have "unat (word_of_nat (k mod 256) :: 8 word) = k mod 256"
    by (intro unat_of_nat_fits) simp
  then show ?case
    by (simp add: Suc.IH mod_mult2_eq mult.commute)
qed simp

lemma be_of_nat_be_to_nat: "be_of_nat (length bs) (be_to_nat bs) = bs"
  by (induction bs rule: rev_induct) simp_all

definition to_be_bytes :: "'a::len word \<Rightarrow> bytes" where
  "to_be_bytes w = be_of_nat (LENGTH('a) div 8) (unat w)"

definition from_be_bytes :: "bytes \<Rightarrow> 'a::len word" where
  "from_be_bytes bs = word_of_nat (be_to_nat bs)"

lemma length_to_be_bytes [simp]:
  "length (to_be_bytes (w :: 'a::len word)) = LENGTH('a) div 8"
  by (simp add: to_be_bytes_def)

lemma power_256_div_8:
  assumes "8 dvd n"
  shows "(256::nat) ^ (n div 8) = 2 ^ n"
proof -
  have "(256::nat) ^ (n div 8) = (2 ^ 8) ^ (n div 8)" by simp
  also have "\<dots> = 2 ^ (8 * (n div 8))" by (simp only: power_mult)
  finally show ?thesis using assms by simp
qed

lemma from_to_be_bytes [simp]:
  fixes w :: "'a::len word"
  assumes "8 dvd LENGTH('a)"
  shows "from_be_bytes (to_be_bytes w) = w"
proof -
  have "(256::nat) ^ (LENGTH('a) div 8) = 2 ^ LENGTH('a)"
    using assms by (rule power_256_div_8)
  then show ?thesis
    using unat_less_exp [of w]
    by (simp add: from_be_bytes_def to_be_bytes_def be_to_nat_be_of_nat)
qed

lemma to_from_be_bytes [simp]:
  assumes "8 dvd LENGTH('a)" and "length bs = LENGTH('a) div 8"
  shows "to_be_bytes (from_be_bytes bs :: 'a::len word) = bs"
proof -
  have "be_to_nat bs < 2 ^ LENGTH('a)"
    using be_to_nat_less [of bs] assms by (simp add: power_256_div_8)
  then show ?thesis
    using assms be_of_nat_be_to_nat [of bs]
    by (simp add: to_be_bytes_def from_be_bytes_def unat_of_nat_fits)
qed

lemma two_in_filter:
  assumes "\<not> length (filter P xs) \<le> 1"
  shows "\<exists>i j. i < length xs \<and> j < length xs \<and> i \<noteq> j \<and> P (xs ! i) \<and> P (xs ! j)"
proof -
  have "\<not> card {i. i < length xs \<and> P (xs ! i)} \<le> Suc 0"
    using assms by (simp add: length_filter_conv_card)
  then show ?thesis
    by (subst (asm) card_le_Suc0_iff_eq) auto
qed

lemma sum_list_map_filter_nth:
  "(\<Sum>x \<leftarrow> filter P xs. f x) = (\<Sum>i \<in> {i. i < length xs \<and> P (xs ! i)}. f (xs ! i) :: nat)"
proof -
  have "(\<Sum>x \<leftarrow> filter P xs. f x) = (\<Sum>x \<leftarrow> xs. if P x then f x else 0)"
    by (rule sum_list_map_filter')
  also have "\<dots> = (\<Sum>i \<in> {..<length xs}. if P (xs ! i) then f (xs ! i) else 0)"
    by (simp add: sum_list_sum_nth atLeast0LessThan)
  also have "\<dots> = (\<Sum>i \<in> {i \<in> {..<length xs}. P (xs ! i)}. f (xs ! i))"
    by (rule sum.inter_filter [symmetric]) simp
  finally show ?thesis by simp
qed

end
