(* ===== verification/BTree_Map.thy ===== *)
theory BTree_Map
  imports Arbor_Prelude
begin

text \<open>
  The part of \<open>std::collections::BTreeMap\<close> the sources use. A map is its association list in
  strictly ascending key order, which is the order iteration, \<open>keys\<close>, \<open>values\<close> and \<open>range\<close>
  follow. The locale \<open>ordered_map\<close> states the contract of the operations; the lemmas the
  clients need are proved once inside it and reach them through the interpretation \<open>btree\<close>.
\<close>

section \<open>Operations\<close>

type_synonym ('k, 'v) btree_map = "('k \<times> 'v) list"

definition bt_wf :: "('k::linorder, 'v) btree_map \<Rightarrow> bool" where
  "bt_wf m \<longleftrightarrow> sorted_wrt (<) (map fst m)"

definition bt_get :: "('k, 'v) btree_map \<Rightarrow> 'k \<Rightarrow> 'v option" where
  "bt_get m k = map_of m k"

definition bt_contains :: "('k, 'v) btree_map \<Rightarrow> 'k \<Rightarrow> bool" where
  "bt_contains m k \<longleftrightarrow> bt_get m k \<noteq> None"

fun bt_insert :: "'k::linorder \<Rightarrow> 'v \<Rightarrow> ('k, 'v) btree_map \<Rightarrow> ('k, 'v) btree_map" where
  "bt_insert k v [] = [(k, v)]"
| "bt_insert k v ((k', v') # m) =
     (if k < k' then (k, v) # (k', v') # m
      else if k = k' then (k, v) # m
      else (k', v') # bt_insert k v m)"

definition bt_remove :: "'k \<Rightarrow> ('k, 'v) btree_map \<Rightarrow> ('k, 'v) btree_map" where
  "bt_remove k m = filter (\<lambda>(k', _). k' \<noteq> k) m"

definition bt_keys :: "('k, 'v) btree_map \<Rightarrow> 'k list" where
  "bt_keys m = map fst m"

definition bt_values :: "('k, 'v) btree_map \<Rightarrow> 'v list" where
  "bt_values m = map snd m"

definition bt_remove_all :: "'k list \<Rightarrow> ('k, 'v) btree_map \<Rightarrow> ('k, 'v) btree_map" where
  "bt_remove_all ks m = fold bt_remove ks m"

section \<open>Contract\<close>

locale ordered_map =
  fixes wf :: "'m \<Rightarrow> bool"
    and get :: "'m \<Rightarrow> 'k::linorder \<Rightarrow> 'v option"
    and insert :: "'k \<Rightarrow> 'v \<Rightarrow> 'm \<Rightarrow> 'm"
    and remove :: "'k \<Rightarrow> 'm \<Rightarrow> 'm"
    and keys :: "'m \<Rightarrow> 'k list"
  assumes get_insert: "wf m \<Longrightarrow> get (insert k v m) j = (if j = k then Some v else get m j)"
    and get_remove: "get (remove k m) j = (if j = k then None else get m j)"
    and wf_insert: "wf m \<Longrightarrow> wf (insert k v m)"
    and wf_remove: "wf m \<Longrightarrow> wf (remove k m)"
    and keys_sorted: "wf m \<Longrightarrow> sorted_wrt (<) (keys m)"
    and set_keys: "set (keys m) = {k. get m k \<noteq> None}"
begin

lemma finite_keys: "finite {k. get m k \<noteq> None}"
  using List.finite_set [of "keys m"] by (simp only: set_keys)

lemma distinct_keys: "wf m \<Longrightarrow> distinct (keys m)"
  using keys_sorted [of m] by (simp add: strict_sorted_iff)

lemma length_keys: "wf m \<Longrightarrow> length (keys m) = card {k. get m k \<noteq> None}"
  using distinct_card [OF distinct_keys, of m] by (simp only: set_keys)

lemma keys_dom_cong:
  assumes "wf m" and "wf n" and "\<And>k. get m k = None \<longleftrightarrow> get n k = None"
  shows "keys m = keys n"
proof (rule strict_sorted_equal)
  show "sorted_wrt (<) (keys n)" "sorted_wrt (<) (keys m)"
    using assms(1,2) keys_sorted by blast+
  show "set (keys m) = set (keys n)"
    using assms(3) by (auto simp: set_keys)
qed

lemma length_keys_insert:
  assumes "wf m"
  shows "length (keys (insert k v m)) =
    (if get m k = None then Suc (length (keys m)) else length (keys m))"
proof -
  have "{j. get (insert k v m) j \<noteq> None} = Set.insert k {j. get m j \<noteq> None}"
    using assms by (auto simp: get_insert)
  then show ?thesis
    using assms by (simp add: length_keys wf_insert finite_keys card_insert_if del: not_None_eq)
qed

lemma length_keys_remove:
  assumes "wf m"
  shows "length (keys (remove k m)) =
    (if get m k = None then length (keys m) else length (keys m) - 1)"
proof -
  have "{j. get (remove k m) j \<noteq> None} = {j. get m j \<noteq> None} - {k}"
    by (auto simp: get_remove)
  then show ?thesis
    using assms by (simp add: length_keys wf_remove finite_keys del: not_None_eq)
qed

end

lemma bt_wf_Nil [simp]: "bt_wf []"
  by (simp add: bt_wf_def)

lemma bt_get_Nil [simp]: "bt_get [] k = None"
  by (simp add: bt_get_def)

lemma set_fst_bt_insert: "fst ` set (bt_insert k v m) = Set.insert k (fst ` set m)"
  by (induction k v m rule: bt_insert.induct) auto

lemma bt_wf_insert: "bt_wf m \<Longrightarrow> bt_wf (bt_insert k v m)"
  by (induction k v m rule: bt_insert.induct) (auto simp: bt_wf_def set_fst_bt_insert)

lemma map_of_bt_insert: "bt_wf m \<Longrightarrow> map_of (bt_insert k v m) = (map_of m)(k \<mapsto> v)"
proof (induction k v m rule: bt_insert.induct)
  case (2 k v k' v' m)
  show ?case
  proof (cases "k < k' \<or> k = k'")
    case False
    with 2 show ?thesis by (auto simp: bt_wf_def)
  qed auto
qed simp

lemma map_of_bt_remove: "map_of (bt_remove k m) j = (if j = k then None else map_of m j)"
  by (induction m) (auto simp: bt_remove_def)

lemma bt_wf_filter: "bt_wf m \<Longrightarrow> bt_wf (filter P m)"
  unfolding bt_wf_def by (induction m) auto

interpretation btree: ordered_map bt_wf bt_get bt_insert bt_remove bt_keys
proof
  fix m :: "('a, 'b) btree_map" and k j :: 'a and v :: 'b
  show "bt_wf m \<Longrightarrow> bt_get (bt_insert k v m) j = (if j = k then Some v else bt_get m j)"
    by (simp add: bt_get_def map_of_bt_insert)
  show "bt_get (bt_remove k m) j = (if j = k then None else bt_get m j)"
    by (simp add: bt_get_def map_of_bt_remove)
  show "bt_wf m \<Longrightarrow> bt_wf (bt_insert k v m)" by (rule bt_wf_insert)
  show "bt_wf m \<Longrightarrow> bt_wf (bt_remove k m)"
    unfolding bt_remove_def by (rule bt_wf_filter)
  show "bt_wf m \<Longrightarrow> sorted_wrt (<) (bt_keys m)"
    by (simp add: bt_wf_def bt_keys_def)
  show "set (bt_keys m) = {k. bt_get m k \<noteq> None}"
    by (auto simp: bt_keys_def bt_get_def map_of_eq_None_iff)
qed

section \<open>Facts of the list representation\<close>

lemma length_bt_keys [simp]: "length (bt_keys m) = length m"
  by (simp add: bt_keys_def)

lemma bt_wf_distinct: "bt_wf m \<Longrightarrow> distinct (map fst m)"
  using btree.distinct_keys [of m] by (simp add: bt_keys_def)

lemma bt_get_eq_Some: "bt_wf m \<Longrightarrow> bt_get m k = Some v \<longleftrightarrow> (k, v) \<in> set m"
  by (simp add: bt_get_def bt_wf_distinct map_of_eq_Some_iff)

lemma bt_get_filter:
  "bt_wf m \<Longrightarrow> bt_get (filter P m) k =
     (case bt_get m k of Some v \<Rightarrow> if P (k, v) then Some v else None | None \<Rightarrow> None)"
proof -
  assume wf: "bt_wf m"
  then have wf': "bt_wf (filter P m)" by (rule bt_wf_filter)
  have some: "bt_get (filter P m) k = Some v \<longleftrightarrow> bt_get m k = Some v \<and> P (k, v)" for v
    using bt_get_eq_Some [OF wf, of k v] bt_get_eq_Some [OF wf', of k v] by simp
  show ?thesis
  proof (cases "bt_get (filter P m) k")
    case (Some v)
    with some [of v] show ?thesis by simp
  next
    case None
    then have "bt_get m k = Some v \<Longrightarrow> \<not> P (k, v)" for v
      using some [of v] by simp
    with None show ?thesis by (cases "bt_get m k") simp_all
  qed
qed

lemma bt_remove_all_filter:
  "bt_remove_all ks m = filter (\<lambda>(k, _). k \<notin> set ks) m"
proof (induction ks arbitrary: m)
  case (Cons k ks)
  have "bt_remove_all (k # ks) m = filter (\<lambda>(j, _). j \<notin> set ks) (bt_remove k m)"
    using Cons.IH by (simp add: bt_remove_all_def)
  also have "\<dots> = filter (\<lambda>(j, _). j \<notin> set (k # ks)) m"
    by (simp add: bt_remove_def case_prod_unfold conj_commute)
  finally show ?case .
qed (simp add: bt_remove_all_def case_prod_unfold)

lemma bt_wf_remove_all: "bt_wf m \<Longrightarrow> bt_wf (bt_remove_all ks m)"
  by (simp add: bt_remove_all_filter bt_wf_filter)

lemma bt_get_remove_all:
  "bt_wf m \<Longrightarrow> bt_get (bt_remove_all ks m) j = (if j \<in> set ks then None else bt_get m j)"
  by (simp add: bt_remove_all_filter bt_get_filter split: option.splits)

lemma bt_eqI:
  assumes "bt_wf m" and "bt_wf n" and "\<And>k. bt_get m k = bt_get n k"
  shows "m = n"
proof -
  have keys: "map fst m = map fst n"
    using btree.keys_dom_cong [OF assms(1,2)] assms(3) by (simp add: bt_keys_def)
  have "set m = set n"
    using assms bt_get_eq_Some [OF assms(1)] bt_get_eq_Some [OF assms(2)] by auto
  then have "inj_on fst (set m \<union> set n)"
    using bt_wf_distinct [OF assms(1)] by (simp add: distinct_map)
  with keys show ?thesis by (rule map_inj_on)
qed

lemma bt_insert_overwrite: "bt_wf m \<Longrightarrow> bt_insert k v (bt_insert k w m) = bt_insert k v m"
  by (rule bt_eqI) (auto simp: btree.get_insert btree.wf_insert)

text \<open>\<open>BTreeMap::extend\<close>, and collecting pairs into a map: later pairs overwrite.\<close>

definition bt_extend :: "('k::linorder, 'v) btree_map \<Rightarrow> ('k \<times> 'v) list \<Rightarrow> ('k, 'v) btree_map" where
  "bt_extend m xs = fold (\<lambda>(k, v). bt_insert k v) xs m"

lemma bt_extend_simps [simp]:
  "bt_extend m [] = m" "bt_extend m ((k, v) # xs) = bt_extend (bt_insert k v m) xs"
  by (simp_all add: bt_extend_def)

lemma bt_wf_extend: "bt_wf m \<Longrightarrow> bt_wf (bt_extend m xs)"
  by (induction xs arbitrary: m) (auto simp: bt_wf_insert)

lemma bt_get_extend:
  "bt_wf m \<Longrightarrow> bt_get (bt_extend m xs) k = (case map_of (rev xs) k of Some v \<Rightarrow> Some v | None \<Rightarrow> bt_get m k)"
  by (induction xs arbitrary: m) (auto simp: bt_wf_insert btree.get_insert map_add_def split: option.splits)

lemma set_bt_insert_subset: "set (bt_insert k v m) \<subseteq> Set.insert (k, v) (set m)"
  by (induction k v m rule: bt_insert.induct) auto

lemma set_bt_extend_subset: "set (bt_extend m xs) \<subseteq> set m \<union> set xs"
proof (induction xs arbitrary: m)
  case (Cons x xs)
  obtain k v where x: "x = (k, v)"
    by (cases x)
  show ?case
    using Cons.IH [of "bt_insert k v m"] set_bt_insert_subset [of k v m] by (auto simp: x)
qed simp

section \<open>Counting keys\<close>

definition bt_count :: "('k \<Rightarrow> bool) \<Rightarrow> ('k, 'v) btree_map \<Rightarrow> nat" where
  "bt_count P m = length (filter P (bt_keys m))"

lemma bt_count_card: "bt_wf m \<Longrightarrow> bt_count P m = card {k. P k \<and> bt_get m k \<noteq> None}"
proof -
  assume "bt_wf m"
  then have "distinct (filter P (bt_keys m))" by (simp add: btree.distinct_keys)
  moreover have "set (filter P (bt_keys m)) = {k. P k \<and> bt_get m k \<noteq> None}"
    using btree.set_keys [of m] by auto
  ultimately show ?thesis by (metis bt_count_def distinct_card)
qed

lemma bt_count_finite: "finite {k :: 'k::linorder. P k \<and> bt_get m k \<noteq> None}"
  by (rule finite_subset [OF _ btree.finite_keys [of m]]) blast

lemma bt_count_Nil [simp]: "bt_count P [] = 0"
  by (simp add: bt_count_def bt_keys_def)

lemma bt_count_insert:
  assumes "bt_wf m"
  shows "bt_count P (bt_insert k v m) =
    bt_count P m + (if P k \<and> bt_get m k = None then 1 else 0)"
proof -
  have "{j. P j \<and> bt_get (bt_insert k v m) j \<noteq> None} =
      (if P k then insert k {j. P j \<and> bt_get m j \<noteq> None} else {j. P j \<and> bt_get m j \<noteq> None})"
    using assms by (auto simp: btree.get_insert)
  then show ?thesis
    using bt_count_finite [of P m]
    by (simp add: bt_count_card btree.wf_insert assms card_insert_if del: not_None_eq)
qed

lemma bt_count_remove:
  assumes "bt_wf m"
  shows "bt_count P (bt_remove k m) =
    bt_count P m - (if P k \<and> bt_get m k \<noteq> None then 1 else 0)"
proof -
  have "{j. P j \<and> bt_get (bt_remove k m) j \<noteq> None} = {j. P j \<and> bt_get m j \<noteq> None} - {k}"
    by (auto simp: btree.get_remove)
  then show ?thesis
    using bt_count_finite [of P m]
    by (simp add: bt_count_card btree.wf_remove assms card_Diff_singleton_if del: not_None_eq)
qed

lemma bt_count_remove_all:
  assumes "bt_wf m"
  shows "bt_count P (bt_remove_all ks m) = bt_count P m - card {k \<in> set ks. P k \<and> bt_get m k \<noteq> None}"
proof -
  have "{j. P j \<and> bt_get (bt_remove_all ks m) j \<noteq> None} =
      {j. P j \<and> bt_get m j \<noteq> None} - {k \<in> set ks. P k \<and> bt_get m k \<noteq> None}"
    using assms by (auto simp: bt_get_remove_all)
  moreover have "card ({j. P j \<and> bt_get m j \<noteq> None} - {k \<in> set ks. P k \<and> bt_get m k \<noteq> None}) =
      card {j. P j \<and> bt_get m j \<noteq> None} - card {k \<in> set ks. P k \<and> bt_get m k \<noteq> None}"
    by (rule card_Diff_subset) auto
  ultimately show ?thesis
    using assms by (simp add: bt_count_card bt_wf_remove_all del: not_None_eq)
qed

lemma bt_count_pos: "bt_wf m \<Longrightarrow> bt_count P m = 0 \<longleftrightarrow> (\<forall>k. P k \<longrightarrow> bt_get m k = None)"
  using bt_count_finite [of P m] by (auto simp: bt_count_card)

lemma bt_range_insert_new:
  assumes "bt_wf m" and "bt_get m k = None"
  shows "{w. \<exists>j. bt_get (bt_insert k v m) j = Some w} = insert v {w. \<exists>j. bt_get m j = Some w}"
proof -
  have "(\<exists>j. bt_get (bt_insert k v m) j = Some w) \<longleftrightarrow> w = v \<or> (\<exists>j. bt_get m j = Some w)" for w
    using assms by (metis btree.get_insert option.distinct(1) option.inject)
  then show ?thesis by blast
qed

lemma length_bt_insert:
  "bt_wf m \<Longrightarrow> length (bt_insert k v m) = length m + (if bt_get m k = None then 1 else 0)"
  using btree.length_keys_insert [of m k v] by simp

lemma bt_count_mono:
  assumes "bt_wf m" and "bt_wf m'" and "\<And>k. bt_get m k = None \<Longrightarrow> bt_get m' k = None"
  shows "bt_count P m' \<le> bt_count P m"
proof -
  have "bt_get m' k \<noteq> None \<Longrightarrow> bt_get m k \<noteq> None" for k
    by (erule contrapos_nn) (rule assms(3))
  then have "{k. P k \<and> bt_get m' k \<noteq> None} \<subseteq> {k. P k \<and> bt_get m k \<noteq> None}"
    by (intro Collect_mono) simp
  then have "card {k. P k \<and> bt_get m' k \<noteq> None} \<le> card {k. P k \<and> bt_get m k \<noteq> None}"
    by (rule card_mono [OF bt_count_finite])
  then show ?thesis by (simp only: bt_count_card [OF assms(1)] bt_count_card [OF assms(2)])
qed

lemma bt_length_mono:
  assumes "bt_wf m" and "bt_wf m'" and "\<And>k. bt_get m k = None \<Longrightarrow> bt_get m' k = None"
  shows "length m' \<le> length m"
  using bt_count_mono [OF assms, of "\<lambda>_. True"] by (simp add: bt_count_def)

end
