(* ===== verification/Primitives.thy ===== *)
theory Primitives
  imports Arbor_Prelude
begin

text \<open>
  The consensus-facing data of \<open>arbor-primitives\<close>: identifiers, headers, batches, receipts,
  transactions, domain descriptors, validators, votes and certificates, one record per struct
  with its fields in source order. Identifier newtypes are their payload. A Rust \<open>String\<close> is
  its UTF-8 bytes; the codec's well-formedness predicates say that they are valid UTF-8.
\<close>

section \<open>Identifiers\<close>

type_synonym NetworkId = b256
type_synonym DomainId = b256
type_synonym ValidatorId = b256
type_synonym ConsensusHeight = u64
type_synonym DomainNumber = u64
type_synonym ConsensusRound = u64
type_synonym ConsensusPublicKey = "264 word"
type_synonym ConsensusSignature = "512 word"
type_synonym VotePhase = u8

definition PROTOCOL_VERSION :: u32 where
  "PROTOCOL_VERSION = 1"

definition CANONICAL_CODEC_VERSION :: u8 where
  "CANONICAL_CODEC_VERSION = 1"

section \<open>Headers and batches\<close>

record ConsensusBlockHeader =
  ch_protocol_version :: u32
  ch_network_id :: NetworkId
  ch_height :: ConsensusHeight
  ch_parent_hash :: b256
  ch_timestamp :: u64
  ch_batches_root :: b256
  ch_domain_results_root :: b256
  ch_domain_heads_root :: b256
  ch_validator_set_hash :: b256
  ch_next_validator_set_hash :: b256
  ch_proposer :: address

record DomainBatch =
  batch_domain_id :: DomainId
  batch_parent_domain_block_hash :: b256
  batch_transactions :: "bytes list"

record DomainBlockHeader =
  dh_protocol_version :: u32
  dh_domain_id :: DomainId
  dh_number :: DomainNumber
  dh_parent_hash :: b256
  dh_consensus_height :: ConsensusHeight
  dh_transactions_root :: b256
  dh_state_root :: b256
  dh_receipts_root :: b256
  dh_logs_bloom :: bloom
  dh_gas_limit :: u64
  dh_gas_used :: u64
  dh_base_fee_per_gas :: u128

section \<open>Receipts and transactions\<close>

record Log =
  log_address :: address
  log_topics :: "b256 list"
  log_data :: bytes

record Receipt =
  rc_status :: bool
  rc_cumulative_gas_used :: u64
  rc_logs_bloom :: bloom
  rc_logs :: "Log list"

record AccessListItem =
  al_address :: address
  al_storage_keys :: "b256 list"

record Eip1559Transaction =
  tx_chain_id :: u64
  tx_nonce :: u64
  tx_max_priority_fee_per_gas :: u128
  tx_max_fee_per_gas :: u128
  tx_gas_limit :: u64
  tx_to :: "address option"
  tx_value :: u256
  tx_input :: bytes
  tx_access_list :: "AccessListItem list"
  tx_y_parity :: bool
  tx_r :: u256
  tx_s :: u256

section \<open>Domains\<close>

datatype DomainStatus = Pending | Active | Frozen

record DomainDescriptor =
  dd_domain_id :: DomainId
  dd_parent_domain_id :: DomainId
  dd_joint_domain_block_hash :: b256
  dd_create_tx_hash :: b256
  dd_origin_hash :: b256
  dd_name :: bytes
  dd_symbol :: bytes
  dd_evm_chain_id :: u64
  dd_owner :: address
  dd_protocol_revision :: u32
  dd_gas_limit :: u64
  dd_initial_base_fee :: u128
  dd_initial_supply :: u256
  dd_creation_deposit :: u256
  dd_status :: DomainStatus

record DomainGenesis =
  dg_domain_id :: DomainId
  dg_parent_domain_id :: DomainId
  dg_joint_domain_block_hash :: b256
  dg_create_tx_hash :: b256
  dg_name :: bytes
  dg_symbol :: bytes
  dg_evm_chain_id :: u64
  dg_owner :: address
  dg_protocol_revision :: u32
  dg_gas_limit :: u64
  dg_initial_base_fee :: u128
  dg_initial_supply :: u256
  dg_initial_state_root :: b256

section \<open>Validators and votes\<close>

record Validator =
  v_id :: ValidatorId
  v_public_key :: ConsensusPublicKey
  v_power :: u64

record ValidatorSet =
  vs_epoch :: u64
  vs_validators :: "Validator list"

record Vote =
  vote_network_id :: NetworkId
  vote_height :: ConsensusHeight
  vote_round :: ConsensusRound
  vote_phase :: VotePhase
  vote_block_hash :: b256
  vote_validator_id :: ValidatorId

record CommitSignature =
  cs_validator_id :: ValidatorId
  cs_signature :: ConsensusSignature

record QuorumCertificate =
  qc_network_id :: NetworkId
  qc_height :: ConsensusHeight
  qc_round :: ConsensusRound
  qc_phase :: VotePhase
  qc_block_hash :: b256
  qc_signatures :: "CommitSignature list"

end
