(* ===== verification/Canonical_Codec.thy ===== *)
theory Canonical_Codec
  imports Primitives
begin

text \<open>
  The canonical codec of \<open>arbor-codec\<close> (\<open>canonical.rs\<close>, with the limits and errors of
  \<open>lib.rs\<close>). A reader is a \<open>Decoder\<close> record; the writer methods are the byte strings they
  append. The locale \<open>wire_field\<close> is the contract between a writer method and its reader
  counterpart: the reader succeeds exactly on the writer's bytes. Every object is a sequence of
  such fields, so that decoding succeeds on exactly one byte string per value.
\<close>

section \<open>Limits and errors\<close>

definition MAX_TRANSACTION_ENVELOPE_BYTES :: nat where
  "MAX_TRANSACTION_ENVELOPE_BYTES = 256 * 1024"

definition MAX_CALLDATA_BYTES :: nat where
  "MAX_CALLDATA_BYTES = 128 * 1024"

definition MAX_INITCODE_BYTES :: nat where
  "MAX_INITCODE_BYTES = 49152"

definition MAX_ACCESS_LIST_ADDRESSES :: nat where
  "MAX_ACCESS_LIST_ADDRESSES = 1024"

definition MAX_ACCESS_LIST_STORAGE_KEYS :: nat where
  "MAX_ACCESS_LIST_STORAGE_KEYS = 1024"

definition MAX_BATCHES_PER_BLOCK :: nat where
  "MAX_BATCHES_PER_BLOCK = 256"

definition MAX_TRANSACTIONS_PER_BATCH :: nat where
  "MAX_TRANSACTIONS_PER_BATCH = 10000"

definition MAX_ACTIVE_VALIDATORS :: nat where
  "MAX_ACTIVE_VALIDATORS = 100"

definition MAX_CANONICAL_OBJECT_BYTES :: nat where
  "MAX_CANONICAL_OBJECT_BYTES = 16 * 1024 * 1024"

lemmas codec_limits =
  MAX_TRANSACTION_ENVELOPE_BYTES_def MAX_BATCHES_PER_BLOCK_def MAX_TRANSACTIONS_PER_BATCH_def
  MAX_ACTIVE_VALIDATORS_def MAX_CANONICAL_OBJECT_BYTES_def

text \<open>Error payloads that are Rust strings are kept as \<^typ>\<open>string\<close>; sizes as \<^typ>\<open>nat\<close>.\<close>

datatype CodecError =
    InputTooLarge string nat nat
  | UnexpectedEof
  | InvalidTag
  | UnknownVersion u8
  | TrailingBytes
  | LimitExceeded string nat nat
  | InvalidUtf8 string
  | InvalidValue string
  | NonCanonicalOrder string
  | Rlp string

section \<open>Byte strings\<close>

definition ascii :: "string \<Rightarrow> bytes" where
  "ascii s = map of_char s"

definition CONSENSUS_HEADER_TAG :: bytes where
  "CONSENSUS_HEADER_TAG = ascii ''ARBOR_CONSENSUS_HEADER_V1''"

definition DOMAIN_HEADER_TAG :: bytes where
  "DOMAIN_HEADER_TAG = ascii ''ARBOR_DOMAIN_HEADER_V1''"

definition DOMAIN_BATCH_TAG :: bytes where
  "DOMAIN_BATCH_TAG = ascii ''ARBOR_DOMAIN_BATCH_V1''"

definition DOMAIN_DESCRIPTOR_TAG :: bytes where
  "DOMAIN_DESCRIPTOR_TAG = ascii ''ARBOR_DOMAIN_DESCRIPTOR_V1''"

definition DOMAIN_GENESIS_TAG :: bytes where
  "DOMAIN_GENESIS_TAG = ascii ''ARBOR_DOMAIN_GENESIS_V1''"

definition VALIDATOR_SET_TAG :: bytes where
  "VALIDATOR_SET_TAG = ascii ''ARBOR_VALIDATOR_SET_V1''"

definition VOTE_TAG :: bytes where
  "VOTE_TAG = ascii ''ARBOR_VOTE_V1''"

definition QC_TAG :: bytes where
  "QC_TAG = ascii ''ARBOR_QC_V1''"

lemmas codec_tags =
  CONSENSUS_HEADER_TAG_def DOMAIN_HEADER_TAG_def DOMAIN_BATCH_TAG_def DOMAIN_DESCRIPTOR_TAG_def
  DOMAIN_GENESIS_TAG_def VALIDATOR_SET_TAG_def VOTE_TAG_def QC_TAG_def

lemma length_ascii [simp]: "length (ascii s) = length s"
  by (simp add: ascii_def)

lemma inj_of_char_u8: "inj (of_char :: char \<Rightarrow> u8)"
proof (rule injI)
  fix c d :: char
  assume eq: "(of_char c :: u8) = of_char d"
  have nat_of: "unat (of_char x :: u8) = (of_char x :: nat)" for x
    unfolding of_nat_of_char [where 'a = u8, symmetric]
    using unat_of_nat_fits [where 'a = 8, of "of_char x"] nat_of_char_less_256 [of x]
    by simp
  have "(of_char c :: nat) = of_char d"
    by (simp only: nat_of [symmetric] eq)
  then show "c = d" by (rule of_char_eqI)
qed

text \<open>The well-formed byte sequences \<open>std::str::from_utf8\<close> accepts.\<close>

definition utf8_between :: "u8 \<Rightarrow> u8 \<Rightarrow> u8 \<Rightarrow> bool" where
  "utf8_between lo hi b \<longleftrightarrow> lo \<le> b \<and> b \<le> hi"

fun utf8_tail :: "(u8 \<Rightarrow> bool) list \<Rightarrow> bytes \<Rightarrow> bytes option" where
  "utf8_tail [] bs = Some bs"
| "utf8_tail (p # ps) [] = None"
| "utf8_tail (p # ps) (b # bs) = (if p b then utf8_tail ps bs else None)"

definition utf8_cont :: "u8 \<Rightarrow> bool" where
  "utf8_cont = utf8_between 0x80 0xBF"

definition utf8_shape :: "u8 \<Rightarrow> (u8 \<Rightarrow> bool) list option" where
  "utf8_shape b =
     (if b < 0x80 then Some []
      else if utf8_between 0xC2 0xDF b then Some [utf8_cont]
      else if b = 0xE0 then Some [utf8_between 0xA0 0xBF, utf8_cont]
      else if b = 0xED then Some [utf8_between 0x80 0x9F, utf8_cont]
      else if utf8_between 0xE1 0xEF b then Some [utf8_cont, utf8_cont]
      else if b = 0xF0 then Some [utf8_between 0x90 0xBF, utf8_cont, utf8_cont]
      else if utf8_between 0xF1 0xF3 b then Some [utf8_cont, utf8_cont, utf8_cont]
      else if b = 0xF4 then Some [utf8_between 0x80 0x8F, utf8_cont, utf8_cont]
      else None)"

lemma utf8_tail_length: "utf8_tail ps bs = Some r \<Longrightarrow> length r \<le> length bs"
  by (induction ps bs rule: utf8_tail.induct) (auto split: if_splits)

function utf8_valid :: "bytes \<Rightarrow> bool" where
  "utf8_valid [] = True"
| "utf8_valid (b # bs) =
     (case utf8_shape b of
        None \<Rightarrow> False
      | Some ps \<Rightarrow> (case utf8_tail ps bs of None \<Rightarrow> False | Some r \<Rightarrow> utf8_valid r))"
  by pat_completeness auto
termination
  by (relation "measure length") (auto dest: utf8_tail_length)

section \<open>Writer\<close>

definition encoder_tagged :: "bytes \<Rightarrow> bytes" where
  "encoder_tagged tag = tag @ [CANONICAL_CODEC_VERSION]"

text \<open>
  The fixed-width writer methods \<open>u8\<close>, \<open>u32\<close>, \<open>u64\<close>, \<open>u128\<close>, \<open>b256\<close>, \<open>address\<close>, \<open>bloom\<close> and
  \<open>u256\<close> all append \<^const>\<open>to_be_bytes\<close> of their argument. The two length-carrying methods cast
  a length their callers have already bounded, so the cast is exact.
\<close>

definition w_count :: "nat \<Rightarrow> bytes" where
  "w_count n = to_be_bytes (word_of_nat n :: u32)"

definition w_bytes :: "bytes \<Rightarrow> bytes" where
  "w_bytes v = w_count (length v) @ v"

definition check_limit :: "string \<Rightarrow> nat \<Rightarrow> nat \<Rightarrow> (unit, CodecError) result" where
  "check_limit field actual limit =
     (if actual > limit then Err (LimitExceeded field limit actual) else Ok ())"

definition encoder_finish :: "bytes \<Rightarrow> (bytes, CodecError) result" where
  "encoder_finish out =
     bind_res (check_limit ''canonical object'' (length out) MAX_CANONICAL_OBJECT_BYTES)
       (\<lambda>_. Ok out)"

definition check_strictly_sorted :: "'a::linorder list \<Rightarrow> string \<Rightarrow> (unit, CodecError) result" where
  "check_strictly_sorted values field =
     (if length values < 2 \<or> successively (<) values then Ok ()
      else Err (NonCanonicalOrder field))"

text \<open>The \<open>for\<close> loops of the encoders, which check each element and append its bytes.\<close>

fun enc_many :: "('a \<Rightarrow> (bytes, 'e) result) \<Rightarrow> 'a list \<Rightarrow> (bytes, 'e) result" where
  "enc_many f [] = Ok []"
| "enc_many f (x # xs) =
     bind_res (f x) (\<lambda>b. bind_res (enc_many f xs) (\<lambda>bs. Ok (b @ bs)))"

section \<open>Reader\<close>

record Decoder =
  dec_input :: bytes
  dec_position :: nat

text \<open>
  \<open>take\<close>: the sources report \<open>UnexpectedEof\<close> both when \<open>position + length\<close> overflows \<open>usize\<close> and
  when it passes the end of the slice. No slice is longer than \<open>usize\<close> can count, so on
  natural numbers the second test covers both.
\<close>

definition dec_take :: "nat \<Rightarrow> Decoder \<Rightarrow> (bytes \<times> Decoder, CodecError) result" where
  "dec_take n d =
     (if dec_position d + n \<le> length (dec_input d)
      then Ok (take n (drop (dec_position d) (dec_input d)),
               d\<lparr>dec_position := dec_position d + n\<rparr>)
      else Err UnexpectedEof)"

definition dec_word :: "Decoder \<Rightarrow> ('a::len word \<times> Decoder, CodecError) result" where
  "dec_word d = bind_res (dec_take (LENGTH('a) div 8) d) (\<lambda>(bs, d). Ok (from_be_bytes bs, d))"

definition dec_u8 :: "Decoder \<Rightarrow> (u8 \<times> Decoder, CodecError) result" where
  "dec_u8 = dec_word"

definition dec_u32 :: "Decoder \<Rightarrow> (u32 \<times> Decoder, CodecError) result" where
  "dec_u32 = dec_word"

definition dec_u64 :: "Decoder \<Rightarrow> (u64 \<times> Decoder, CodecError) result" where
  "dec_u64 = dec_word"

definition dec_u128 :: "Decoder \<Rightarrow> (u128 \<times> Decoder, CodecError) result" where
  "dec_u128 = dec_word"

definition dec_b256 :: "Decoder \<Rightarrow> (b256 \<times> Decoder, CodecError) result" where
  "dec_b256 = dec_word"

definition dec_address :: "Decoder \<Rightarrow> (address \<times> Decoder, CodecError) result" where
  "dec_address = dec_word"

definition dec_bloom :: "Decoder \<Rightarrow> (bloom \<times> Decoder, CodecError) result" where
  "dec_bloom = dec_word"

definition dec_u256 :: "Decoder \<Rightarrow> (u256 \<times> Decoder, CodecError) result" where
  "dec_u256 = dec_word"

definition decoder_tagged :: "bytes \<Rightarrow> bytes \<Rightarrow> (Decoder, CodecError) result" where
  "decoder_tagged input tag =
     bind_res (check_limit ''canonical object'' (length input) MAX_CANONICAL_OBJECT_BYTES) (\<lambda>_.
     bind_res (dec_take (length tag) \<lparr>dec_input = input, dec_position = 0\<rparr>) (\<lambda>(found, d).
     if found \<noteq> tag then Err InvalidTag
     else bind_res (dec_u8 d) (\<lambda>(version, d).
     if version \<noteq> CANONICAL_CODEC_VERSION then Err (UnknownVersion version) else Ok d)))"

definition dec_count :: "string \<Rightarrow> nat \<Rightarrow> Decoder \<Rightarrow> (nat \<times> Decoder, CodecError) result" where
  "dec_count field limit d =
     bind_res (dec_u32 d) (\<lambda>(count, d).
     bind_res (check_limit field (unat count) limit) (\<lambda>_. Ok (unat count, d)))"

definition dec_bytes :: "string \<Rightarrow> nat \<Rightarrow> Decoder \<Rightarrow> (bytes \<times> Decoder, CodecError) result" where
  "dec_bytes field limit d =
     bind_res (dec_u32 d) (\<lambda>(len, d).
     bind_res (check_limit field (unat len) limit) (\<lambda>_. dec_take (unat len) d))"

definition dec_string :: "string \<Rightarrow> nat \<Rightarrow> Decoder \<Rightarrow> (bytes \<times> Decoder, CodecError) result" where
  "dec_string field limit d =
     bind_res (dec_bytes field limit d) (\<lambda>(value, d).
     if utf8_valid value then Ok (value, d) else Err (InvalidUtf8 field))"

definition decoder_finish :: "Decoder \<Rightarrow> (unit, CodecError) result" where
  "decoder_finish d =
     (if dec_position d = length (dec_input d) then Ok () else Err TrailingBytes)"

text \<open>The bounded \<open>for _ in 0..count\<close> loops that push one decoded element per iteration.\<close>

fun dec_many :: "(Decoder \<Rightarrow> ('a \<times> Decoder, 'e) result) \<Rightarrow> nat \<Rightarrow> Decoder
    \<Rightarrow> ('a list \<times> Decoder, 'e) result" where
  "dec_many f 0 d = Ok ([], d)"
| "dec_many f (Suc n) d =
     bind_res (f d) (\<lambda>(x, d). bind_res (dec_many f n d) (\<lambda>(xs, d). Ok (x # xs, d)))"

section \<open>Exactness of the reader\<close>

text \<open>\<open>dec_at pre r\<close> is the reader of \<open>pre @ r\<close> that has consumed \<open>pre\<close>.\<close>

definition dec_at :: "bytes \<Rightarrow> bytes \<Rightarrow> Decoder" where
  "dec_at pre r = \<lparr>dec_input = pre @ r, dec_position = length pre\<rparr>"

lemma dec_at_inject: "dec_at pre r = dec_at pre' r' \<longleftrightarrow> pre = pre' \<and> r = r'"
  by (auto simp: dec_at_def)

lemma dec_take_at [wire_simps]:
  "dec_take n (dec_at pre r) = Ok (x, d) \<longleftrightarrow>
     length x = n \<and> (\<exists>r'. r = x @ r' \<and> d = dec_at (pre @ x) r')"
proof (cases "n \<le> length r")
  case True
  then have "dec_take n (dec_at pre r) = Ok (take n r, dec_at (pre @ take n r) (drop n r))"
    by (simp add: dec_take_def dec_at_def)
  moreover have "length x = n \<and> (\<exists>r'. r = x @ r' \<and> d = dec_at (pre @ x) r') \<longleftrightarrow>
      x = take n r \<and> d = dec_at (pre @ take n r) (drop n r)"
    using True by (auto intro: exI [of _ "drop n r"])
  ultimately show ?thesis by auto
next
  case False
  then show ?thesis by (auto simp: dec_take_def dec_at_def)
qed

lemma check_limit_Ok [simp]: "check_limit f n l = Ok u \<longleftrightarrow> n \<le> l"
  by (auto simp: check_limit_def)

lemma check_strictly_sorted_Ok [simp]:
  "check_strictly_sorted xs f = Ok u \<longleftrightarrow> sorted_wrt (<) xs"
proof -
  have "length xs < 2 \<or> successively (<) xs \<longleftrightarrow> successively (<) xs"
    by (cases xs rule: list.exhaust; cases "tl xs") auto
  then show ?thesis
    by (auto simp: check_strictly_sorted_def successively_iff_sorted_wrt_strong)
qed

lemma encoder_finish_Ok [simp]:
  "encoder_finish out = Ok bs \<longleftrightarrow> length out \<le> MAX_CANONICAL_OBJECT_BYTES \<and> bs = out"
  by (auto simp: encoder_finish_def)

lemma decoder_finish_at [wire_simps]: "decoder_finish (dec_at pre r) = Ok u \<longleftrightarrow> r = []"
  by (auto simp: decoder_finish_def dec_at_def)

text \<open>
  A writer method \<open>enc\<close> and a reader method \<open>dec\<close> agree when the reader, placed anywhere in an
  input, returns \<open>x\<close> exactly if the bytes ahead start with \<open>enc x\<close>, and then stands behind them.
\<close>

locale wire_field =
  fixes enc :: "'a \<Rightarrow> bytes"
    and dec :: "Decoder \<Rightarrow> ('a \<times> Decoder, 'e) result"
    and valid :: "'a \<Rightarrow> bool"
  assumes exact: "dec (dec_at pre r) = Ok (x, d) \<longleftrightarrow>
    valid x \<and> (\<exists>r'. r = enc x @ r' \<and> d = dec_at (pre @ enc x) r')"
begin

lemma read_back: "valid x \<Longrightarrow> dec (dec_at pre (enc x @ r)) = Ok (x, dec_at (pre @ enc x) r)"
  by (simp add: exact)

lemma prefix_free:
  assumes "valid x" and "valid y" and "enc x @ r = enc y @ r'"
  shows "x = y \<and> r = r'"
proof -
  have "dec (dec_at [] (enc x @ r)) = Ok (x, dec_at (enc x) r)"
    using read_back [OF assms(1), of "[]" r] by simp
  moreover have "dec (dec_at [] (enc x @ r)) = Ok (y, dec_at (enc y) r')"
    using read_back [OF assms(2), of "[]" r'] assms(3) by simp
  ultimately show ?thesis by (simp add: dec_at_inject)
qed

lemma bind_exact:
  "bind_res (dec (dec_at pre r)) (case_prod f) = Ok v \<longleftrightarrow>
     (\<exists>x r'. valid x \<and> r = enc x @ r' \<and> f x (dec_at (pre @ enc x) r') = Ok v)"
  by (auto simp: exact split_beta; blast)

lemma many_exact:
  "dec_many dec n (dec_at pre r) = Ok (xs, d) \<longleftrightarrow>
     length xs = n \<and> (\<forall>x \<in> set xs. valid x) \<and>
     (\<exists>r'. r = concat (map enc xs) @ r' \<and> d = dec_at (pre @ concat (map enc xs)) r')"
proof (induction n arbitrary: pre r xs)
  case (Suc n)
  have "dec_many dec (Suc n) (dec_at pre r) = Ok (xs, d) \<longleftrightarrow>
      (\<exists>x r'. valid x \<and> r = enc x @ r' \<and>
        bind_res (dec_many dec n (dec_at (pre @ enc x) r')) (\<lambda>(ys, d). Ok (x # ys, d)) = Ok (xs, d))"
    by (simp only: dec_many.simps bind_exact)
  also have "\<dots> \<longleftrightarrow> (\<exists>x r' ys. valid x \<and> r = enc x @ r' \<and> xs = x # ys \<and>
        dec_many dec n (dec_at (pre @ enc x) r') = Ok (ys, d))"
    by auto
  also have "\<dots> \<longleftrightarrow> length xs = Suc n \<and> (\<forall>x \<in> set xs. valid x) \<and>
     (\<exists>r'. r = concat (map enc xs) @ r' \<and> d = dec_at (pre @ concat (map enc xs)) r')"
    by (cases xs) (auto simp: Suc.IH)
  finally show ?case .
qed auto

lemma bind_many_exact:
  "bind_res (dec_many dec n (dec_at pre r)) (case_prod f) = Ok v \<longleftrightarrow>
     (\<exists>xs r'. length xs = n \<and> (\<forall>x \<in> set xs. valid x) \<and> r = concat (map enc xs) @ r' \<and>
        f xs (dec_at (pre @ concat (map enc xs)) r') = Ok v)"
  by (auto simp: many_exact split_beta; blast)

end

lemma to_be_bytes_inject:
  fixes x y :: "'a::len word"
  assumes "8 dvd LENGTH('a)"
  shows "to_be_bytes x = to_be_bytes y \<longleftrightarrow> x = y"
  using from_to_be_bytes [OF assms, of x] from_to_be_bytes [OF assms, of y] by metis

lemma dec_word_exact:
  fixes x :: "'a::len word"
  assumes "8 dvd LENGTH('a)"
  shows "dec_word (dec_at pre r) = Ok (x, d) \<longleftrightarrow>
    True \<and> (\<exists>r'. r = to_be_bytes x @ r' \<and> d = dec_at (pre @ to_be_bytes x) r')"
proof -
  have "(\<exists>bs. dec_take (LENGTH('a) div 8) (dec_at pre r) = Ok (bs, d) \<and> x = from_be_bytes bs) \<longleftrightarrow>
      (\<exists>r'. r = to_be_bytes x @ r' \<and> d = dec_at (pre @ to_be_bytes x) r')" (is "?l \<longleftrightarrow> ?r")
  proof
    assume ?l
    then show ?r using assms by (auto simp: dec_take_at)
  next
    assume ?r
    then show ?l using assms by (intro exI [of _ "to_be_bytes x"]) (auto simp: dec_take_at)
  qed
  then show ?thesis by (auto simp: dec_word_def)
qed

interpretation f_u8: wire_field to_be_bytes dec_u8 "\<lambda>_. True"
  unfolding dec_u8_def by unfold_locales (rule dec_word_exact, simp)

interpretation f_u32: wire_field to_be_bytes dec_u32 "\<lambda>_. True"
  unfolding dec_u32_def by unfold_locales (rule dec_word_exact, simp)

interpretation f_u64: wire_field to_be_bytes dec_u64 "\<lambda>_. True"
  unfolding dec_u64_def by unfold_locales (rule dec_word_exact, simp)

interpretation f_u128: wire_field to_be_bytes dec_u128 "\<lambda>_. True"
  unfolding dec_u128_def by unfold_locales (rule dec_word_exact, simp)

interpretation f_b256: wire_field to_be_bytes dec_b256 "\<lambda>_. True"
  unfolding dec_b256_def by unfold_locales (rule dec_word_exact, simp)

interpretation f_address: wire_field to_be_bytes dec_address "\<lambda>_. True"
  unfolding dec_address_def by unfold_locales (rule dec_word_exact, simp)

interpretation f_bloom: wire_field to_be_bytes dec_bloom "\<lambda>_. True"
  unfolding dec_bloom_def by unfold_locales (rule dec_word_exact, simp)

interpretation f_u256: wire_field to_be_bytes dec_u256 "\<lambda>_. True"
  unfolding dec_u256_def by unfold_locales (rule dec_word_exact, simp)

interpretation f_public_key: wire_field to_be_bytes
  "dec_word :: Decoder \<Rightarrow> (ConsensusPublicKey \<times> Decoder, CodecError) result" "\<lambda>_. True"
  by unfold_locales (rule dec_word_exact, simp)

interpretation f_signature: wire_field to_be_bytes
  "dec_word :: Decoder \<Rightarrow> (ConsensusSignature \<times> Decoder, CodecError) result" "\<lambda>_. True"
  by unfold_locales (rule dec_word_exact, simp)

interpretation f_count: wire_field w_count "dec_count field limit"
  "\<lambda>n. n \<le> limit \<and> n < 2 ^ 32" for field limit
proof
  fix pre r n d
  have "(\<exists>c :: u32. unat c \<le> limit \<and> n = unat c \<and>
        (\<exists>r'. r = to_be_bytes c @ r' \<and> d = dec_at (pre @ to_be_bytes c) r')) \<longleftrightarrow>
      (n \<le> limit \<and> n < 2 ^ 32) \<and> (\<exists>r'. r = w_count n @ r' \<and> d = dec_at (pre @ w_count n) r')"
    (is "?l \<longleftrightarrow> ?r")
  proof
    assume ?l
    then show ?r using unat_less_exp [where 'a = 32] by (auto simp: w_count_def)
  next
    assume r: ?r
    then have "unat (word_of_nat n :: u32) = n" by (intro unat_of_nat_fits) simp
    with r show ?l by (intro exI [of _ "word_of_nat n :: u32"]) (simp add: w_count_def)
  qed
  then show "dec_count field limit (dec_at pre r) = Ok (n, d) \<longleftrightarrow>
      (n \<le> limit \<and> n < 2 ^ 32) \<and> (\<exists>r'. r = w_count n @ r' \<and> d = dec_at (pre @ w_count n) r')"
    by (auto simp: dec_count_def f_u32.exact)
qed

lemma dec_bytes_count:
  "dec_bytes field limit d =
     bind_res (dec_count field limit d) (\<lambda>(n, d). dec_take n d)"
  by (cases "dec_u32 d")
    (auto simp: dec_bytes_def dec_count_def check_limit_def split: prod.splits)

interpretation f_bytes: wire_field w_bytes "dec_bytes field limit"
  "\<lambda>v. length v \<le> limit \<and> length v < 2 ^ 32" for field limit
proof
  fix pre r v d
  show "dec_bytes field limit (dec_at pre r) = Ok (v, d) \<longleftrightarrow>
      (length v \<le> limit \<and> length v < 2 ^ 32) \<and>
      (\<exists>r'. r = w_bytes v @ r' \<and> d = dec_at (pre @ w_bytes v) r')"
    unfolding dec_bytes_count f_count.bind_exact dec_take_at w_bytes_def by auto
qed

interpretation f_string: wire_field w_bytes "dec_string field limit"
  "\<lambda>v. length v \<le> limit \<and> length v < 2 ^ 32 \<and> utf8_valid v" for field limit
proof
  fix pre r v d
  show "dec_string field limit (dec_at pre r) = Ok (v, d) \<longleftrightarrow>
      (length v \<le> limit \<and> length v < 2 ^ 32 \<and> utf8_valid v) \<and>
      (\<exists>r'. r = w_bytes v @ r' \<and> d = dec_at (pre @ w_bytes v) r')"
    unfolding dec_string_def f_bytes.bind_exact by (auto split: if_splits)
qed

lemma decoder_tagged_Ok:
  "decoder_tagged input tag = Ok d \<longleftrightarrow>
     length input \<le> MAX_CANONICAL_OBJECT_BYTES \<and>
     (\<exists>r. input = encoder_tagged tag @ r \<and> d = dec_at (encoder_tagged tag) r)"
proof -
  have start: "\<lparr>dec_input = input, dec_position = 0\<rparr> = dec_at [] input"
    by (simp add: dec_at_def)
  have version: "to_be_bytes CANONICAL_CODEC_VERSION = [CANONICAL_CODEC_VERSION]"
    by (simp add: to_be_bytes_def CANONICAL_CODEC_VERSION_def)
  show ?thesis
    unfolding decoder_tagged_def start
    by (auto simp: dec_take_at f_u8.exact encoder_tagged_def version split: if_splits)
qed

lemma bind_tagged_exact:
  "bind_res (decoder_tagged input tag) f = Ok v \<longleftrightarrow>
     length input \<le> MAX_CANONICAL_OBJECT_BYTES \<and>
     (\<exists>r. input = encoder_tagged tag @ r \<and> f (dec_at (encoder_tagged tag) r) = Ok v)"
  by (auto simp: decoder_tagged_Ok)

lemma bind_finish_exact:
  "bind_res (decoder_finish (dec_at pre r)) f = Ok v \<longleftrightarrow> r = [] \<and> f () = Ok v"
  by (auto simp: decoder_finish_at)

lemma bind_limit_exact: "bind_res (check_limit f n l) g = Ok v \<longleftrightarrow> n \<le> l \<and> g () = Ok v"
  by (auto simp: check_limit_def)

lemma bind_sorted_exact:
  "bind_res (check_strictly_sorted xs f) g = Ok v \<longleftrightarrow> sorted_wrt (<) xs \<and> g () = Ok v"
  by (simp only: bind_res_eq_Ok) (auto simp: check_strictly_sorted_Ok)

lemma enc_many_Ok:
  assumes "\<And>x b. f x = Ok b \<longleftrightarrow> valid x \<and> b = enc x"
  shows "enc_many f xs = Ok bs \<longleftrightarrow> (\<forall>x \<in> set xs. valid x) \<and> bs = concat (map enc xs)"
  by (induction xs arbitrary: bs) (auto simp: assms)

lemma bind_enc_many_exact:
  assumes "\<And>x b. f x = Ok b \<longleftrightarrow> valid x \<and> b = enc x"
  shows "bind_res (enc_many f xs) g = Ok v \<longleftrightarrow>
    (\<forall>x \<in> set xs. valid x) \<and> g (concat (map enc xs)) = Ok v"
  by (auto simp: enc_many_Ok [of f valid enc, OF assms])

lemma if_Err_exact: "(if c then Err e else m) = Ok v \<longleftrightarrow> \<not> c \<and> m = Ok v"
  by auto

text \<open>The equations that turn a decoder into the layout of the bytes it accepts.\<close>

lemmas wire_exact =
  bind_tagged_exact bind_finish_exact bind_limit_exact bind_sorted_exact if_Err_exact
  f_u8.bind_exact f_u32.bind_exact f_u64.bind_exact f_u128.bind_exact f_b256.bind_exact
  f_address.bind_exact f_bloom.bind_exact f_u256.bind_exact f_public_key.bind_exact
  f_signature.bind_exact f_count.bind_exact f_bytes.bind_exact f_string.bind_exact
  f_bytes.bind_many_exact

end
