(* ===== verification/Canonical_Objects.thy ===== *)
theory Canonical_Objects
  imports Canonical_Codec
begin

text \<open>
  The eight canonical objects of \<open>canonical.rs\<close>. For each: its encoder, its decoder, and the
  fact that the decoder accepts exactly the encoder's output (\<open>*_exact\<close>), which is both the
  round trip and the canonicity of the encoding. Rust's \<open>String\<close> is valid UTF-8 by its type;
  here that is the predicate of descriptors and genesis records.
\<close>

section \<open>Consensus and domain headers\<close>

definition encode_consensus_header :: "ConsensusBlockHeader \<Rightarrow> (bytes, CodecError) result" where
  "encode_consensus_header h = encoder_finish
     (encoder_tagged CONSENSUS_HEADER_TAG
      @ to_be_bytes (ch_protocol_version h)
      @ to_be_bytes (ch_network_id h)
      @ to_be_bytes (ch_height h)
      @ to_be_bytes (ch_parent_hash h)
      @ to_be_bytes (ch_timestamp h)
      @ to_be_bytes (ch_batches_root h)
      @ to_be_bytes (ch_domain_results_root h)
      @ to_be_bytes (ch_domain_heads_root h)
      @ to_be_bytes (ch_validator_set_hash h)
      @ to_be_bytes (ch_next_validator_set_hash h)
      @ to_be_bytes (ch_proposer h))"

definition decode_consensus_header :: "bytes \<Rightarrow> (ConsensusBlockHeader, CodecError) result" where
  "decode_consensus_header input =
     bind_res (decoder_tagged input CONSENSUS_HEADER_TAG) (\<lambda>d.
     bind_res (dec_u32 d) (\<lambda>(protocol_version, d).
     bind_res (dec_b256 d) (\<lambda>(network_id, d).
     bind_res (dec_u64 d) (\<lambda>(height, d).
     bind_res (dec_b256 d) (\<lambda>(parent_hash, d).
     bind_res (dec_u64 d) (\<lambda>(timestamp, d).
     bind_res (dec_b256 d) (\<lambda>(batches_root, d).
     bind_res (dec_b256 d) (\<lambda>(domain_results_root, d).
     bind_res (dec_b256 d) (\<lambda>(domain_heads_root, d).
     bind_res (dec_b256 d) (\<lambda>(validator_set_hash, d).
     bind_res (dec_b256 d) (\<lambda>(next_validator_set_hash, d).
     bind_res (dec_address d) (\<lambda>(proposer, d).
     bind_res (decoder_finish d) (\<lambda>_.
     Ok \<lparr>ch_protocol_version = protocol_version, ch_network_id = network_id,
         ch_height = height, ch_parent_hash = parent_hash, ch_timestamp = timestamp,
         ch_batches_root = batches_root, ch_domain_results_root = domain_results_root,
         ch_domain_heads_root = domain_heads_root, ch_validator_set_hash = validator_set_hash,
         ch_next_validator_set_hash = next_validator_set_hash,
         ch_proposer = proposer\<rparr>)))))))))))))"

lemma consensus_header_exact:
  "decode_consensus_header bs = Ok h \<longleftrightarrow> encode_consensus_header h = Ok bs"
  unfolding decode_consensus_header_def encode_consensus_header_def wire_exact encoder_finish_Ok
  by (cases h) auto

definition encode_domain_header :: "DomainBlockHeader \<Rightarrow> (bytes, CodecError) result" where
  "encode_domain_header h = encoder_finish
     (encoder_tagged DOMAIN_HEADER_TAG
      @ to_be_bytes (dh_protocol_version h)
      @ to_be_bytes (dh_domain_id h)
      @ to_be_bytes (dh_number h)
      @ to_be_bytes (dh_parent_hash h)
      @ to_be_bytes (dh_consensus_height h)
      @ to_be_bytes (dh_transactions_root h)
      @ to_be_bytes (dh_state_root h)
      @ to_be_bytes (dh_receipts_root h)
      @ to_be_bytes (dh_logs_bloom h)
      @ to_be_bytes (dh_gas_limit h)
      @ to_be_bytes (dh_gas_used h)
      @ to_be_bytes (dh_base_fee_per_gas h))"

definition decode_domain_header :: "bytes \<Rightarrow> (DomainBlockHeader, CodecError) result" where
  "decode_domain_header input =
     bind_res (decoder_tagged input DOMAIN_HEADER_TAG) (\<lambda>d.
     bind_res (dec_u32 d) (\<lambda>(protocol_version, d).
     bind_res (dec_b256 d) (\<lambda>(domain_id, d).
     bind_res (dec_u64 d) (\<lambda>(number, d).
     bind_res (dec_b256 d) (\<lambda>(parent_hash, d).
     bind_res (dec_u64 d) (\<lambda>(consensus_height, d).
     bind_res (dec_b256 d) (\<lambda>(transactions_root, d).
     bind_res (dec_b256 d) (\<lambda>(state_root, d).
     bind_res (dec_b256 d) (\<lambda>(receipts_root, d).
     bind_res (dec_bloom d) (\<lambda>(logs_bloom, d).
     bind_res (dec_u64 d) (\<lambda>(gas_limit, d).
     bind_res (dec_u64 d) (\<lambda>(gas_used, d).
     bind_res (dec_u128 d) (\<lambda>(base_fee_per_gas, d).
     bind_res (decoder_finish d) (\<lambda>_.
     Ok \<lparr>dh_protocol_version = protocol_version, dh_domain_id = domain_id,
         dh_number = number, dh_parent_hash = parent_hash,
         dh_consensus_height = consensus_height, dh_transactions_root = transactions_root,
         dh_state_root = state_root, dh_receipts_root = receipts_root,
         dh_logs_bloom = logs_bloom, dh_gas_limit = gas_limit, dh_gas_used = gas_used,
         dh_base_fee_per_gas = base_fee_per_gas\<rparr>))))))))))))))"

lemma domain_header_exact:
  "decode_domain_header bs = Ok h \<longleftrightarrow> encode_domain_header h = Ok bs"
  unfolding decode_domain_header_def encode_domain_header_def wire_exact encoder_finish_Ok
  by (cases h) auto

section \<open>Domain batches\<close>

definition encode_envelope :: "bytes \<Rightarrow> (bytes, CodecError) result" where
  "encode_envelope transaction =
     bind_res (check_limit ''transaction envelope'' (length transaction)
       MAX_TRANSACTION_ENVELOPE_BYTES) (\<lambda>_. Ok (w_bytes transaction))"

definition encode_domain_batch :: "DomainBatch \<Rightarrow> (bytes, CodecError) result" where
  "encode_domain_batch b =
     bind_res (check_limit ''domain batch transactions'' (length (batch_transactions b))
       MAX_TRANSACTIONS_PER_BATCH) (\<lambda>_.
     bind_res (enc_many encode_envelope (batch_transactions b)) (\<lambda>transactions.
     encoder_finish
       (encoder_tagged DOMAIN_BATCH_TAG
        @ to_be_bytes (batch_domain_id b)
        @ to_be_bytes (batch_parent_domain_block_hash b)
        @ w_count (length (batch_transactions b))
        @ transactions)))"

definition decode_domain_batch :: "bytes \<Rightarrow> (DomainBatch, CodecError) result" where
  "decode_domain_batch input =
     bind_res (decoder_tagged input DOMAIN_BATCH_TAG) (\<lambda>d.
     bind_res (dec_b256 d) (\<lambda>(domain_id, d).
     bind_res (dec_b256 d) (\<lambda>(parent_domain_block_hash, d).
     bind_res (dec_count ''domain batch transactions'' MAX_TRANSACTIONS_PER_BATCH d) (\<lambda>(count, d).
     bind_res (dec_many (dec_bytes ''transaction envelope'' MAX_TRANSACTION_ENVELOPE_BYTES)
       count d) (\<lambda>(transactions, d).
     bind_res (decoder_finish d) (\<lambda>_.
     Ok \<lparr>batch_domain_id = domain_id,
         batch_parent_domain_block_hash = parent_domain_block_hash,
         batch_transactions = transactions\<rparr>))))))"

lemma encode_envelope_Ok:
  "encode_envelope x = Ok b \<longleftrightarrow>
     (length x \<le> MAX_TRANSACTION_ENVELOPE_BYTES \<and> length x < 2 ^ 32) \<and> b = w_bytes x"
  by (auto simp: encode_envelope_def codec_limits)

lemma domain_batch_exact:
  "decode_domain_batch bs = Ok b \<longleftrightarrow> encode_domain_batch b = Ok bs"
  unfolding decode_domain_batch_def encode_domain_batch_def wire_exact encoder_finish_Ok
    bind_enc_many_exact [OF encode_envelope_Ok]
  by (cases b) (auto simp: codec_limits)

section \<open>Domain descriptors and genesis records\<close>

text \<open>\<open>status as u8\<close>: the discriminants the enumeration declares.\<close>

fun domain_status_u8 :: "DomainStatus \<Rightarrow> u8" where
  "domain_status_u8 Pending = 0"
| "domain_status_u8 Active = 1"
| "domain_status_u8 Frozen = 2"

definition domain_status_of_u8 :: "u8 \<Rightarrow> (DomainStatus, CodecError) result" where
  "domain_status_of_u8 b =
     (if b = 0 then Ok Pending
      else if b = 1 then Ok Active
      else if b = 2 then Ok Frozen
      else Err (InvalidValue ''domain status''))"

lemma domain_status_of_u8_Ok:
  "domain_status_of_u8 b = Ok s \<longleftrightarrow> b = domain_status_u8 s"
  by (cases s) (auto simp: domain_status_of_u8_def)

definition encode_domain_descriptor :: "DomainDescriptor \<Rightarrow> (bytes, CodecError) result" where
  "encode_domain_descriptor v =
     bind_res (check_limit ''domain name'' (length (dd_name v)) 64) (\<lambda>_.
     bind_res (check_limit ''domain symbol'' (length (dd_symbol v)) 16) (\<lambda>_.
     if dd_evm_chain_id v = 0 then Err (InvalidValue ''evm chain id'')
     else encoder_finish
       (encoder_tagged DOMAIN_DESCRIPTOR_TAG
        @ to_be_bytes (dd_domain_id v)
        @ to_be_bytes (dd_parent_domain_id v)
        @ to_be_bytes (dd_joint_domain_block_hash v)
        @ to_be_bytes (dd_create_tx_hash v)
        @ to_be_bytes (dd_origin_hash v)
        @ w_bytes (dd_name v)
        @ w_bytes (dd_symbol v)
        @ to_be_bytes (dd_evm_chain_id v)
        @ to_be_bytes (dd_owner v)
        @ to_be_bytes (dd_protocol_revision v)
        @ to_be_bytes (dd_gas_limit v)
        @ to_be_bytes (dd_initial_base_fee v)
        @ to_be_bytes (dd_initial_supply v)
        @ to_be_bytes (dd_creation_deposit v)
        @ to_be_bytes (domain_status_u8 (dd_status v)))))"

definition decode_domain_descriptor :: "bytes \<Rightarrow> (DomainDescriptor, CodecError) result" where
  "decode_domain_descriptor input =
     bind_res (decoder_tagged input DOMAIN_DESCRIPTOR_TAG) (\<lambda>d.
     bind_res (dec_b256 d) (\<lambda>(domain_id, d).
     bind_res (dec_b256 d) (\<lambda>(parent_domain_id, d).
     bind_res (dec_b256 d) (\<lambda>(joint_domain_block_hash, d).
     bind_res (dec_b256 d) (\<lambda>(create_tx_hash, d).
     bind_res (dec_b256 d) (\<lambda>(origin_hash, d).
     bind_res (dec_string ''domain name'' 64 d) (\<lambda>(name, d).
     bind_res (dec_string ''domain symbol'' 16 d) (\<lambda>(symbol, d).
     bind_res (dec_u64 d) (\<lambda>(evm_chain_id, d).
     if evm_chain_id = 0 then Err (InvalidValue ''evm chain id'') else
     bind_res (dec_address d) (\<lambda>(owner, d).
     bind_res (dec_u32 d) (\<lambda>(protocol_revision, d).
     bind_res (dec_u64 d) (\<lambda>(gas_limit, d).
     bind_res (dec_u128 d) (\<lambda>(initial_base_fee, d).
     bind_res (dec_u256 d) (\<lambda>(initial_supply, d).
     bind_res (dec_u256 d) (\<lambda>(creation_deposit, d).
     bind_res (dec_u8 d) (\<lambda>(b, d).
     bind_res (domain_status_of_u8 b) (\<lambda>status.
     bind_res (decoder_finish d) (\<lambda>_.
     Ok \<lparr>dd_domain_id = domain_id, dd_parent_domain_id = parent_domain_id,
         dd_joint_domain_block_hash = joint_domain_block_hash,
         dd_create_tx_hash = create_tx_hash, dd_origin_hash = origin_hash,
         dd_name = name, dd_symbol = symbol, dd_evm_chain_id = evm_chain_id,
         dd_owner = owner, dd_protocol_revision = protocol_revision,
         dd_gas_limit = gas_limit, dd_initial_base_fee = initial_base_fee,
         dd_initial_supply = initial_supply, dd_creation_deposit = creation_deposit,
         dd_status = status\<rparr>))))))))))))))))))"

lemma bind_status_exact:
  "bind_res (domain_status_of_u8 b) f = Ok v \<longleftrightarrow>
     (\<exists>s. b = domain_status_u8 s \<and> f s = Ok v)"
  by (auto simp: domain_status_of_u8_Ok)

lemma domain_descriptor_exact:
  assumes "utf8_valid (dd_name v)" and "utf8_valid (dd_symbol v)"
  shows "decode_domain_descriptor bs = Ok v \<longleftrightarrow> encode_domain_descriptor v = Ok bs"
  using assms
  unfolding decode_domain_descriptor_def encode_domain_descriptor_def wire_exact
    bind_status_exact encoder_finish_Ok
  by (cases v) auto

lemma decode_domain_descriptor_utf8:
  "decode_domain_descriptor bs = Ok v \<Longrightarrow> utf8_valid (dd_name v) \<and> utf8_valid (dd_symbol v)"
  unfolding decode_domain_descriptor_def wire_exact bind_status_exact by auto

definition encode_domain_genesis :: "DomainGenesis \<Rightarrow> (bytes, CodecError) result" where
  "encode_domain_genesis v =
     bind_res (check_limit ''domain name'' (length (dg_name v)) 64) (\<lambda>_.
     bind_res (check_limit ''domain symbol'' (length (dg_symbol v)) 16) (\<lambda>_.
     if dg_evm_chain_id v = 0 then Err (InvalidValue ''evm chain id'')
     else encoder_finish
       (encoder_tagged DOMAIN_GENESIS_TAG
        @ to_be_bytes (dg_domain_id v)
        @ to_be_bytes (dg_parent_domain_id v)
        @ to_be_bytes (dg_joint_domain_block_hash v)
        @ to_be_bytes (dg_create_tx_hash v)
        @ w_bytes (dg_name v)
        @ w_bytes (dg_symbol v)
        @ to_be_bytes (dg_evm_chain_id v)
        @ to_be_bytes (dg_owner v)
        @ to_be_bytes (dg_protocol_revision v)
        @ to_be_bytes (dg_gas_limit v)
        @ to_be_bytes (dg_initial_base_fee v)
        @ to_be_bytes (dg_initial_supply v)
        @ to_be_bytes (dg_initial_state_root v))))"

definition decode_domain_genesis :: "bytes \<Rightarrow> (DomainGenesis, CodecError) result" where
  "decode_domain_genesis input =
     bind_res (decoder_tagged input DOMAIN_GENESIS_TAG) (\<lambda>d.
     bind_res (dec_b256 d) (\<lambda>(domain_id, d).
     bind_res (dec_b256 d) (\<lambda>(parent_domain_id, d).
     bind_res (dec_b256 d) (\<lambda>(joint_domain_block_hash, d).
     bind_res (dec_b256 d) (\<lambda>(create_tx_hash, d).
     bind_res (dec_string ''domain name'' 64 d) (\<lambda>(name, d).
     bind_res (dec_string ''domain symbol'' 16 d) (\<lambda>(symbol, d).
     bind_res (dec_u64 d) (\<lambda>(evm_chain_id, d).
     if evm_chain_id = 0 then Err (InvalidValue ''evm chain id'') else
     bind_res (dec_address d) (\<lambda>(owner, d).
     bind_res (dec_u32 d) (\<lambda>(protocol_revision, d).
     bind_res (dec_u64 d) (\<lambda>(gas_limit, d).
     bind_res (dec_u128 d) (\<lambda>(initial_base_fee, d).
     bind_res (dec_u256 d) (\<lambda>(initial_supply, d).
     bind_res (dec_b256 d) (\<lambda>(initial_state_root, d).
     bind_res (decoder_finish d) (\<lambda>_.
     Ok \<lparr>dg_domain_id = domain_id, dg_parent_domain_id = parent_domain_id,
         dg_joint_domain_block_hash = joint_domain_block_hash,
         dg_create_tx_hash = create_tx_hash, dg_name = name, dg_symbol = symbol,
         dg_evm_chain_id = evm_chain_id, dg_owner = owner,
         dg_protocol_revision = protocol_revision, dg_gas_limit = gas_limit,
         dg_initial_base_fee = initial_base_fee, dg_initial_supply = initial_supply,
         dg_initial_state_root = initial_state_root\<rparr>)))))))))))))))"

lemma domain_genesis_exact:
  assumes "utf8_valid (dg_name v)" and "utf8_valid (dg_symbol v)"
  shows "decode_domain_genesis bs = Ok v \<longleftrightarrow> encode_domain_genesis v = Ok bs"
  using assms
  unfolding decode_domain_genesis_def encode_domain_genesis_def wire_exact encoder_finish_Ok
  by (cases v) auto

lemma decode_domain_genesis_utf8:
  "decode_domain_genesis bs = Ok v \<Longrightarrow> utf8_valid (dg_name v) \<and> utf8_valid (dg_symbol v)"
  unfolding decode_domain_genesis_def wire_exact by auto

section \<open>Validator sets\<close>

definition w_validator :: "Validator \<Rightarrow> bytes" where
  "w_validator v = to_be_bytes (v_id v) @ to_be_bytes (v_public_key v) @ to_be_bytes (v_power v)"

definition encode_validator :: "Validator \<Rightarrow> (bytes, CodecError) result" where
  "encode_validator v =
     (if v_power v = 0 then Err (InvalidValue ''validator power'') else Ok (w_validator v))"

definition decode_validator :: "Decoder \<Rightarrow> (Validator \<times> Decoder, CodecError) result" where
  "decode_validator d =
     bind_res (dec_b256 d) (\<lambda>(i, d).
     bind_res (dec_word d) (\<lambda>(public_key, d).
     bind_res (dec_u64 d) (\<lambda>(power, d).
     if power = 0 then Err (InvalidValue ''validator power'')
     else Ok (\<lparr>v_id = i, v_public_key = public_key, v_power = power\<rparr>, d))))"

definition encode_validator_set :: "ValidatorSet \<Rightarrow> (bytes, CodecError) result" where
  "encode_validator_set s =
     bind_res (check_limit ''validators'' (length (vs_validators s)) MAX_ACTIVE_VALIDATORS) (\<lambda>_.
     if vs_validators s = [] then Err (InvalidValue ''validator set'') else
     bind_res (check_strictly_sorted (map v_id (vs_validators s)) ''validators'') (\<lambda>_.
     bind_res (enc_many encode_validator (vs_validators s)) (\<lambda>validators.
     encoder_finish
       (encoder_tagged VALIDATOR_SET_TAG
        @ to_be_bytes (vs_epoch s)
        @ w_count (length (vs_validators s))
        @ validators))))"

definition decode_validator_set :: "bytes \<Rightarrow> (ValidatorSet, CodecError) result" where
  "decode_validator_set input =
     bind_res (decoder_tagged input VALIDATOR_SET_TAG) (\<lambda>d.
     bind_res (dec_u64 d) (\<lambda>(epoch, d).
     bind_res (dec_count ''validators'' MAX_ACTIVE_VALIDATORS d) (\<lambda>(count, d).
     if count = 0 then Err (InvalidValue ''validator set'') else
     bind_res (dec_many decode_validator count d) (\<lambda>(validators, d).
     bind_res (check_strictly_sorted (map v_id validators) ''validators'') (\<lambda>_.
     bind_res (decoder_finish d) (\<lambda>_.
     Ok \<lparr>vs_epoch = epoch, vs_validators = validators\<rparr>))))))"

interpretation f_validator: wire_field w_validator decode_validator "\<lambda>v. v_power v \<noteq> 0"
proof
  fix pre r v d
  show "decode_validator (dec_at pre r) = Ok (v, d) \<longleftrightarrow>
      v_power v \<noteq> 0 \<and> (\<exists>r'. r = w_validator v @ r' \<and> d = dec_at (pre @ w_validator v) r')"
    unfolding decode_validator_def wire_exact w_validator_def by (cases v) auto
qed

lemma encode_validator_Ok:
  "encode_validator v = Ok b \<longleftrightarrow> v_power v \<noteq> 0 \<and> b = w_validator v"
  by (auto simp: encode_validator_def)

lemma validator_set_exact:
  "decode_validator_set bs = Ok s \<longleftrightarrow> encode_validator_set s = Ok bs"
  unfolding decode_validator_set_def encode_validator_set_def wire_exact encoder_finish_Ok
    f_validator.bind_many_exact bind_enc_many_exact [OF encode_validator_Ok]
  by (cases s) (auto simp: codec_limits)

text \<open>What every decoded or encodable validator set satisfies.\<close>

lemma encode_validator_set_wf:
  assumes "encode_validator_set s = Ok bs"
  shows "sorted_wrt (<) (map v_id (vs_validators s)) \<and> vs_validators s \<noteq> [] \<and>
    length (vs_validators s) \<le> MAX_ACTIVE_VALIDATORS \<and>
    (\<forall>v \<in> set (vs_validators s). v_power v \<noteq> 0)"
  using assms
  unfolding encode_validator_set_def wire_exact encoder_finish_Ok
    bind_enc_many_exact [OF encode_validator_Ok]
  by auto

section \<open>Votes and quorum certificates\<close>

definition encode_vote :: "Vote \<Rightarrow> (bytes, CodecError) result" where
  "encode_vote v =
     (if vote_phase v = 0 then Err (InvalidValue ''vote phase'')
      else encoder_finish
        (encoder_tagged VOTE_TAG
         @ to_be_bytes (vote_network_id v)
         @ to_be_bytes (vote_height v)
         @ to_be_bytes (vote_round v)
         @ to_be_bytes (vote_phase v)
         @ to_be_bytes (vote_block_hash v)
         @ to_be_bytes (vote_validator_id v)))"

definition decode_vote :: "bytes \<Rightarrow> (Vote, CodecError) result" where
  "decode_vote input =
     bind_res (decoder_tagged input VOTE_TAG) (\<lambda>d.
     bind_res (dec_b256 d) (\<lambda>(network_id, d).
     bind_res (dec_u64 d) (\<lambda>(height, d).
     bind_res (dec_u64 d) (\<lambda>(round, d).
     bind_res (dec_u8 d) (\<lambda>(phase, d).
     if phase = 0 then Err (InvalidValue ''vote phase'') else
     bind_res (dec_b256 d) (\<lambda>(block_hash, d).
     bind_res (dec_b256 d) (\<lambda>(validator_id, d).
     bind_res (decoder_finish d) (\<lambda>_.
     Ok \<lparr>vote_network_id = network_id, vote_height = height, vote_round = round,
         vote_phase = phase, vote_block_hash = block_hash,
         vote_validator_id = validator_id\<rparr>))))))))"

lemma vote_exact: "decode_vote bs = Ok v \<longleftrightarrow> encode_vote v = Ok bs"
  unfolding decode_vote_def encode_vote_def wire_exact encoder_finish_Ok
  by (cases v) auto

definition w_commit_signature :: "CommitSignature \<Rightarrow> bytes" where
  "w_commit_signature c = to_be_bytes (cs_validator_id c) @ to_be_bytes (cs_signature c)"

definition decode_commit_signature
  :: "Decoder \<Rightarrow> (CommitSignature \<times> Decoder, CodecError) result" where
  "decode_commit_signature d =
     bind_res (dec_b256 d) (\<lambda>(i, d).
     bind_res (dec_word d) (\<lambda>(signature, d).
     Ok (\<lparr>cs_validator_id = i, cs_signature = signature\<rparr>, d)))"

definition encode_quorum_certificate :: "QuorumCertificate \<Rightarrow> (bytes, CodecError) result" where
  "encode_quorum_certificate q =
     (if qc_phase q = 0 then Err (InvalidValue ''certificate phase'') else
     bind_res (check_limit ''certificate signatures'' (length (qc_signatures q))
       MAX_ACTIVE_VALIDATORS) (\<lambda>_.
     if qc_signatures q = [] then Err (InvalidValue ''certificate signatures'') else
     bind_res (check_strictly_sorted (map cs_validator_id (qc_signatures q))
       ''certificate signatures'') (\<lambda>_.
     encoder_finish
       (encoder_tagged QC_TAG
        @ to_be_bytes (qc_network_id q)
        @ to_be_bytes (qc_height q)
        @ to_be_bytes (qc_round q)
        @ to_be_bytes (qc_phase q)
        @ to_be_bytes (qc_block_hash q)
        @ w_count (length (qc_signatures q))
        @ concat (map w_commit_signature (qc_signatures q))))))"

definition decode_quorum_certificate :: "bytes \<Rightarrow> (QuorumCertificate, CodecError) result" where
  "decode_quorum_certificate input =
     bind_res (decoder_tagged input QC_TAG) (\<lambda>d.
     bind_res (dec_b256 d) (\<lambda>(network_id, d).
     bind_res (dec_u64 d) (\<lambda>(height, d).
     bind_res (dec_u64 d) (\<lambda>(round, d).
     bind_res (dec_u8 d) (\<lambda>(phase, d).
     if phase = 0 then Err (InvalidValue ''certificate phase'') else
     bind_res (dec_b256 d) (\<lambda>(block_hash, d).
     bind_res (dec_count ''certificate signatures'' MAX_ACTIVE_VALIDATORS d) (\<lambda>(count, d).
     if count = 0 then Err (InvalidValue ''certificate signatures'') else
     bind_res (dec_many decode_commit_signature count d) (\<lambda>(signatures, d).
     bind_res (check_strictly_sorted (map cs_validator_id signatures)
       ''certificate signatures'') (\<lambda>_.
     bind_res (decoder_finish d) (\<lambda>_.
     Ok \<lparr>qc_network_id = network_id, qc_height = height, qc_round = round,
         qc_phase = phase, qc_block_hash = block_hash,
         qc_signatures = signatures\<rparr>))))))))))"

interpretation f_commit_signature: wire_field w_commit_signature decode_commit_signature
  "\<lambda>_. True"
proof
  fix pre r c d
  show "decode_commit_signature (dec_at pre r) = Ok (c, d) \<longleftrightarrow> True \<and>
      (\<exists>r'. r = w_commit_signature c @ r' \<and> d = dec_at (pre @ w_commit_signature c) r')"
    unfolding decode_commit_signature_def wire_exact w_commit_signature_def by (cases c) auto
qed

lemma quorum_certificate_exact:
  "decode_quorum_certificate bs = Ok q \<longleftrightarrow> encode_quorum_certificate q = Ok bs"
  unfolding decode_quorum_certificate_def encode_quorum_certificate_def wire_exact
    encoder_finish_Ok f_commit_signature.bind_many_exact
  by (cases q) (auto simp: codec_limits)

lemma encode_quorum_certificate_wf:
  assumes "encode_quorum_certificate q = Ok bs"
  shows "sorted_wrt (<) (map cs_validator_id (qc_signatures q)) \<and> qc_signatures q \<noteq> [] \<and>
    length (qc_signatures q) \<le> MAX_ACTIVE_VALIDATORS \<and> qc_phase q \<noteq> 0"
  using assms unfolding encode_quorum_certificate_def wire_exact by auto

section \<open>Separation of the object kinds\<close>

text \<open>An accepted input starts with the tag of its kind, and no tag is a prefix of another.\<close>

lemma decoder_tagged_prefix:
  "is_ok (bind_res (decoder_tagged bs tag) f) \<Longrightarrow> \<exists>r. bs = tag @ CANONICAL_CODEC_VERSION # r"
  by (cases "decoder_tagged bs tag") (auto simp: decoder_tagged_Ok encoder_tagged_def)

definition canonical_tags :: "bytes list" where
  "canonical_tags = [CONSENSUS_HEADER_TAG, DOMAIN_HEADER_TAG, DOMAIN_BATCH_TAG,
     DOMAIN_DESCRIPTOR_TAG, DOMAIN_GENESIS_TAG, VALIDATOR_SET_TAG, VOTE_TAG, QC_TAG]"

fun comparable :: "'a list \<Rightarrow> 'a list \<Rightarrow> bool" where
  "comparable (x # xs) (y # ys) \<longleftrightarrow> x = y \<and> comparable xs ys"
| "comparable _ _ \<longleftrightarrow> True"

lemma comparable_append: "xs @ r = ys @ r' \<Longrightarrow> comparable xs ys"
  by (induction xs ys rule: comparable.induct) auto

lemma comparable_map_inj: "inj f \<Longrightarrow> comparable (map f xs) (map f ys) \<longleftrightarrow> comparable xs ys"
  by (induction xs ys rule: comparable.induct) (auto dest: injD)

lemma comparable_ascii: "comparable (ascii s) (ascii t) \<longleftrightarrow> comparable s t"
  unfolding ascii_def by (rule comparable_map_inj) (rule inj_of_char_u8)

lemma tags_incomparable:
  assumes "i < length canonical_tags" and "j < length canonical_tags"
    and "comparable (canonical_tags ! i) (canonical_tags ! j)"
  shows "i = j"
proof -
  have "\<forall>i < length canonical_tags. \<forall>j < length canonical_tags.
      comparable (canonical_tags ! i) (canonical_tags ! j) \<longrightarrow> i = j"
    by (simp add: canonical_tags_def codec_tags comparable_ascii All_less_Suc numeral_eq_Suc)
  with assms show ?thesis by blast
qed

definition canonical_decoders_accept :: "bytes \<Rightarrow> bool list" where
  "canonical_decoders_accept bs =
     [is_ok (decode_consensus_header bs), is_ok (decode_domain_header bs),
      is_ok (decode_domain_batch bs), is_ok (decode_domain_descriptor bs),
      is_ok (decode_domain_genesis bs), is_ok (decode_validator_set bs),
      is_ok (decode_vote bs), is_ok (decode_quorum_certificate bs)]"

lemma canonical_decoders_tag:
  assumes "i < 8" and "canonical_decoders_accept bs ! i"
  shows "\<exists>r. bs = canonical_tags ! i @ r"
proof -
  have "\<forall>i < length canonical_tags. canonical_decoders_accept bs ! i \<longrightarrow>
      (\<exists>r. bs = canonical_tags ! i @ r)"
    unfolding canonical_decoders_accept_def canonical_tags_def
      decode_consensus_header_def decode_domain_header_def decode_domain_batch_def
      decode_domain_descriptor_def decode_domain_genesis_def decode_validator_set_def
      decode_vote_def decode_quorum_certificate_def
    by (auto simp: All_less_Suc numeral_eq_Suc dest!: decoder_tagged_prefix)
  with assms show ?thesis by (simp add: canonical_tags_def)
qed

lemma canonical_decoders_accept_length: "length (canonical_decoders_accept bs) = 8"
  by (simp add: canonical_decoders_accept_def)

section \<open>Properties\<close>

text \<open>
  (C1) Block headers and domain batches: a decoder accepts exactly the bytes the encoder
  produces for the value it returns. So decoding inverts encoding, every other byte string
  (oversized, wrong tag or version, truncated, trailing bytes, excessive counts) is rejected,
  and no value has two encodings.
\<close>

theorem headers_and_batches_canonical:
  "(decode_consensus_header bs = Ok h \<longleftrightarrow> encode_consensus_header h = Ok bs) \<and>
   (decode_domain_header bs = Ok g \<longleftrightarrow> encode_domain_header g = Ok bs) \<and>
   (decode_domain_batch bs = Ok b \<longleftrightarrow> encode_domain_batch b = Ok bs)"
  by (simp add: consensus_header_exact domain_header_exact domain_batch_exact)

text \<open>
  (C2) Validator sets, votes and quorum certificates: the decoder accepts exactly the encoder's
  output, also through the checks on order, emptiness, power and phase.
\<close>

theorem consensus_objects_canonical:
  "(decode_validator_set bs = Ok s \<longleftrightarrow> encode_validator_set s = Ok bs) \<and>
   (decode_vote bs = Ok v \<longleftrightarrow> encode_vote v = Ok bs) \<and>
   (decode_quorum_certificate bs = Ok q \<longleftrightarrow> encode_quorum_certificate q = Ok bs)"
  by (simp add: validator_set_exact vote_exact quorum_certificate_exact)

text \<open>
  (C3) Domain descriptors and genesis records: a decoder returns a value exactly when its name
  and symbol are valid UTF-8 (what Rust's \<open>String\<close> guarantees of every value the encoder sees)
  and the input is what the encoder produces for it.
\<close>

theorem domain_objects_canonical:
  "(decode_domain_descriptor bs = Ok d \<longleftrightarrow>
      utf8_valid (dd_name d) \<and> utf8_valid (dd_symbol d) \<and> encode_domain_descriptor d = Ok bs) \<and>
   (decode_domain_genesis bs = Ok g \<longleftrightarrow>
      utf8_valid (dg_name g) \<and> utf8_valid (dg_symbol g) \<and> encode_domain_genesis g = Ok bs)"
  using domain_descriptor_exact domain_genesis_exact decode_domain_descriptor_utf8
    decode_domain_genesis_utf8 by blast

text \<open>
  (C4) The encodings of different kinds are disjoint: at most one of the eight decoders accepts
  a given byte string, so a signature or hash over one kind of object is never one over another.
\<close>

theorem canonical_kinds_disjoint:
  "length (filter (\<lambda>b. b) (canonical_decoders_accept bs)) \<le> 1"
proof (rule ccontr)
  assume "\<not> ?thesis"
  then obtain i j where ij: "i < 8" "j < 8" "i \<noteq> j"
    "canonical_decoders_accept bs ! i" "canonical_decoders_accept bs ! j"
    using two_in_filter [of "\<lambda>b. b" "canonical_decoders_accept bs"]
    by (auto simp: canonical_decoders_accept_length)
  then obtain r r' where "canonical_tags ! i @ r = canonical_tags ! j @ r'"
    using canonical_decoders_tag by metis
  then have "i = j"
    using ij by (intro tags_incomparable comparable_append) (auto simp: canonical_tags_def)
  with ij show False by simp
qed

end
