(* ===== verification/Ethereum_Codec.thy ===== *)
theory Ethereum_Codec
  imports Canonical_Codec
begin

text \<open>
  The bounded EIP-2718/EIP-1559 codec of \<open>ethereum.rs\<close>. The RLP primitives come from the package
  \<open>alloy_rlp\<close>: they are the operations of the record \<open>rlp\<close>, an argument of every definition here,
  and \<open>rlp_ok\<close> collects the documented laws the proofs use. A Rust reader \<open>&mut &[u8]\<close> is the
  remaining input, returned beside the value.
\<close>

section \<open>The RLP package\<close>

record rlp =
  rlp_list_header :: "nat \<Rightarrow> bytes"
  rlp_header_decode :: "bytes \<Rightarrow> ((bool \<times> nat) \<times> bytes, string) result"
  rlp_u8 :: "u8 \<Rightarrow> bytes"
  rlp_u8_decode :: "bytes \<Rightarrow> (u8 \<times> bytes, string) result"
  rlp_u64 :: "u64 \<Rightarrow> bytes"
  rlp_u64_decode :: "bytes \<Rightarrow> (u64 \<times> bytes, string) result"
  rlp_u128 :: "u128 \<Rightarrow> bytes"
  rlp_u128_decode :: "bytes \<Rightarrow> (u128 \<times> bytes, string) result"
  rlp_u256 :: "u256 \<Rightarrow> bytes"
  rlp_u256_decode :: "bytes \<Rightarrow> (u256 \<times> bytes, string) result"
  rlp_b256 :: "b256 \<Rightarrow> bytes"
  rlp_b256_decode :: "bytes \<Rightarrow> (b256 \<times> bytes, string) result"
  rlp_address :: "address \<Rightarrow> bytes"
  rlp_address_decode :: "bytes \<Rightarrow> (address \<times> bytes, string) result"
  rlp_bytes :: "bytes \<Rightarrow> bytes"
  rlp_bytes_decode :: "bytes \<Rightarrow> (bytes \<times> bytes, string) result"

section \<open>Transactions\<close>

definition EIP_1559_TX_TYPE :: u8 where
  "EIP_1559_TX_TYPE = 2"

definition tx_validate :: "Eip1559Transaction \<Rightarrow> bool \<Rightarrow> (unit, CodecError) result" where
  "tx_validate t require_signature =
     (let input_limit = (if tx_to t = None then MAX_INITCODE_BYTES else MAX_CALLDATA_BYTES) in
      if tx_chain_id t = 0 then Err (InvalidValue ''EIP-1559 chain id'')
      else if tx_max_priority_fee_per_gas t > tx_max_fee_per_gas t
        then Err (InvalidValue ''EIP-1559 priority fee'')
      else if length (tx_input t) > input_limit
        then Err (LimitExceeded ''EIP-1559 input'' input_limit (length (tx_input t)))
      else if length (tx_access_list t) > MAX_ACCESS_LIST_ADDRESSES
        then Err (LimitExceeded ''EIP-1559 access list'' MAX_ACCESS_LIST_ADDRESSES
          (length (tx_access_list t)))
      else case find (\<lambda>i. length (al_storage_keys i) > MAX_ACCESS_LIST_STORAGE_KEYS)
          (tx_access_list t) of
        Some i \<Rightarrow> Err (LimitExceeded ''EIP-1559 storage keys'' MAX_ACCESS_LIST_STORAGE_KEYS
          (length (al_storage_keys i)))
      | None \<Rightarrow>
          if require_signature \<and> (tx_r t = 0 \<or> tx_s t = 0)
          then Err (InvalidValue ''EIP-1559 signature scalar'')
          else Ok ())"

definition rlp_list :: "rlp \<Rightarrow> bytes \<Rightarrow> bytes" where
  "rlp_list R payload = rlp_list_header R (length payload) @ payload"

definition encode_access_item :: "rlp \<Rightarrow> AccessListItem \<Rightarrow> bytes" where
  "encode_access_item R i =
     rlp_list R (rlp_address R (al_address i)
       @ rlp_list R (concat (map (rlp_b256 R) (al_storage_keys i))))"

definition encode_access_list :: "rlp \<Rightarrow> AccessListItem list \<Rightarrow> bytes" where
  "encode_access_list R access_list =
     rlp_list R (concat (map (encode_access_item R) access_list))"

definition encode_to :: "rlp \<Rightarrow> address option \<Rightarrow> bytes" where
  "encode_to R to = (case to of Some a \<Rightarrow> rlp_address R a | None \<Rightarrow> rlp_bytes R [])"

definition encode_fields :: "rlp \<Rightarrow> Eip1559Transaction \<Rightarrow> bool \<Rightarrow> bytes" where
  "encode_fields R t with_signature =
     rlp_u64 R (tx_chain_id t)
     @ rlp_u64 R (tx_nonce t)
     @ rlp_u128 R (tx_max_priority_fee_per_gas t)
     @ rlp_u128 R (tx_max_fee_per_gas t)
     @ rlp_u64 R (tx_gas_limit t)
     @ encode_to R (tx_to t)
     @ rlp_u256 R (tx_value t)
     @ rlp_bytes R (tx_input t)
     @ encode_access_list R (tx_access_list t)
     @ (if with_signature then rlp_u8 R (of_bool (tx_y_parity t)) @ rlp_u256 R (tx_r t) @ rlp_u256 R (tx_s t)
        else [])"

definition encode_tx_envelope :: "rlp \<Rightarrow> Eip1559Transaction \<Rightarrow> bool \<Rightarrow> (bytes, CodecError) result" where
  "encode_tx_envelope R t with_signature =
     bind_res (tx_validate t with_signature) (\<lambda>_.
     let encoded = EIP_1559_TX_TYPE # rlp_list R (encode_fields R t with_signature) in
     if length encoded > MAX_TRANSACTION_ENVELOPE_BYTES
     then Err (InputTooLarge ''EIP-1559 envelope'' MAX_TRANSACTION_ENVELOPE_BYTES (length encoded))
     else Ok encoded)"

definition encode_eip1559_signing_payload :: "rlp \<Rightarrow> Eip1559Transaction \<Rightarrow> (bytes, CodecError) result" where
  "encode_eip1559_signing_payload R t = encode_tx_envelope R t False"

definition encode_eip1559 :: "rlp \<Rightarrow> Eip1559Transaction \<Rightarrow> (bytes, CodecError) result" where
  "encode_eip1559 R t = encode_tx_envelope R t True"

definition list_payload :: "rlp \<Rightarrow> string \<Rightarrow> bytes \<Rightarrow> (bytes \<times> bytes, CodecError) result" where
  "list_payload R field input =
     bind_res (map_err Rlp (rlp_header_decode R input)) (\<lambda>((is_list, payload_length), input).
     if \<not> is_list then Err (InvalidValue field)
     else if length input < payload_length then Err UnexpectedEof
     else Ok (take payload_length input, drop payload_length input))"

text \<open>
  The bounded loops \<open>while !input.is_empty()\<close>: each round fails once \<open>limit\<close> elements have been
  read and otherwise pushes one more, so the loop ends after at most \<open>limit + 1\<close> rounds;
  \<open>n\<close> is how many more elements it may read.
\<close>

fun read_all :: "'e \<Rightarrow> (bytes \<Rightarrow> ('a \<times> bytes, 'e) result) \<Rightarrow> nat \<Rightarrow> bytes \<Rightarrow> ('a list, 'e) result" where
  "read_all e f n [] = Ok []"
| "read_all e f 0 (b # bs) = Err e"
| "read_all e f (Suc n) (b # bs) =
     bind_res (f (b # bs)) (\<lambda>(x, r). bind_res (read_all e f n r) (\<lambda>xs. Ok (x # xs)))"

definition decode_access_item :: "rlp \<Rightarrow> bytes \<Rightarrow> (AccessListItem \<times> bytes, CodecError) result" where
  "decode_access_item R list =
     bind_res (list_payload R ''EIP-1559 access-list item'' list) (\<lambda>(item, list).
     bind_res (map_err Rlp (rlp_address_decode R item)) (\<lambda>(address, item).
     bind_res (list_payload R ''EIP-1559 storage-key list'' item) (\<lambda>(keys, item).
     if item \<noteq> [] then Err TrailingBytes else
     bind_res (read_all (LimitExceeded ''EIP-1559 storage keys'' MAX_ACCESS_LIST_STORAGE_KEYS
         (MAX_ACCESS_LIST_STORAGE_KEYS + 1))
       (\<lambda>bs. map_err Rlp (rlp_b256_decode R bs)) MAX_ACCESS_LIST_STORAGE_KEYS keys) (\<lambda>storage_keys.
     Ok (\<lparr>al_address = address, al_storage_keys = storage_keys\<rparr>, list)))))"

definition decode_access_list :: "rlp \<Rightarrow> bytes \<Rightarrow> (AccessListItem list \<times> bytes, CodecError) result" where
  "decode_access_list R input =
     bind_res (list_payload R ''EIP-1559 access list'' input) (\<lambda>(list, input).
     bind_res (read_all (LimitExceeded ''EIP-1559 access list'' MAX_ACCESS_LIST_ADDRESSES
         (MAX_ACCESS_LIST_ADDRESSES + 1))
       (decode_access_item R) MAX_ACCESS_LIST_ADDRESSES list) (\<lambda>access_list.
     Ok (access_list, input)))"

definition decode_to :: "rlp \<Rightarrow> bytes \<Rightarrow> (address option \<times> bytes, CodecError) result" where
  "decode_to R buf =
     bind_res (map_err Rlp (rlp_bytes_decode R buf)) (\<lambda>(to_bytes, buf).
     if length to_bytes = 0 then Ok (None, buf)
     else if length to_bytes = 20 then Ok (Some (from_be_bytes to_bytes), buf)
     else Err (InvalidValue ''EIP-1559 destination''))"

definition decode_flag :: "rlp \<Rightarrow> string \<Rightarrow> bytes \<Rightarrow> (bool \<times> bytes, CodecError) result" where
  "decode_flag R field buf =
     bind_res (map_err Rlp (rlp_u8_decode R buf)) (\<lambda>(b, buf).
     if b = 0 then Ok (False, buf)
     else if b = 1 then Ok (True, buf)
     else Err (InvalidValue field))"

definition decode_eip1559 :: "rlp \<Rightarrow> bytes \<Rightarrow> (Eip1559Transaction, CodecError) result" where
  "decode_eip1559 R input =
     (if length input > MAX_TRANSACTION_ENVELOPE_BYTES
      then Err (InputTooLarge ''EIP-1559 envelope'' MAX_TRANSACTION_ENVELOPE_BYTES (length input))
      else case input of [] \<Rightarrow> Err UnexpectedEof
      | transaction_type # body \<Rightarrow>
     if transaction_type \<noteq> EIP_1559_TX_TYPE
     then Err (InvalidValue ''EIP-2718 transaction type'') else
     bind_res (list_payload R ''EIP-1559 payload'' body) (\<lambda>(buf, outer).
     if outer \<noteq> [] then Err TrailingBytes else
     bind_res (map_err Rlp (rlp_u64_decode R buf)) (\<lambda>(chain_id, buf).
     bind_res (map_err Rlp (rlp_u64_decode R buf)) (\<lambda>(nonce, buf).
     bind_res (map_err Rlp (rlp_u128_decode R buf)) (\<lambda>(max_priority_fee_per_gas, buf).
     bind_res (map_err Rlp (rlp_u128_decode R buf)) (\<lambda>(max_fee_per_gas, buf).
     bind_res (map_err Rlp (rlp_u64_decode R buf)) (\<lambda>(gas_limit, buf).
     bind_res (decode_to R buf) (\<lambda>(to, buf).
     bind_res (map_err Rlp (rlp_u256_decode R buf)) (\<lambda>(val, buf).
     bind_res (map_err Rlp (rlp_bytes_decode R buf)) (\<lambda>(inp, buf).
     bind_res (decode_access_list R buf) (\<lambda>(access_list, buf).
     bind_res (decode_flag R ''EIP-1559 y parity'' buf) (\<lambda>(y_parity, buf).
     bind_res (map_err Rlp (rlp_u256_decode R buf)) (\<lambda>(r, buf).
     bind_res (map_err Rlp (rlp_u256_decode R buf)) (\<lambda>(s, buf).
     if buf \<noteq> [] then Err TrailingBytes else
     let t = \<lparr>tx_chain_id = chain_id, tx_nonce = nonce,
         tx_max_priority_fee_per_gas = max_priority_fee_per_gas,
         tx_max_fee_per_gas = max_fee_per_gas, tx_gas_limit = gas_limit, tx_to = to,
         tx_value = val, tx_input = inp, tx_access_list = access_list,
         tx_y_parity = y_parity, tx_r = r, tx_s = s\<rparr> in
     bind_res (tx_validate t True) (\<lambda>_. Ok t)))))))))))))))"

section \<open>Exact readers of the remaining input\<close>

definition exact_reader :: "('a \<Rightarrow> bytes) \<Rightarrow> (bytes \<Rightarrow> ('a \<times> bytes, 'e) result) \<Rightarrow> ('a \<Rightarrow> bool) \<Rightarrow> bool" where
  "exact_reader enc dec valid \<longleftrightarrow>
     (\<forall>bs x r. dec bs = Ok (x, r) \<longleftrightarrow> valid x \<and> bs = enc x @ r)"

text \<open>
  The laws of the package: each scalar decoder accepts exactly the encoding of its result
  (strict RLP: non-minimal forms are errors), a list header is read back when the input holds
  its payload, an address is the RLP string of its twenty bytes, and no encoding is empty.
\<close>

definition rlp_ok :: "rlp \<Rightarrow> bool" where
  "rlp_ok R \<longleftrightarrow>
     (\<forall>bs n r. rlp_header_decode R bs = Ok ((True, n), r) \<longrightarrow> bs = rlp_list_header R n @ r) \<and>
     (\<forall>n r. n \<le> length r \<longrightarrow>
        rlp_header_decode R (rlp_list_header R n @ r) = Ok ((True, n), r)) \<and>
     exact_reader (rlp_u8 R) (rlp_u8_decode R) (\<lambda>_. True) \<and>
     exact_reader (rlp_u64 R) (rlp_u64_decode R) (\<lambda>_. True) \<and>
     exact_reader (rlp_u128 R) (rlp_u128_decode R) (\<lambda>_. True) \<and>
     exact_reader (rlp_u256 R) (rlp_u256_decode R) (\<lambda>_. True) \<and>
     exact_reader (rlp_b256 R) (rlp_b256_decode R) (\<lambda>_. True) \<and>
     exact_reader (rlp_address R) (rlp_address_decode R) (\<lambda>_. True) \<and>
     exact_reader (rlp_bytes R) (rlp_bytes_decode R) (\<lambda>_. True) \<and>
     (\<forall>a. rlp_address R a = rlp_bytes R (to_be_bytes a)) \<and>
     (\<forall>n. rlp_list_header R n \<noteq> []) \<and> (\<forall>x. rlp_b256 R x \<noteq> [])"

lemma exact_readerD: "exact_reader enc dec valid \<Longrightarrow> dec bs = Ok (x, r) \<longleftrightarrow> valid x \<and> bs = enc x @ r"
  by (simp add: exact_reader_def)

lemma exact_reader_bind:
  assumes "exact_reader enc dec valid"
  shows "bind_res (dec bs) (case_prod f) = Ok v \<longleftrightarrow>
    (\<exists>x r. valid x \<and> bs = enc x @ r \<and> f x r = Ok v)"
  using assms by (auto simp: exact_readerD [OF assms] split_beta)

lemma exact_reader_map_err:
  "exact_reader enc dec valid \<Longrightarrow> exact_reader enc (\<lambda>bs. map_err g (dec bs)) valid"
  by (simp add: exact_reader_def)

lemma read_all_exact:
  assumes "exact_reader enc f valid" and "\<And>x. enc x \<noteq> []"
  shows "read_all e f n bs = Ok xs \<longleftrightarrow>
    length xs \<le> n \<and> (\<forall>x \<in> set xs. valid x) \<and> bs = concat (map enc xs)"
proof (induction n arbitrary: bs xs)
  case 0
  show ?case using assms(2) by (cases bs; cases xs) auto
next
  case (Suc n)
  show ?case
  proof (cases bs)
    case Nil
    then show ?thesis using assms(2) by (cases xs) auto
  next
    case (Cons b bs')
    have "read_all e f (Suc n) bs = Ok xs \<longleftrightarrow>
      (\<exists>x r. valid x \<and> bs = enc x @ r \<and> (\<exists>ys. read_all e f n r = Ok ys \<and> xs = x # ys))"
      unfolding Cons read_all.simps exact_reader_bind [OF assms(1)] by auto
    also have "\<dots> \<longleftrightarrow> length xs \<le> Suc n \<and> (\<forall>x \<in> set xs. valid x) \<and> bs = concat (map enc xs)"
      using Cons by (cases xs) (auto simp: Suc.IH)
    finally show ?thesis .
  qed
qed

lemma rlp_okD:
  assumes "rlp_ok R"
  shows "rlp_header_decode R bs = Ok ((True, n), r) \<Longrightarrow> bs = rlp_list_header R n @ r"
    and "n \<le> length r \<Longrightarrow> rlp_header_decode R (rlp_list_header R n @ r) = Ok ((True, n), r)"
    and "rlp_address R a = rlp_bytes R (to_be_bytes a)"
    and "rlp_list_header R n \<noteq> []" and "rlp_b256 R x \<noteq> []"
  using assms unfolding rlp_ok_def by blast+

lemma list_payload_eq:
  "list_payload R field bs = Ok (p, r) \<longleftrightarrow>
     (\<exists>n s. rlp_header_decode R bs = Ok ((True, n), s) \<and> n \<le> length s \<and>
        p = take n s \<and> r = drop n s)"
proof (cases "rlp_header_decode R bs")
  case (Ok h)
  then show ?thesis
    by (cases h; cases "fst h") (auto simp: list_payload_def split: if_splits)
qed (auto simp: list_payload_def)

lemma list_payload_exact:
  assumes "rlp_ok R"
  shows "exact_reader (rlp_list R) (list_payload R field) (\<lambda>_. True)"
proof -
  have "list_payload R field bs = Ok (p, r) \<longleftrightarrow> bs = rlp_list R p @ r" for bs p r
  proof
    assume "list_payload R field bs = Ok (p, r)"
    then show "bs = rlp_list R p @ r"
      unfolding list_payload_eq rlp_list_def using rlp_okD(1) [OF assms] by fastforce
  next
    assume bs: "bs = rlp_list R p @ r"
    have "rlp_header_decode R bs = Ok ((True, length p), p @ r)"
      unfolding bs rlp_list_def append_assoc using rlp_okD(2) [OF assms] by simp
    then show "list_payload R field bs = Ok (p, r)"
      unfolding list_payload_eq by simp
  qed
  then show ?thesis by (simp add: exact_reader_def)
qed

lemma rlp_readers:
  assumes "rlp_ok R"
  shows "exact_reader (rlp_u8 R) (\<lambda>bs. map_err Rlp (rlp_u8_decode R bs)) (\<lambda>_. True)"
    and "exact_reader (rlp_u64 R) (\<lambda>bs. map_err Rlp (rlp_u64_decode R bs)) (\<lambda>_. True)"
    and "exact_reader (rlp_u128 R) (\<lambda>bs. map_err Rlp (rlp_u128_decode R bs)) (\<lambda>_. True)"
    and "exact_reader (rlp_u256 R) (\<lambda>bs. map_err Rlp (rlp_u256_decode R bs)) (\<lambda>_. True)"
    and "exact_reader (rlp_b256 R) (\<lambda>bs. map_err Rlp (rlp_b256_decode R bs)) (\<lambda>_. True)"
    and "exact_reader (rlp_address R) (\<lambda>bs. map_err Rlp (rlp_address_decode R bs)) (\<lambda>_. True)"
    and "exact_reader (rlp_bytes R) (\<lambda>bs. map_err Rlp (rlp_bytes_decode R bs)) (\<lambda>_. True)"
  using assms unfolding rlp_ok_def by (simp_all add: exact_reader_map_err)

lemma rlp_list_nonempty: "rlp_ok R \<Longrightarrow> rlp_list R p \<noteq> []"
  using rlp_okD(4) by (simp add: rlp_list_def)

lemma read_all_bind:
  assumes "exact_reader enc f valid" and "\<And>x. enc x \<noteq> []"
  shows "bind_res (read_all e f n bs) g = Ok v \<longleftrightarrow>
    (\<exists>xs. length xs \<le> n \<and> (\<forall>x \<in> set xs. valid x) \<and> bs = concat (map enc xs) \<and> g xs = Ok v)"
  by (auto simp: read_all_exact [OF assms])

definition access_item_ok :: "AccessListItem \<Rightarrow> bool" where
  "access_item_ok i \<longleftrightarrow> length (al_storage_keys i) \<le> MAX_ACCESS_LIST_STORAGE_KEYS"

lemma exact_reader_read:
  assumes "exact_reader enc dec valid" and "valid x"
  shows "dec (enc x @ r) = Ok (x, r)" and "dec (enc x) = Ok (x, [])"
  using assms by (simp_all add: exact_readerD [OF assms(1)])

lemma exact_readerI:
  assumes "\<And>bs x r. dec bs = Ok (x, r) \<Longrightarrow> valid x \<and> bs = enc x @ r"
    and "\<And>x r. valid x \<Longrightarrow> dec (enc x @ r) = Ok (x, r)"
  shows "exact_reader enc dec valid"
  using assms unfolding exact_reader_def by blast

lemma rlp_readback:
  assumes "rlp_ok R"
  shows "rlp_u8_decode R (rlp_u8 R v1 @ r) = Ok (v1, r)"
    and "rlp_u64_decode R (rlp_u64 R v2 @ r) = Ok (v2, r)"
    and "rlp_u128_decode R (rlp_u128 R v3 @ r) = Ok (v3, r)"
    and "rlp_u256_decode R (rlp_u256 R v4 @ r) = Ok (v4, r)"
    and "rlp_u256_decode R (rlp_u256 R v4) = Ok (v4, [])"
    and "rlp_b256_decode R (rlp_b256 R v5 @ r) = Ok (v5, r)"
    and "rlp_address_decode R (rlp_address R v6 @ r) = Ok (v6, r)"
    and "rlp_bytes_decode R (rlp_bytes R v7 @ r) = Ok (v7, r)"
    and "rlp_bytes_decode R (rlp_bytes R v7) = Ok (v7, [])"
    and "list_payload R field (rlp_list R v7 @ r) = Ok (v7, r)"
    and "list_payload R field (rlp_list R v7) = Ok (v7, [])"
  using assms list_payload_exact [OF assms] unfolding rlp_ok_def exact_reader_def by simp_all

lemma decode_access_item_exact:
  assumes "rlp_ok R"
  shows "exact_reader (encode_access_item R) (decode_access_item R) access_item_ok"
proof (rule exact_readerI)
  fix bs x r assume "decode_access_item R bs = Ok (x, r)"
  then show "access_item_ok x \<and> bs = encode_access_item R x @ r"
    unfolding decode_access_item_def exact_reader_bind [OF list_payload_exact [OF assms]]
      exact_reader_bind [OF rlp_readers(6) [OF assms]]
      read_all_bind [OF rlp_readers(5) [OF assms] rlp_okD(5) [OF assms]] if_Err_exact
    by (auto simp: encode_access_item_def access_item_ok_def)
next
  fix x r assume "access_item_ok x"
  then have "read_all e (\<lambda>bs. map_err Rlp (rlp_b256_decode R bs)) MAX_ACCESS_LIST_STORAGE_KEYS
      (concat (map (rlp_b256 R) (al_storage_keys x))) = Ok (al_storage_keys x)" for e
    by (simp add: access_item_ok_def
        read_all_exact [OF rlp_readers(5) [OF assms] rlp_okD(5) [OF assms]])
  then show "decode_access_item R (encode_access_item R x @ r) = Ok (x, r)"
    by (simp add: decode_access_item_def encode_access_item_def rlp_readback [OF assms])
qed

lemma decode_access_list_exact:
  assumes "rlp_ok R"
  shows "exact_reader (encode_access_list R) (decode_access_list R)
    (\<lambda>xs. length xs \<le> MAX_ACCESS_LIST_ADDRESSES \<and> (\<forall>i \<in> set xs. access_item_ok i))"
proof -
  have ne: "encode_access_item R i \<noteq> []" for i
    using rlp_list_nonempty [OF assms] by (simp add: encode_access_item_def)
  note items = read_all_exact [OF decode_access_item_exact [OF assms] ne]
  show ?thesis
  proof (rule exact_readerI)
    fix bs xs r assume "decode_access_list R bs = Ok (xs, r)"
    then show "(length xs \<le> MAX_ACCESS_LIST_ADDRESSES \<and> (\<forall>i \<in> set xs. access_item_ok i)) \<and>
        bs = encode_access_list R xs @ r"
      unfolding decode_access_list_def exact_reader_bind [OF list_payload_exact [OF assms]]
      by (auto simp: encode_access_list_def items)
  next
    fix xs r assume "length xs \<le> MAX_ACCESS_LIST_ADDRESSES \<and> (\<forall>i \<in> set xs. access_item_ok i)"
    then show "decode_access_list R (encode_access_list R xs @ r) = Ok (xs, r)"
      by (simp add: decode_access_list_def encode_access_list_def rlp_readback [OF assms] items)
  qed
qed

lemma decode_to_exact:
  assumes "rlp_ok R"
  shows "exact_reader (encode_to R) (decode_to R) (\<lambda>_. True)"
proof (rule exact_readerI)
  fix bs x r assume "decode_to R bs = Ok (x, r)"
  then show "True \<and> bs = encode_to R x @ r"
    unfolding decode_to_def exact_reader_bind [OF rlp_readers(7) [OF assms]]
    by (auto simp: encode_to_def rlp_okD(3) [OF assms] split: if_splits)
next
  fix x r
  show "decode_to R (encode_to R x @ r) = Ok (x, r)"
    by (cases x) (simp_all add: decode_to_def encode_to_def rlp_okD(3) [OF assms]
        rlp_readback [OF assms] del: length_0_conv)
qed

lemma decode_flag_exact:
  assumes "rlp_ok R"
  shows "exact_reader (\<lambda>b. rlp_u8 R (of_bool b)) (decode_flag R field) (\<lambda>_. True)"
proof (rule exact_readerI)
  fix bs x r assume "decode_flag R field bs = Ok (x, r)"
  then show "True \<and> bs = rlp_u8 R (of_bool x) @ r"
    unfolding decode_flag_def exact_reader_bind [OF rlp_readers(1) [OF assms]]
    by (auto split: if_splits)
next
  fix x r
  show "decode_flag R field (rlp_u8 R (of_bool x) @ r) = Ok (x, r)"
    by (simp add: decode_flag_def rlp_readback [OF assms])
qed

lemma tx_validate_access_list:
  assumes "tx_validate t sig = Ok ()"
  shows "length (tx_access_list t) \<le> MAX_ACCESS_LIST_ADDRESSES \<and>
    (\<forall>i \<in> set (tx_access_list t). access_item_ok i)"
  using assms
  by (auto simp: tx_validate_def access_item_ok_def Let_def find_None_iff not_less
      split: if_splits option.splits)

lemma decode_eip1559_sound:
  assumes "rlp_ok R" and "decode_eip1559 R bs = Ok t"
  shows "encode_eip1559 R t = Ok bs"
proof -
  have body: "(case bs of [] \<Rightarrow> Err UnexpectedEof
      | b # body \<Rightarrow> if b \<noteq> EIP_1559_TX_TYPE then Err e else f body) = Ok t \<longleftrightarrow>
      (\<exists>body. bs = EIP_1559_TX_TYPE # body \<and> f body = Ok t)" for e f
    by (auto split: list.splits)
  show ?thesis
    using assms(2)
    unfolding decode_eip1559_def if_Err_exact body
      exact_reader_bind [OF list_payload_exact [OF assms(1)]]
      exact_reader_bind [OF rlp_readers(2) [OF assms(1)]]
      exact_reader_bind [OF rlp_readers(3) [OF assms(1)]]
      exact_reader_bind [OF rlp_readers(4) [OF assms(1)]]
      exact_reader_bind [OF rlp_readers(7) [OF assms(1)]]
      exact_reader_bind [OF decode_to_exact [OF assms(1)]]
      exact_reader_bind [OF decode_flag_exact [OF assms(1)]]
      exact_reader_bind [OF decode_access_list_exact [OF assms(1)]]
    by (auto simp: encode_eip1559_def encode_tx_envelope_def encode_fields_def Let_def)
qed

lemma decode_eip1559_complete:
  assumes "rlp_ok R" and "encode_eip1559 R t = Ok bs"
  shows "decode_eip1559 R bs = Ok t"
proof -
  have valid: "tx_validate t True = Ok ()"
    and len: "length bs \<le> MAX_TRANSACTION_ENVELOPE_BYTES"
    and bs: "bs = EIP_1559_TX_TYPE # rlp_list R (encode_fields R t True)"
    using assms(2) by (auto simp: encode_eip1559_def encode_tx_envelope_def Let_def split: if_splits)
  have "\<not> length bs > MAX_TRANSACTION_ENVELOPE_BYTES" using len by simp
  then show ?thesis
    using valid tx_validate_access_list [OF valid]
    by (cases t) (simp add: decode_eip1559_def bs encode_fields_def rlp_readback [OF assms(1)] Let_def
        exact_reader_read(1) [OF decode_to_exact [OF assms(1)]]
        exact_reader_read(1) [OF decode_flag_exact [OF assms(1)]]
        exact_reader_read(1) [OF decode_access_list_exact [OF assms(1)]])
qed

lemma eip1559_exact:
  "rlp_ok R \<Longrightarrow> decode_eip1559 R bs = Ok t \<longleftrightarrow> encode_eip1559 R t = Ok bs"
  using decode_eip1559_sound decode_eip1559_complete by blast

section \<open>Receipts\<close>

definition encode_log :: "rlp \<Rightarrow> Log \<Rightarrow> (bytes, CodecError) result" where
  "encode_log R l =
     (if length (log_topics l) > 4
      then Err (LimitExceeded ''log topics'' 4 (length (log_topics l)))
      else if length (log_data l) > MAX_CALLDATA_BYTES * 2
      then Err (LimitExceeded ''log data'' (MAX_CALLDATA_BYTES * 2) (length (log_data l)))
      else Ok (rlp_list R
        (rlp_address R (log_address l)
         @ rlp_list R (concat (map (rlp_b256 R) (log_topics l)))
         @ rlp_bytes R (log_data l))))"

definition encode_logs :: "rlp \<Rightarrow> Log list \<Rightarrow> (bytes, CodecError) result" where
  "encode_logs R logs =
     (if length logs > 1024 then Err (LimitExceeded ''receipt logs'' 1024 (length logs))
      else bind_res (enc_many (encode_log R) logs) (\<lambda>encoded_logs. Ok (rlp_list R encoded_logs)))"

definition encode_eip1559_receipt :: "rlp \<Rightarrow> Receipt \<Rightarrow> (bytes, CodecError) result" where
  "encode_eip1559_receipt R receipt =
     bind_res (encode_logs R (rc_logs receipt)) (\<lambda>logs.
     let payload = rlp_u8 R (of_bool (rc_status receipt))
           @ rlp_u64 R (rc_cumulative_gas_used receipt)
           @ rlp_bytes R (to_be_bytes (rc_logs_bloom receipt))
           @ logs;
         encoded = EIP_1559_TX_TYPE # rlp_list R payload in
     if length encoded > MAX_CANONICAL_OBJECT_BYTES
     then Err (InputTooLarge ''EIP-1559 receipt'' MAX_CANONICAL_OBJECT_BYTES (length encoded))
     else Ok encoded)"

definition decode_log :: "rlp \<Rightarrow> bytes \<Rightarrow> (Log \<times> bytes, CodecError) result" where
  "decode_log R logs_payload =
     bind_res (list_payload R ''receipt log'' logs_payload) (\<lambda>(log, logs_payload).
     bind_res (map_err Rlp (rlp_address_decode R log)) (\<lambda>(address, log).
     bind_res (list_payload R ''log topics'' log) (\<lambda>(topics_payload, log).
     bind_res (read_all (LimitExceeded ''log topics'' 4 5)
       (\<lambda>bs. map_err Rlp (rlp_b256_decode R bs)) 4 topics_payload) (\<lambda>topics.
     bind_res (map_err Rlp (rlp_bytes_decode R log)) (\<lambda>(data, log).
     if length data > MAX_CALLDATA_BYTES * 2
     then Err (LimitExceeded ''log data'' (MAX_CALLDATA_BYTES * 2) (length data)) else
     if log \<noteq> [] then Err TrailingBytes else
     Ok (\<lparr>log_address = address, log_topics = topics, log_data = data\<rparr>, logs_payload))))))"

definition decode_logs :: "rlp \<Rightarrow> bytes \<Rightarrow> (Log list \<times> bytes, CodecError) result" where
  "decode_logs R input =
     bind_res (list_payload R ''receipt logs'' input) (\<lambda>(logs_payload, input).
     bind_res (read_all (LimitExceeded ''receipt logs'' 1024 1025) (decode_log R) 1024 logs_payload)
       (\<lambda>logs. Ok (logs, input)))"

definition decode_receipt_bloom :: "rlp \<Rightarrow> bytes \<Rightarrow> (bloom \<times> bytes, CodecError) result" where
  "decode_receipt_bloom R buf =
     bind_res (map_err Rlp (rlp_bytes_decode R buf)) (\<lambda>(bloom_bytes, buf).
     if length bloom_bytes \<noteq> 256 then Err (InvalidValue ''receipt logs bloom'')
     else Ok (from_be_bytes bloom_bytes, buf))"

definition decode_eip1559_receipt :: "rlp \<Rightarrow> bytes \<Rightarrow> (Receipt, CodecError) result" where
  "decode_eip1559_receipt R input =
     (if length input > MAX_CANONICAL_OBJECT_BYTES
      then Err (InputTooLarge ''EIP-1559 receipt'' MAX_CANONICAL_OBJECT_BYTES (length input))
      else case input of [] \<Rightarrow> Err UnexpectedEof
      | receipt_type # body \<Rightarrow>
     if receipt_type \<noteq> EIP_1559_TX_TYPE
     then Err (InvalidValue ''EIP-2718 receipt type'') else
     bind_res (list_payload R ''EIP-1559 receipt payload'' body) (\<lambda>(buf, outer).
     if outer \<noteq> [] then Err TrailingBytes else
     bind_res (decode_flag R ''receipt status'' buf) (\<lambda>(status, buf).
     bind_res (map_err Rlp (rlp_u64_decode R buf)) (\<lambda>(cumulative_gas_used, buf).
     bind_res (decode_receipt_bloom R buf) (\<lambda>(logs_bloom, buf).
     bind_res (decode_logs R buf) (\<lambda>(logs, buf).
     if buf \<noteq> [] then Err TrailingBytes else
     Ok \<lparr>rc_status = status, rc_cumulative_gas_used = cumulative_gas_used,
         rc_logs_bloom = logs_bloom, rc_logs = logs\<rparr>))))))"

definition log_ok :: "Log \<Rightarrow> bool" where
  "log_ok l \<longleftrightarrow> length (log_topics l) \<le> 4 \<and> length (log_data l) \<le> MAX_CALLDATA_BYTES * 2"

definition log_layout :: "rlp \<Rightarrow> Log \<Rightarrow> bytes" where
  "log_layout R l = rlp_list R
     (rlp_address R (log_address l)
      @ rlp_list R (concat (map (rlp_b256 R) (log_topics l)))
      @ rlp_bytes R (log_data l))"

lemma encode_log_Ok: "encode_log R l = Ok b \<longleftrightarrow> log_ok l \<and> b = log_layout R l"
  by (auto simp: encode_log_def log_ok_def log_layout_def)

lemma decode_log_exact:
  assumes "rlp_ok R"
  shows "exact_reader (log_layout R) (decode_log R) log_ok"
proof (rule exact_readerI)
  fix bs x r assume "decode_log R bs = Ok (x, r)"
  then show "log_ok x \<and> bs = log_layout R x @ r"
    unfolding decode_log_def exact_reader_bind [OF list_payload_exact [OF assms]]
      exact_reader_bind [OF rlp_readers(6) [OF assms]]
      exact_reader_bind [OF rlp_readers(7) [OF assms]]
      read_all_bind [OF rlp_readers(5) [OF assms] rlp_okD(5) [OF assms]] if_Err_exact
    by (auto simp: log_layout_def log_ok_def)
next
  fix x r assume ok: "log_ok x"
  then have "read_all e (\<lambda>bs. map_err Rlp (rlp_b256_decode R bs)) 4
      (concat (map (rlp_b256 R) (log_topics x))) = Ok (log_topics x)" for e
    by (simp add: log_ok_def read_all_exact [OF rlp_readers(5) [OF assms] rlp_okD(5) [OF assms]])
  with ok show "decode_log R (log_layout R x @ r) = Ok (x, r)"
    by (simp add: decode_log_def log_layout_def rlp_readback [OF assms] log_ok_def)
qed

definition logs_layout :: "rlp \<Rightarrow> Log list \<Rightarrow> bytes" where
  "logs_layout R logs = rlp_list R (concat (map (log_layout R) logs))"

definition logs_ok :: "Log list \<Rightarrow> bool" where
  "logs_ok logs \<longleftrightarrow> length logs \<le> 1024 \<and> (\<forall>l \<in> set logs. log_ok l)"

lemma encode_logs_Ok: "encode_logs R logs = Ok b \<longleftrightarrow> logs_ok logs \<and> b = logs_layout R logs"
  unfolding encode_logs_def if_Err_exact bind_enc_many_exact [OF encode_log_Ok]
  by (auto simp: logs_layout_def logs_ok_def)

lemma decode_logs_exact:
  assumes "rlp_ok R"
  shows "exact_reader (logs_layout R) (decode_logs R) logs_ok"
proof -
  have ne: "log_layout R l \<noteq> []" for l
    using rlp_list_nonempty [OF assms] by (simp add: log_layout_def)
  note logs = read_all_exact [OF decode_log_exact [OF assms] ne]
  show ?thesis
  proof (rule exact_readerI)
    fix bs xs r assume "decode_logs R bs = Ok (xs, r)"
    then show "logs_ok xs \<and> bs = logs_layout R xs @ r"
      unfolding decode_logs_def exact_reader_bind [OF list_payload_exact [OF assms]]
      by (auto simp: logs_layout_def logs_ok_def logs)
  next
    fix xs r assume "logs_ok xs"
    then show "decode_logs R (logs_layout R xs @ r) = Ok (xs, r)"
      by (simp add: decode_logs_def logs_layout_def logs_ok_def rlp_readback [OF assms] logs)
  qed
qed

lemma decode_receipt_bloom_exact:
  assumes "rlp_ok R"
  shows "exact_reader (\<lambda>b. rlp_bytes R (to_be_bytes b)) (decode_receipt_bloom R) (\<lambda>_. True)"
proof (rule exact_readerI)
  fix bs x r assume "decode_receipt_bloom R bs = Ok (x, r)"
  then show "True \<and> bs = rlp_bytes R (to_be_bytes x) @ r"
    unfolding decode_receipt_bloom_def exact_reader_bind [OF rlp_readers(7) [OF assms]]
    by (auto split: if_splits)
qed (simp add: decode_receipt_bloom_def rlp_readback [OF assms])

lemma decode_receipt_sound:
  assumes "rlp_ok R" and "decode_eip1559_receipt R bs = Ok t"
  shows "encode_eip1559_receipt R t = Ok bs"
proof -
  have body: "(case bs of [] \<Rightarrow> Err UnexpectedEof
      | b # body \<Rightarrow> if b \<noteq> EIP_1559_TX_TYPE then Err e else f body) = Ok t \<longleftrightarrow>
      (\<exists>body. bs = EIP_1559_TX_TYPE # body \<and> f body = Ok t)" for e f
    by (auto split: list.splits)
  show ?thesis
    using assms(2)
    unfolding decode_eip1559_receipt_def if_Err_exact body
      exact_reader_bind [OF list_payload_exact [OF assms(1)]]
      exact_reader_bind [OF rlp_readers(2) [OF assms(1)]]
      exact_reader_bind [OF decode_receipt_bloom_exact [OF assms(1)]]
      exact_reader_bind [OF decode_flag_exact [OF assms(1)]]
      exact_reader_bind [OF decode_logs_exact [OF assms(1)]]
    by (auto simp: encode_eip1559_receipt_def encode_logs_Ok [THEN iffD2] Let_def)
qed

lemma decode_receipt_complete:
  assumes "rlp_ok R" and "encode_eip1559_receipt R t = Ok bs"
  shows "decode_eip1559_receipt R bs = Ok t"
proof -
  have valid: "logs_ok (rc_logs t)" and len: "\<not> length bs > MAX_CANONICAL_OBJECT_BYTES"
    and bs: "bs = EIP_1559_TX_TYPE # rlp_list R (rlp_u8 R (of_bool (rc_status t))
      @ rlp_u64 R (rc_cumulative_gas_used t) @ rlp_bytes R (to_be_bytes (rc_logs_bloom t))
      @ logs_layout R (rc_logs t))"
    using assms(2)
    by (auto simp: encode_eip1559_receipt_def encode_logs_Ok Let_def split: if_splits)
  show ?thesis
    using valid len
    by (cases t) (simp add: decode_eip1559_receipt_def bs rlp_readback [OF assms(1)]
        exact_reader_read(1) [OF decode_flag_exact [OF assms(1)]]
        exact_reader_read(1) [OF decode_receipt_bloom_exact [OF assms(1)]]
        exact_reader_read(2) [OF decode_logs_exact [OF assms(1)]])
qed

section \<open>A concrete package\<close>

text \<open>
  A small self-delimiting format that obeys the laws: lengths in unary, scalars big-endian at
  their width. It serves to evaluate the codec on concrete inputs.
\<close>

fun unary_read :: "bytes \<Rightarrow> (nat \<times> bytes, string) result" where
  "unary_read [] = Err ''input too short''"
| "unary_read (b # bs) =
     (if b = 0 then Ok (0, bs)
      else if b = 1 then bind_res (unary_read bs) (\<lambda>(n, r). Ok (Suc n, r))
      else Err ''non-canonical size'')"

definition unary :: "nat \<Rightarrow> bytes" where
  "unary n = replicate n 1 @ [0]"

definition word_read :: "bytes \<Rightarrow> ('a::len word \<times> bytes, string) result" where
  "word_read bs =
     (if length bs < LENGTH('a) div 8 then Err ''input too short''
      else Ok (from_be_bytes (take (LENGTH('a) div 8) bs), drop (LENGTH('a) div 8) bs))"

definition sized :: "bytes \<Rightarrow> bytes" where
  "sized v = unary (length v) @ v"

definition sized_read :: "bytes \<Rightarrow> (bytes \<times> bytes, string) result" where
  "sized_read bs = bind_res (unary_read bs) (\<lambda>(n, r).
     if length r < n then Err ''input too short'' else Ok (take n r, drop n r))"

definition address_read :: "bytes \<Rightarrow> (address \<times> bytes, string) result" where
  "address_read bs = bind_res (sized_read bs) (\<lambda>(v, r).
     if length v \<noteq> 20 then Err ''unexpected length'' else Ok (from_be_bytes v, r))"

definition sample_rlp :: rlp where
  "sample_rlp = \<lparr>
     rlp_list_header = unary,
     rlp_header_decode = (\<lambda>bs. bind_res (unary_read bs) (\<lambda>(n, r). Ok ((True, n), r))),
     rlp_u8 = to_be_bytes, rlp_u8_decode = word_read,
     rlp_u64 = to_be_bytes, rlp_u64_decode = word_read,
     rlp_u128 = to_be_bytes, rlp_u128_decode = word_read,
     rlp_u256 = to_be_bytes, rlp_u256_decode = word_read,
     rlp_b256 = to_be_bytes, rlp_b256_decode = word_read,
     rlp_address = (\<lambda>a. sized (to_be_bytes a)), rlp_address_decode = address_read,
     rlp_bytes = sized, rlp_bytes_decode = sized_read\<rparr>"

lemma unary_exact: "exact_reader unary unary_read (\<lambda>_. True)"
proof (rule exact_readerI)
  show "unary_read bs = Ok (n, r) \<Longrightarrow> True \<and> bs = unary n @ r" for bs n r
    by (induction bs arbitrary: n) (auto simp: unary_def split: if_splits)
  show "unary_read (unary n @ r) = Ok (n, r)" for n r
    by (induction n) (auto simp: unary_def)
qed

lemma word_read_exact:
  assumes "8 dvd LENGTH('a::len)"
  shows "exact_reader to_be_bytes (word_read :: bytes \<Rightarrow> ('a word \<times> bytes, string) result) (\<lambda>_. True)"
proof (rule exact_readerI)
  show "word_read bs = Ok (x, r) \<Longrightarrow> True \<and> bs = to_be_bytes x @ r" for bs r and x :: "'a word"
    using assms by (auto simp: word_read_def split: if_splits)
  show "word_read (to_be_bytes x @ r) = Ok (x, r)" for r and x :: "'a word"
    using assms by (simp add: word_read_def)
qed

lemma sized_exact: "exact_reader sized sized_read (\<lambda>_. True)"
proof (rule exact_readerI)
  show "sized_read bs = Ok (x, r) \<Longrightarrow> True \<and> bs = sized x @ r" for bs x r
    unfolding sized_read_def exact_reader_bind [OF unary_exact]
    by (auto simp: sized_def split: if_splits)
  show "sized_read (sized x @ r) = Ok (x, r)" for x r
    by (simp add: sized_read_def sized_def exact_reader_read [OF unary_exact])
qed

lemma address_read_exact: "exact_reader (\<lambda>a. sized (to_be_bytes a)) address_read (\<lambda>_. True)"
proof (rule exact_readerI)
  show "address_read bs = Ok (x, r) \<Longrightarrow> True \<and> bs = sized (to_be_bytes x) @ r" for bs x r
    unfolding address_read_def exact_reader_bind [OF sized_exact] by (auto split: if_splits)
  show "address_read (sized (to_be_bytes x) @ r) = Ok (x, r)" for x r
    by (simp add: address_read_def exact_reader_read [OF sized_exact])
qed

lemma to_be_bytes_nonempty: "(to_be_bytes (x :: b256)) \<noteq> []"
  using length_to_be_bytes [of x] by force

lemma sample_rlp_ok: "rlp_ok sample_rlp"
  unfolding rlp_ok_def
  by (simp add: sample_rlp_def unary_exact word_read_exact sized_exact address_read_exact
      exact_readerD [OF unary_exact] exact_reader_read [OF unary_exact] to_be_bytes_nonempty
      unary_def [of _])

definition sample_tx :: Eip1559Transaction where
  "sample_tx = \<lparr>tx_chain_id = 1, tx_nonce = 0, tx_max_priority_fee_per_gas = 1,
     tx_max_fee_per_gas = 2, tx_gas_limit = 21000, tx_to = Some 7, tx_value = 5, tx_input = [],
     tx_access_list = [\<lparr>al_address = 9, al_storage_keys = [3]\<rparr>], tx_y_parity = True,
     tx_r = 1, tx_s = 1\<rparr>"

definition sample_receipt :: Receipt where
  "sample_receipt = \<lparr>rc_status = True, rc_cumulative_gas_used = 21000, rc_logs_bloom = 0,
     rc_logs = [\<lparr>log_address = 9, log_topics = [1, 2], log_data = [0xFF]\<rparr>]\<rparr>"

lemma is_ok_iff: "is_ok r \<longleftrightarrow> (\<exists>x. r = Ok x)"
  by (cases r) auto

lemma sample_tx_encodes: "is_ok (encode_eip1559 sample_rlp sample_tx)"
  by (simp add: encode_eip1559_def encode_tx_envelope_def tx_validate_def sample_tx_def
      sample_rlp_def encode_fields_def encode_to_def encode_access_list_def
      encode_access_item_def rlp_list_def sized_def unary_def codec_limits
      MAX_INITCODE_BYTES_def MAX_CALLDATA_BYTES_def MAX_ACCESS_LIST_ADDRESSES_def
      MAX_ACCESS_LIST_STORAGE_KEYS_def)

lemma sample_receipt_encodes: "is_ok (encode_eip1559_receipt sample_rlp sample_receipt)"
  by (simp add: encode_eip1559_receipt_def encode_logs_def encode_log_def sample_receipt_def
      sample_rlp_def rlp_list_def sized_def unary_def codec_limits MAX_CALLDATA_BYTES_def)

section \<open>Properties\<close>

text \<open>
  (C5) Type-2 transactions and receipts: over a strict RLP package, a decoder accepts exactly
  the bytes the encoder produces for the value it returns, under all resource limits. So a
  transaction or receipt has one envelope, and the pool, blocks and peers agree on its hash.
\<close>

theorem ethereum_envelopes_canonical:
  assumes "rlp_ok R"
  shows "(decode_eip1559 R bs = Ok t \<longleftrightarrow> encode_eip1559 R t = Ok bs) \<and>
    (decode_eip1559_receipt R bs = Ok r \<longleftrightarrow> encode_eip1559_receipt R r = Ok bs)"
  using assms eip1559_exact decode_receipt_sound decode_receipt_complete by blast

theorem ethereum_envelopes_canonical_witness:
  "rlp_ok sample_rlp \<and>
   (\<exists>bs. encode_eip1559 sample_rlp sample_tx = Ok bs \<and> decode_eip1559 sample_rlp bs = Ok sample_tx) \<and>
   (\<exists>bs. encode_eip1559_receipt sample_rlp sample_receipt = Ok bs \<and>
      decode_eip1559_receipt sample_rlp bs = Ok sample_receipt)"
proof -
  obtain b c where "encode_eip1559 sample_rlp sample_tx = Ok b"
    "encode_eip1559_receipt sample_rlp sample_receipt = Ok c"
    using sample_tx_encodes sample_receipt_encodes by (auto simp: is_ok_iff)
  then show ?thesis
    using sample_rlp_ok ethereum_envelopes_canonical [OF sample_rlp_ok, of b sample_tx]
      ethereum_envelopes_canonical [OF sample_rlp_ok, of c _ sample_receipt] by blast
qed

end
