(* ===== verification/Crypto.thy ===== *)
theory Crypto
  imports Canonical_Objects Ethereum_Codec
begin

text \<open>
  \<open>arbor-crypto\<close>: identifiers and hashes of canonical objects, sender recovery, vote signatures
  and the weighted quorum rule. Keccak-256 (\<open>alloy\<close>) and the secp256k1 operations (\<open>k256\<close>,
  \<open>alloy\<close>) are the fields of the record \<open>crypto_ops\<close>, an argument of the definitions.
\<close>

section \<open>Errors and primitives\<close>

datatype CryptoError =
    Codec CodecError
  | InvalidSecretKey
  | InvalidPublicKey
  | InvalidSignature
  | ValidatorMismatch
  | UnknownValidator
  | InsufficientQuorum
  | VotingPowerOverflow

text \<open>
  \<open>co_from_sec1\<close>: whether the 33 bytes parse as a verifying key; \<open>co_sig_parse\<close> and
  \<open>co_sig_high_s\<close>: whether the 64 bytes parse as a signature and whether \<open>normalize_s\<close> would
  change it; \<open>co_verify\<close>: \<open>verify_prehash\<close>; \<open>co_secret_ok\<close>, \<open>co_public_key\<close> and \<open>co_sign\<close>: the
  signing key; \<open>co_tx_high_s\<close> and \<open>co_recover\<close>: the recoverable transaction signature.
\<close>

record crypto_ops =
  co_keccak :: hash_fn
  co_from_sec1 :: "ConsensusPublicKey \<Rightarrow> bool"
  co_sig_parse :: "ConsensusSignature \<Rightarrow> bool"
  co_sig_high_s :: "ConsensusSignature \<Rightarrow> bool"
  co_verify :: "ConsensusPublicKey \<Rightarrow> b256 \<Rightarrow> ConsensusSignature \<Rightarrow> bool"
  co_secret_ok :: "b256 \<Rightarrow> bool"
  co_public_key :: "b256 \<Rightarrow> ConsensusPublicKey"
  co_sign :: "b256 \<Rightarrow> b256 \<Rightarrow> ConsensusSignature option"
  co_tx_high_s :: "b256 \<Rightarrow> b256 \<Rightarrow> bool \<Rightarrow> bool"
  co_recover :: "b256 \<Rightarrow> b256 \<Rightarrow> bool \<Rightarrow> b256 \<Rightarrow> address option"

definition DOMAIN_ID_TAG :: bytes where
  "DOMAIN_ID_TAG = ascii ''ARBOR_DOMAIN_V1''"

definition VALIDATOR_ID_TAG :: bytes where
  "VALIDATOR_ID_TAG = ascii ''ARBOR_VALIDATOR_ID_V1''"

section \<open>Identifiers and hashes\<close>

definition domain_id_preimage :: "NetworkId \<Rightarrow> DomainId \<Rightarrow> b256 \<Rightarrow> bytes" where
  "domain_id_preimage network_id parent_domain_id create_tx_hash =
     DOMAIN_ID_TAG @ [CANONICAL_CODEC_VERSION] @ to_be_bytes network_id
     @ to_be_bytes parent_domain_id @ to_be_bytes create_tx_hash"

definition derive_domain_id :: "hash_fn \<Rightarrow> NetworkId \<Rightarrow> DomainId \<Rightarrow> b256 \<Rightarrow> DomainId" where
  "derive_domain_id K network_id parent_domain_id create_tx_hash =
     K (domain_id_preimage network_id parent_domain_id create_tx_hash)"

definition hash_encoding :: "hash_fn \<Rightarrow> (bytes, CodecError) result \<Rightarrow> (b256, CryptoError) result" where
  "hash_encoding K encoded = bind_res (map_err Codec encoded) (\<lambda>bs. Ok (K bs))"

definition consensus_header_hash :: "hash_fn \<Rightarrow> ConsensusBlockHeader \<Rightarrow> (b256, CryptoError) result" where
  "consensus_header_hash K v = hash_encoding K (encode_consensus_header v)"

definition domain_header_hash :: "hash_fn \<Rightarrow> DomainBlockHeader \<Rightarrow> (b256, CryptoError) result" where
  "domain_header_hash K v = hash_encoding K (encode_domain_header v)"

definition domain_genesis_hash :: "hash_fn \<Rightarrow> DomainGenesis \<Rightarrow> (b256, CryptoError) result" where
  "domain_genesis_hash K v = hash_encoding K (encode_domain_genesis v)"

definition quorum_certificate_hash :: "hash_fn \<Rightarrow> QuorumCertificate \<Rightarrow> (b256, CryptoError) result" where
  "quorum_certificate_hash K v = hash_encoding K (encode_quorum_certificate v)"

definition eip1559_signing_hash :: "rlp \<Rightarrow> hash_fn \<Rightarrow> Eip1559Transaction \<Rightarrow> (b256, CryptoError) result" where
  "eip1559_signing_hash R K v = hash_encoding K (encode_eip1559_signing_payload R v)"

definition eip1559_transaction_hash :: "rlp \<Rightarrow> hash_fn \<Rightarrow> Eip1559Transaction \<Rightarrow> (b256, CryptoError) result" where
  "eip1559_transaction_hash R K v = hash_encoding K (encode_eip1559 R v)"

definition recover_eip1559_sender :: "rlp \<Rightarrow> crypto_ops \<Rightarrow> Eip1559Transaction \<Rightarrow> (address, CryptoError) result" where
  "recover_eip1559_sender R C t =
     (if co_tx_high_s C (tx_r t) (tx_s t) (tx_y_parity t) then Err InvalidSignature
      else bind_res (eip1559_signing_hash R (co_keccak C) t) (\<lambda>h.
        ok_or InvalidSignature (co_recover C (tx_r t) (tx_s t) (tx_y_parity t) h)))"

definition validator_id_preimage :: "ConsensusPublicKey \<Rightarrow> bytes" where
  "validator_id_preimage public_key =
     VALIDATOR_ID_TAG @ [CANONICAL_CODEC_VERSION] @ to_be_bytes public_key"

definition validator_id :: "hash_fn \<Rightarrow> ConsensusPublicKey \<Rightarrow> ValidatorId" where
  "validator_id K public_key = K (validator_id_preimage public_key)"

section \<open>Validator sets\<close>

definition checked_power :: "u128 \<Rightarrow> Validator \<Rightarrow> (u128, CryptoError) result" where
  "checked_power acc v = ok_or VotingPowerOverflow (checked_add acc (ucast (v_power v)))"

fun validate_validators :: "crypto_ops \<Rightarrow> u128 \<Rightarrow> Validator list \<Rightarrow> (u128, CryptoError) result" where
  "validate_validators C acc [] = Ok acc"
| "validate_validators C acc (v # vs) =
     (if \<not> co_from_sec1 C (v_public_key v) then Err InvalidPublicKey
      else if v_id v \<noteq> validator_id (co_keccak C) (v_public_key v) then Err ValidatorMismatch
      else bind_res (checked_power acc v) (\<lambda>acc. validate_validators C acc vs))"

definition validate_validator_set :: "crypto_ops \<Rightarrow> ValidatorSet \<Rightarrow> (unit, CryptoError) result" where
  "validate_validator_set C s =
     bind_res (validate_validators C 0 (vs_validators s)) (\<lambda>acc.
     if acc = 0 then Err InsufficientQuorum else Ok ())"

definition validator_set_hash :: "crypto_ops \<Rightarrow> ValidatorSet \<Rightarrow> (b256, CryptoError) result" where
  "validator_set_hash C s =
     bind_res (validate_validator_set C s) (\<lambda>_. hash_encoding (co_keccak C) (encode_validator_set s))"

section \<open>Votes\<close>

definition signer_from_secret_bytes :: "crypto_ops \<Rightarrow> b256 \<Rightarrow> (b256, CryptoError) result" where
  "signer_from_secret_bytes C secret =
     (if co_secret_ok C secret then Ok secret else Err InvalidSecretKey)"

definition sign_vote :: "crypto_ops \<Rightarrow> b256 \<Rightarrow> Vote \<Rightarrow> (ConsensusSignature, CryptoError) result" where
  "sign_vote C secret vote =
     (if vote_validator_id vote \<noteq> validator_id (co_keccak C) (co_public_key C secret)
      then Err ValidatorMismatch
      else bind_res (hash_encoding (co_keccak C) (encode_vote vote)) (\<lambda>digest.
        ok_or InvalidSignature (co_sign C secret digest)))"

definition verify_vote_signature
  :: "crypto_ops \<Rightarrow> ConsensusPublicKey \<Rightarrow> Vote \<Rightarrow> ConsensusSignature \<Rightarrow> (unit, CryptoError) result" where
  "verify_vote_signature C public_key vote signature =
     (if vote_validator_id vote \<noteq> validator_id (co_keccak C) public_key then Err ValidatorMismatch
      else if \<not> co_from_sec1 C public_key then Err InvalidPublicKey
      else if \<not> co_sig_parse C signature then Err InvalidSignature
      else if co_sig_high_s C signature then Err InvalidSignature
      else bind_res (hash_encoding (co_keccak C) (encode_vote vote)) (\<lambda>digest.
        if co_verify C public_key digest signature then Ok () else Err InvalidSignature))"

section \<open>Quorum certificates\<close>

text \<open>
  \<open>binary_search_by_key\<close> of the standard library: the interval \<open>base .. base + size\<close> is halved
  until one element remains, which is then compared.
\<close>

function search_loop :: "'k::linorder \<Rightarrow> 'k list \<Rightarrow> nat \<Rightarrow> nat \<Rightarrow> nat" where
  "search_loop k ks base sz =
     (if sz \<le> 1 then base
      else let half = sz div 2; mid = base + half in
        search_loop k ks (if ks ! mid > k then base else mid) (sz - half))"
  by pat_completeness auto
termination
  by (relation "measure (\<lambda>(_, _, _, sz). sz)") auto

declare search_loop.simps [simp del]

definition binary_search :: "'k::linorder \<Rightarrow> 'k list \<Rightarrow> nat option" where
  "binary_search k ks =
     (if ks = [] then None
      else let base = search_loop k ks 0 (length ks) in
        if ks ! base = k then Some base else None)"

fun sum_powers :: "u128 \<Rightarrow> Validator list \<Rightarrow> (u128, CryptoError) result" where
  "sum_powers acc [] = Ok acc"
| "sum_powers acc (v # vs) = bind_res (checked_power acc v) (\<lambda>acc. sum_powers acc vs)"

definition certificate_vote :: "QuorumCertificate \<Rightarrow> ValidatorId \<Rightarrow> Vote" where
  "certificate_vote q i =
     \<lparr>vote_network_id = qc_network_id q, vote_height = qc_height q, vote_round = qc_round q,
      vote_phase = qc_phase q, vote_block_hash = qc_block_hash q, vote_validator_id = i\<rparr>"

fun tally :: "crypto_ops \<Rightarrow> QuorumCertificate \<Rightarrow> ValidatorSet \<Rightarrow> u128 \<Rightarrow> CommitSignature list
    \<Rightarrow> (u128, CryptoError) result" where
  "tally C q s signed_power [] = Ok signed_power"
| "tally C q s signed_power (c # cs) =
     bind_res (ok_or UnknownValidator
       (binary_search (cs_validator_id c) (map v_id (vs_validators s)))) (\<lambda>index.
     let v = vs_validators s ! index in
     bind_res (verify_vote_signature C (v_public_key v)
       (certificate_vote q (cs_validator_id c)) (cs_signature c)) (\<lambda>_.
     bind_res (checked_power signed_power v) (\<lambda>signed_power. tally C q s signed_power cs)))"

definition verify_quorum_certificate
  :: "crypto_ops \<Rightarrow> QuorumCertificate \<Rightarrow> ValidatorSet \<Rightarrow> (unit, CryptoError) result" where
  "verify_quorum_certificate C q s =
     bind_res (validate_validator_set C s) (\<lambda>_.
     bind_res (map_err Codec (encode_quorum_certificate q)) (\<lambda>_.
     bind_res (sum_powers 0 (vs_validators s)) (\<lambda>total_power.
     bind_res (tally C q s 0 (qc_signatures q)) (\<lambda>signed_power.
     if signed_power * 3 \<le> total_power * 2 then Err InsufficientQuorum else Ok ()))))"

section \<open>Lemmas\<close>

lemma hash_encoding_Ok:
  "hash_encoding K e = Ok h \<longleftrightarrow> (\<exists>bs. e = Ok bs \<and> h = K bs)"
  by (auto simp: hash_encoding_def)

abbreviation powers :: "Validator list \<Rightarrow> nat" where
  "powers vs \<equiv> (\<Sum>v \<leftarrow> vs. unat (v_power v))"

lemma unat_ucast_power: "unat (ucast (p :: u64) :: u128) = unat p"
  by transfer (simp add: take_bit_take_bit min_def)

lemma checked_power_Ok:
  "checked_power a v = Ok b \<longleftrightarrow> unat b = unat a + unat (v_power v)"
  using unat_less_exp [of b]
  by (auto simp: checked_power_def checked_simps unat_ucast_power)

lemma sum_powers_Ok: "sum_powers a vs = Ok b \<Longrightarrow> unat b = unat a + powers vs"
  by (induction vs arbitrary: a) (auto simp: checked_power_Ok)

lemma validate_validators_Ok:
  "validate_validators C a vs = Ok b \<Longrightarrow>
     unat b = unat a + powers vs \<and>
     (\<forall>v \<in> set vs. co_from_sec1 C (v_public_key v) \<and>
        v_id v = validator_id (co_keccak C) (v_public_key v))"
  by (induction vs arbitrary: a) (auto simp: checked_power_Ok split: if_splits)

lemma powers_bound: "powers vs \<le> length vs * (2 ^ 64 - 1)"
proof (induction vs)
  case (Cons v vs)
  then show ?case using unat_less_exp [of "v_power v"] by simp
qed simp

subsection \<open>Binary search\<close>

lemma search_loop_less: "0 < sz \<Longrightarrow> base + sz \<le> n \<Longrightarrow> search_loop k ks base sz < n"
proof (induction k ks base sz rule: search_loop.induct)
  case (1 k ks base sz)
  show ?case
  proof (cases "sz \<le> 1")
    case True
    with 1 show ?thesis by (simp add: search_loop.simps)
  next
    case False
    let ?base = "if ks ! (base + sz div 2) > k then base else base + sz div 2"
    have "search_loop k ks ?base (sz - sz div 2) < n"
      using False 1 by (intro 1) auto
    with False show ?thesis by (subst search_loop.simps) (simp add: Let_def)
  qed
qed

lemma binary_search_Some:
  assumes "binary_search k ks = Some i"
  shows "i < length ks" and "ks ! i = k"
  using assms search_loop_less [of "length ks" 0 "length ks" k ks]
  by (auto simp: binary_search_def Let_def split: if_splits)

lemma search_loop_finds:
  assumes "sorted_wrt (<) ks" and "base + sz \<le> length ks"
    and "base \<le> j" and "j < base + sz" and "ks ! j = k"
  shows "search_loop k ks base sz = j"
  using assms
proof (induction k ks base sz rule: search_loop.induct)
  case (1 k ks base sz)
  show ?case
  proof (cases "sz \<le> 1")
    case True
    with 1 show ?thesis by (simp add: search_loop.simps)
  next
    case False
    let ?mid = "base + sz div 2"
    have mid: "?mid < length ks" using False 1 by simp
    have "j < ?mid" if "ks ! ?mid > k"
      using that sorted_wrt_nth_less [OF 1(2), of ?mid j] 1(3-6) mid
      by (cases j ?mid rule: linorder_cases) auto
    moreover have "?mid \<le> j" if "\<not> ks ! ?mid > k"
      using that sorted_wrt_nth_less [OF 1(2), of j ?mid] mid 1(6) by (meson not_le)
    ultimately have "search_loop k ks (if ks ! ?mid > k then base else ?mid) (sz - sz div 2) = j"
      using False 1 by (intro 1) auto
    with False show ?thesis by (subst search_loop.simps) (simp add: Let_def)
  qed
qed

lemma binary_search_sorted:
  assumes "sorted_wrt (<) ks"
  shows "binary_search k ks = Some i \<longleftrightarrow> i < length ks \<and> ks ! i = k"
proof
  assume r: "i < length ks \<and> ks ! i = k"
  then have "search_loop k ks 0 (length ks) = i"
    using assms by (intro search_loop_finds) auto
  with r show "binary_search k ks = Some i" by (auto simp: binary_search_def)
qed (auto dest: binary_search_Some)

subsection \<open>Signed power\<close>

text \<open>The positions in the validator set that the certificate's signer identifiers resolve to.\<close>

definition signer_indices :: "ValidatorSet \<Rightarrow> QuorumCertificate \<Rightarrow> nat set" where
  "signer_indices s q =
     {i. \<exists>c \<in> set (qc_signatures q). binary_search (cs_validator_id c) (map v_id (vs_validators s)) = Some i}"

abbreviation power_of :: "ValidatorSet \<Rightarrow> nat set \<Rightarrow> nat" where
  "power_of s I \<equiv> (\<Sum>i \<in> I. unat (v_power (vs_validators s ! i)))"

lemma signer_indices_bounded: "signer_indices s q \<subseteq> {..<length (vs_validators s)}"
  by (auto simp: signer_indices_def dest: binary_search_Some)

lemma powers_power_of: "powers (vs_validators s) = power_of s {..<length (vs_validators s)}"
  by (simp add: sum_list_sum_nth atLeast0LessThan)

lemma tally_Ok:
  assumes "tally C q s a cs = Ok p" and "distinct (map cs_validator_id cs)"
  shows "unat p = unat a + power_of s {i. \<exists>c \<in> set cs.
      binary_search (cs_validator_id c) (map v_id (vs_validators s)) = Some i} \<and>
    (\<forall>c \<in> set cs. \<exists>i. binary_search (cs_validator_id c) (map v_id (vs_validators s)) = Some i \<and>
      verify_vote_signature C (v_public_key (vs_validators s ! i))
        (certificate_vote q (cs_validator_id c)) (cs_signature c) = Ok ())"
  using assms
proof (induction cs arbitrary: a)
  case (Cons c cs)
  let ?find = "\<lambda>c. binary_search (cs_validator_id c) (map v_id (vs_validators s))"
  let ?I = "{i. \<exists>c \<in> set cs. ?find c = Some i}"
  obtain i b where i: "?find c = Some i"
    and sig: "verify_vote_signature C (v_public_key (vs_validators s ! i))
      (certificate_vote q (cs_validator_id c)) (cs_signature c) = Ok ()"
    and b: "unat b = unat a + unat (v_power (vs_validators s ! i))"
    and rest: "tally C q s b cs = Ok p"
    using Cons.prems(1) by (auto simp: Let_def checked_power_Ok)
  have "i \<notin> ?I"
  proof
    assume "i \<in> ?I"
    then obtain d where d: "d \<in> set cs" "?find d = Some i" by blast
    then have "cs_validator_id d = cs_validator_id c"
      using i binary_search_Some(2) by metis
    with d Cons.prems(2) show False by (force simp: image_iff)
  qed
  moreover have "{i. \<exists>c' \<in> set (c # cs). ?find c' = Some i} = insert i ?I"
    using i by auto
  moreover have "finite ?I"
    by (rule finite_subset [of _ "{..<length (vs_validators s)}"]) (auto dest: binary_search_Some)
  ultimately show ?case
    using Cons.IH [OF rest] Cons.prems(2) b i sig by simp
qed simp

lemma triple_no_wrap:
  assumes "unat (w :: u128) < 2 ^ 126"
  shows "unat (w * 3) = unat w * 3" and "unat (w * 2) = unat w * 2"
  using assms unat_times_fits [of w 3] unat_times_fits [of w 2] by simp_all

lemma verify_quorum_certificate_Ok:
  assumes "verify_quorum_certificate C q s = Ok ()" and len: "length (vs_validators s) < 2 ^ 62"
  shows "2 * power_of s {..<length (vs_validators s)} < 3 * power_of s (signer_indices s q)"
    and "\<forall>i \<in> signer_indices s q. \<exists>c \<in> set (qc_signatures q).
      cs_validator_id c = v_id (vs_validators s ! i) \<and>
      verify_vote_signature C (v_public_key (vs_validators s ! i))
        (certificate_vote q (v_id (vs_validators s ! i))) (cs_signature c) = Ok ()"
proof -
  let ?vs = "vs_validators s"
  obtain t p where t: "sum_powers 0 ?vs = Ok t" and p: "tally C q s 0 (qc_signatures q) = Ok p"
    and gt: "\<not> p * 3 \<le> t * 2" and wf: "is_ok (encode_quorum_certificate q)"
    using assms(1) by (auto simp: verify_quorum_certificate_def split: if_splits)
  have dist: "distinct (map cs_validator_id (qc_signatures q))"
    using wf encode_quorum_certificate_wf [of q]
    by (cases "encode_quorum_certificate q") (auto simp: strict_sorted_iff)
  note tally = tally_Ok [OF p dist, folded signer_indices_def]
  have ut: "unat t = powers ?vs" using sum_powers_Ok [OF t] by simp
  have up: "unat p = power_of s (signer_indices s q)" using tally by simp
  have le: "unat p \<le> unat t"
    unfolding up ut powers_power_of using signer_indices_bounded
    by (intro sum_mono2) auto
  have "powers ?vs \<le> 2 ^ 62 * (2 ^ 64 - 1)"
    using powers_bound [of ?vs] len by (meson le_trans less_imp_le mult_le_mono1)
  then have "unat t < 2 ^ 126" by (simp add: ut)
  then have "unat (p * 3) = unat p * 3" "unat (t * 2) = unat t * 2"
    using le triple_no_wrap by simp_all
  with gt show "2 * power_of s {..<length ?vs} < 3 * power_of s (signer_indices s q)"
    using up ut powers_power_of [of s] by (simp add: word_le_nat_alt)
  show "\<forall>i \<in> signer_indices s q. \<exists>c \<in> set (qc_signatures q).
      cs_validator_id c = v_id (?vs ! i) \<and>
      verify_vote_signature C (v_public_key (?vs ! i))
        (certificate_vote q (v_id (?vs ! i))) (cs_signature c) = Ok ()"
  proof
    fix i assume "i \<in> signer_indices s q"
    then obtain c where c: "c \<in> set (qc_signatures q)"
      and find: "binary_search (cs_validator_id c) (map v_id ?vs) = Some i"
      by (auto simp: signer_indices_def)
    then have "verify_vote_signature C (v_public_key (?vs ! i))
        (certificate_vote q (cs_validator_id c)) (cs_signature c) = Ok ()"
      using tally by fastforce
    moreover have "cs_validator_id c = v_id (?vs ! i)"
      using binary_search_Some [OF find] by simp
    ultimately show "\<exists>c \<in> set (qc_signatures q). cs_validator_id c = v_id (?vs ! i) \<and>
        verify_vote_signature C (v_public_key (?vs ! i))
          (certificate_vote q (v_id (?vs ! i))) (cs_signature c) = Ok ()"
      using c by force
  qed
qed

subsection \<open>The quorum rule as a specification\<close>

definition signed_by :: "crypto_ops \<Rightarrow> QuorumCertificate \<Rightarrow> Validator \<Rightarrow> CommitSignature \<Rightarrow> bool" where
  "signed_by C q v c \<longleftrightarrow> v_id v = cs_validator_id c \<and>
     verify_vote_signature C (v_public_key v) (certificate_vote q (v_id v)) (cs_signature c) = Ok ()"

definition quorum_spec :: "crypto_ops \<Rightarrow> QuorumCertificate \<Rightarrow> ValidatorSet \<Rightarrow> bool" where
  "quorum_spec C q s \<longleftrightarrow>
     (\<forall>c \<in> set (qc_signatures q). \<exists>v \<in> set (vs_validators s). signed_by C q v c) \<and>
     2 * powers (vs_validators s) <
       3 * powers (filter (\<lambda>v. v_id v \<in> cs_validator_id ` set (qc_signatures q)) (vs_validators s))"

lemma checked_power_fits:
  "unat a + unat (v_power v) < 2 ^ 128 \<Longrightarrow> \<exists>b. checked_power a v = Ok b"
  by (auto simp: checked_power_Ok intro!: exI [of _ "word_of_nat (unat a + unat (v_power v))"]
      unat_of_nat_fits)

lemma sum_powers_fits: "unat a + powers vs < 2 ^ 128 \<Longrightarrow> \<exists>b. sum_powers a vs = Ok b"
proof (induction vs arbitrary: a)
  case (Cons v vs)
  then obtain b where b: "checked_power a v = Ok b"
    using checked_power_fits [of a v] by auto
  then have "unat b + powers vs < 2 ^ 128" using Cons.prems by (simp add: checked_power_Ok)
  with Cons.IH b show ?case by simp
qed simp

lemma tally_fits:
  assumes "\<forall>c \<in> set cs. \<exists>i. binary_search (cs_validator_id c) (map v_id (vs_validators s)) = Some i \<and>
      verify_vote_signature C (v_public_key (vs_validators s ! i))
        (certificate_vote q (cs_validator_id c)) (cs_signature c) = Ok ()"
    and "unat a + length cs * 2 ^ 64 < 2 ^ 128"
  shows "\<exists>p. tally C q s a cs = Ok p"
  using assms
proof (induction cs arbitrary: a)
  case (Cons c cs)
  obtain i where i: "binary_search (cs_validator_id c) (map v_id (vs_validators s)) = Some i"
    "verify_vote_signature C (v_public_key (vs_validators s ! i))
      (certificate_vote q (cs_validator_id c)) (cs_signature c) = Ok ()"
    using Cons.prems(1) by auto
  have small: "unat (v_power (vs_validators s ! i)) < 2 ^ 64"
    using unat_less_exp [of "v_power (vs_validators s ! i)"] by simp
  with Cons.prems(2) obtain b where b: "checked_power a (vs_validators s ! i) = Ok b"
    using checked_power_fits [of a "vs_validators s ! i"] by auto
  then have "unat b + length cs * 2 ^ 64 < 2 ^ 128"
    using Cons.prems(2) small by (simp add: checked_power_Ok)
  then show ?case using Cons.IH [of b] Cons.prems(1) i b by (simp add: Let_def)
qed simp

lemma signer_indices_power:
  assumes "sorted_wrt (<) (map v_id (vs_validators s))"
  shows "power_of s (signer_indices s q) =
    powers (filter (\<lambda>v. v_id v \<in> cs_validator_id ` set (qc_signatures q)) (vs_validators s))"
proof -
  let ?vs = "vs_validators s" and ?P = "\<lambda>v. v_id v \<in> cs_validator_id ` set (qc_signatures q)"
  have "signer_indices s q = {i. i < length ?vs \<and> ?P (?vs ! i)}"
    unfolding signer_indices_def binary_search_sorted [OF assms] by (auto simp: image_iff)
  moreover have "powers (filter ?P ?vs) =
      (\<Sum>i \<in> {i. i < length ?vs \<and> ?P (?vs ! i)}. unat (v_power (?vs ! i)))"
    using sum_list_map_filter_nth [of "\<lambda>v. unat (v_power v)" ?P ?vs] by simp
  ultimately show ?thesis by simp
qed

lemma quorum_members:
  assumes "sorted_wrt (<) (map v_id (vs_validators s))"
  shows "(\<exists>i. binary_search (cs_validator_id c) (map v_id (vs_validators s)) = Some i \<and>
      verify_vote_signature C (v_public_key (vs_validators s ! i))
        (certificate_vote q (cs_validator_id c)) (cs_signature c) = Ok ()) \<longleftrightarrow>
    (\<exists>v \<in> set (vs_validators s). signed_by C q v c)"
    (is "?l \<longleftrightarrow> ?r")
proof
  assume ?l
  then obtain i where "i < length (vs_validators s)" "signed_by C q (vs_validators s ! i) c"
    unfolding binary_search_sorted [OF assms] signed_by_def by auto
  then show ?r using nth_mem by blast
next
  assume ?r
  then obtain i where "i < length (vs_validators s)" "signed_by C q (vs_validators s ! i) c"
    by (auto simp: in_set_conv_nth)
  then show ?l
    unfolding binary_search_sorted [OF assms] signed_by_def by (intro exI [of _ i]) auto
qed

lemma verify_quorum_certificate_spec:
  assumes sorted: "sorted_wrt (<) (map v_id (vs_validators s))"
    and len: "length (vs_validators s) < 2 ^ 62"
    and valid: "validate_validator_set C s = Ok ()" and enc: "encode_quorum_certificate q = Ok bs"
  shows "verify_quorum_certificate C q s = Ok () \<longleftrightarrow> quorum_spec C q s"
proof
  assume ok: "verify_quorum_certificate C q s = Ok ()"
  then obtain p where "tally C q s 0 (qc_signatures q) = Ok p"
    by (auto simp: verify_quorum_certificate_def)
  moreover have "distinct (map cs_validator_id (qc_signatures q))"
    using encode_quorum_certificate_wf [OF enc] by (simp add: strict_sorted_iff)
  ultimately have "\<forall>c \<in> set (qc_signatures q). \<exists>v \<in> set (vs_validators s). signed_by C q v c"
    using tally_Ok [of C q s 0 "qc_signatures q" p] quorum_members [OF sorted, of _ C q] by simp
  then show "quorum_spec C q s"
    using verify_quorum_certificate_Ok(1) [OF ok len] signer_indices_power [OF sorted, of q]
    by (simp add: quorum_spec_def powers_power_of)
next
  assume spec: "quorum_spec C q s"
  let ?vs = "vs_validators s"
  have dist: "distinct (map cs_validator_id (qc_signatures q))"
    and few: "length (qc_signatures q) \<le> 100"
    using encode_quorum_certificate_wf [OF enc] by (simp_all add: strict_sorted_iff codec_limits)
  have "powers ?vs \<le> 2 ^ 62 * (2 ^ 64 - 1)"
    using powers_bound [of ?vs] len by (meson le_trans less_imp_le mult_le_mono1)
  then have small: "powers ?vs < 2 ^ 126" by simp
  then obtain t where t: "sum_powers 0 ?vs = Ok t" using sum_powers_fits [of 0 ?vs] by auto
  obtain p where p: "tally C q s 0 (qc_signatures q) = Ok p"
    using tally_fits [of "qc_signatures q" s C q 0] spec few
    unfolding quorum_members [OF sorted] quorum_spec_def by auto
  have ut: "unat t = powers ?vs" using sum_powers_Ok [OF t] by simp
  have up: "unat p = power_of s (signer_indices s q)"
    using tally_Ok [OF p dist, folded signer_indices_def] by simp
  have "unat p \<le> unat t"
    unfolding up ut powers_power_of using signer_indices_bounded by (intro sum_mono2) auto
  then have "unat (p * 3) = unat p * 3" "unat (t * 2) = unat t * 2"
    using small ut triple_no_wrap by simp_all
  then have "\<not> p * 3 \<le> t * 2"
    using spec up ut signer_indices_power [OF sorted, of q]
    by (simp add: quorum_spec_def word_le_nat_alt)
  then show "verify_quorum_certificate C q s = Ok ()"
    using valid enc t p by (simp add: verify_quorum_certificate_def)
qed

subsection \<open>Identifiers\<close>

lemma domain_id_preimage_inject:
  "domain_id_preimage n p h = domain_id_preimage n' p' h' \<longleftrightarrow> n = n' \<and> p = p' \<and> h = h'"
  by (auto simp: domain_id_preimage_def to_be_bytes_inject)

lemma validator_id_preimage_inject:
  "validator_id_preimage k = validator_id_preimage k' \<longleftrightarrow> k = k'"
  by (simp add: validator_id_preimage_def to_be_bytes_inject)

section \<open>A concrete instance\<close>

definition sample_crypto :: "hash_fn \<Rightarrow> crypto_ops" where
  "sample_crypto K = \<lparr>co_keccak = K, co_from_sec1 = (\<lambda>_. True),
     co_sig_parse = (\<lambda>_. True), co_sig_high_s = (\<lambda>_. False), co_verify = (\<lambda>k d s. s = ucast d),
     co_secret_ok = (\<lambda>_. True), co_public_key = (\<lambda>k. ucast k), co_sign = (\<lambda>k d. Some (ucast d)),
     co_tx_high_s = (\<lambda>_ _ _. False), co_recover = (\<lambda>_ _ _ _. Some 5)\<rparr>"

definition sample_set :: ValidatorSet where
  "sample_set = \<lparr>vs_epoch = 0, vs_validators = [\<lparr>v_id = 0, v_public_key = 7, v_power = 1\<rparr>]\<rparr>"

definition sample_certificate :: "b256 \<Rightarrow> QuorumCertificate" where
  "sample_certificate h = \<lparr>qc_network_id = 1, qc_height = 1, qc_round = 0, qc_phase = 2,
     qc_block_hash = h, qc_signatures = [\<lparr>cs_validator_id = 0, cs_signature = 0\<rparr>]\<rparr>"

lemmas sample_defs = sample_crypto_def sample_set_def sample_certificate_def

lemma sample_encodes: "is_ok (encode_quorum_certificate (sample_certificate h))"
  by (simp add: encode_quorum_certificate_def sample_defs check_limit_def codec_limits
      check_strictly_sorted_def encoder_finish_def encoder_tagged_def codec_tags w_count_def
      w_commit_signature_def)

lemma sample_certificate_ok:
  "verify_quorum_certificate (sample_crypto (\<lambda>_. 0)) (sample_certificate h) sample_set = Ok ()"
proof -
  obtain bs where "encode_quorum_certificate (sample_certificate h) = Ok bs"
    using sample_encodes [of h] by (auto simp: is_ok_iff)
  then show ?thesis
    by (simp add: verify_quorum_certificate_def validate_validator_set_def sample_defs
        validator_id_def checked_power_def checked_add_def binary_search_def search_loop.simps
        verify_vote_signature_def certificate_vote_def hash_encoding_def encode_vote_def
        encoder_finish_def check_limit_def codec_limits encoder_tagged_def codec_tags)
qed

section \<open>Properties\<close>

text \<open>
  (C6) Accountable safety of certificates: if two certificates verify under one validator set,
  then validators holding more than a third of its power have each signed both certificates'
  votes. A Rust vector of validators is shorter than the assumed bound, which keeps the
  128-bit products of the quorum test from wrapping.
\<close>

theorem quorum_intersection:
  assumes "verify_quorum_certificate C q1 s = Ok ()" and "verify_quorum_certificate C q2 s = Ok ()"
    and "length (vs_validators s) < 2 ^ 62"
  shows "\<exists>D \<subseteq> {..<length (vs_validators s)}.
    powers (vs_validators s) < 3 * power_of s D \<and>
    (\<forall>i \<in> D. \<exists>c1 \<in> set (qc_signatures q1). \<exists>c2 \<in> set (qc_signatures q2).
      signed_by C q1 (vs_validators s ! i) c1 \<and> signed_by C q2 (vs_validators s ! i) c2)"
proof -
  let ?n = "{..<length (vs_validators s)}"
  let ?A = "signer_indices s q1" and ?B = "signer_indices s q2"
  note A = verify_quorum_certificate_Ok [OF assms(1,3)]
    and B = verify_quorum_certificate_Ok [OF assms(2,3)]
  have fin: "finite ?A" "finite ?B"
    using signer_indices_bounded finite_subset by blast+
  have "power_of s ?A + power_of s ?B = power_of s (?A \<union> ?B) + power_of s (?A \<inter> ?B)"
    using fin by (rule sum.union_inter [symmetric])
  moreover have "power_of s (?A \<union> ?B) \<le> power_of s ?n"
    using signer_indices_bounded by (intro sum_mono2) auto
  ultimately have "powers (vs_validators s) < 3 * power_of s (?A \<inter> ?B)"
    using A(1) B(1) powers_power_of [of s] by linarith
  moreover have sigs: "\<forall>i \<in> ?A \<inter> ?B. (\<exists>c1 \<in> set (qc_signatures q1). signed_by C q1 (vs_validators s ! i) c1)
      \<and> (\<exists>c2 \<in> set (qc_signatures q2). signed_by C q2 (vs_validators s ! i) c2)"
    using A(2) B(2) unfolding signed_by_def by (metis IntD1 IntD2)
  moreover have "?A \<inter> ?B \<subseteq> ?n" using signer_indices_bounded by blast
  ultimately show ?thesis
    by (intro exI [of _ "?A \<inter> ?B"] conjI ballI) (assumption+, blast)
qed

theorem quorum_intersection_witness:
  "\<exists>D \<subseteq> {..<length (vs_validators sample_set)}.
    powers (vs_validators sample_set) < 3 * power_of sample_set D \<and>
    (\<forall>i \<in> D. \<exists>c1 \<in> set (qc_signatures (sample_certificate 3)).
      \<exists>c2 \<in> set (qc_signatures (sample_certificate 4)).
      signed_by (sample_crypto (\<lambda>_. 0)) (sample_certificate 3) (vs_validators sample_set ! i) c1 \<and>
      signed_by (sample_crypto (\<lambda>_. 0)) (sample_certificate 4) (vs_validators sample_set ! i) c2)"
  using quorum_intersection [OF sample_certificate_ok [of 3] sample_certificate_ok [of 4]]
  by (simp add: sample_set_def)

text \<open>
  (C7) For a well-formed set and an encodable certificate, verification succeeds exactly when
  every listed signer is a member whose signature covers the certificate's vote and the members
  listed hold strictly more than two thirds of the power: the tally neither wraps nor counts a
  validator twice, and the binary search finds every member.
\<close>

theorem quorum_verification_exact:
  assumes "sorted_wrt (<) (map v_id (vs_validators s))" and "length (vs_validators s) < 2 ^ 62"
    and "validate_validator_set C s = Ok ()" and "encode_quorum_certificate q = Ok bs"
  shows "verify_quorum_certificate C q s = Ok () \<longleftrightarrow> quorum_spec C q s"
  using assms by (rule verify_quorum_certificate_spec)

theorem quorum_verification_exact_witness:
  "quorum_spec (sample_crypto (\<lambda>_. 0)) (sample_certificate 3) sample_set"
proof -
  obtain bs where bs: "encode_quorum_certificate (sample_certificate 3) = Ok bs"
    using sample_encodes [of 3] by (auto simp: is_ok_iff)
  have "validate_validator_set (sample_crypto (\<lambda>_. 0)) sample_set = Ok ()"
    using sample_certificate_ok [of 3] by (auto simp: verify_quorum_certificate_def)
  then show ?thesis
    using quorum_verification_exact [OF _ _ _ bs] sample_certificate_ok [of 3]
    by (simp add: sample_set_def)
qed

text \<open>
  What the consensus signer signs, verification accepts: if the signature scheme verifies
  its own low-s signatures, a vote signed by a key verifies under that key's public key.
\<close>

theorem signed_votes_verify:
  assumes "co_from_sec1 C (co_public_key C secret)"
    and "\<And>d g. co_sign C secret d = Some g \<Longrightarrow>
      co_sig_parse C g \<and> \<not> co_sig_high_s C g \<and> co_verify C (co_public_key C secret) d g"
    and "sign_vote C secret vote = Ok signature"
  shows "verify_vote_signature C (co_public_key C secret) vote signature = Ok ()"
  using assms by (auto simp: sign_vote_def verify_vote_signature_def split: if_splits)

theorem signed_votes_verify_witness:
  "verify_vote_signature (sample_crypto (\<lambda>_. 0)) 9
     \<lparr>vote_network_id = 1, vote_height = 1, vote_round = 0, vote_phase = 2,
      vote_block_hash = 3, vote_validator_id = 0\<rparr> 0 = Ok ()"
proof -
  let ?v = "\<lparr>vote_network_id = 1, vote_height = 1, vote_round = 0, vote_phase = 2,
      vote_block_hash = 3, vote_validator_id = 0\<rparr>"
  have "sign_vote (sample_crypto (\<lambda>_. 0)) 9 ?v = Ok 0"
    by (simp add: sign_vote_def sample_crypto_def validator_id_def hash_encoding_def encode_vote_def
        encoder_finish_def check_limit_def codec_limits encoder_tagged_def codec_tags)
  then show ?thesis
    using signed_votes_verify [of "sample_crypto (\<lambda>_. 0)" 9 ?v 0]
    by (simp add: sample_crypto_def)
qed

end
