(* ===== verification/Mempool.thy ===== *)
theory Mempool
  imports BTree_Map Crypto
begin

text \<open>
  \<open>arbor-mempool\<close>: the bounded pool of signed type-2 transactions, one nonce queue per domain and
  sender. The record \<open>Mempool\<close> has the five fields of the struct; an operation that returns a
  \<open>Result\<close> and takes \<open>&mut self\<close> returns the updated pool with its value and leaves the pool as it
  was on an error.
\<close>

section \<open>Data\<close>

record MempoolConfig =
  cfg_max_transactions :: nat
  cfg_max_transactions_per_sender :: nat
  cfg_max_transaction_bytes :: nat
  cfg_replacement_bump_percent :: u8

definition default_mempool_config :: MempoolConfig where
  "default_mempool_config =
     \<lparr>cfg_max_transactions = 50000, cfg_max_transactions_per_sender = 128,
      cfg_max_transaction_bytes = MAX_TRANSACTION_ENVELOPE_BYTES,
      cfg_replacement_bump_percent = 10\<rparr>"

datatype QueueStatus = QPending | Queued | Replaced

record PoolEntry =
  pe_domain_id :: DomainId
  pe_sender :: address
  pe_transaction_hash :: b256
  pe_envelope :: bytes
  pe_transaction :: Eip1559Transaction

text \<open>The source renders the cause of an \<open>InvalidTransaction\<close>; here it is kept as a value.\<close>

datatype MempoolError =
    UnknownDomain
  | InvalidChainId
  | DomainAlreadyRegistered
  | DuplicateChainId
  | EnvelopeTooLarge nat nat
  | InvalidTransaction CryptoError
  | WrongChainId u64 u64
  | NonceTooLow u64 u64
  | ReplacementUnderpriced
  | Capacity
  | SenderCapacity

type_synonym pool_key = "DomainId \<times> address \<times> u64"

record Mempool =
  mp_config :: MempoolConfig
  mp_chain_ids :: "(DomainId, u64) btree_map"
  mp_used_chain_ids :: "u64 set"
  mp_entries :: "(pool_key, PoolEntry) btree_map"
  mp_sender_counts :: "(DomainId \<times> address, nat) btree_map"

section \<open>Operations\<close>

definition mempool_new :: "MempoolConfig \<Rightarrow> Mempool" where
  "mempool_new config =
     \<lparr>mp_config = config\<lparr>cfg_max_transaction_bytes :=
        min (cfg_max_transaction_bytes config) MAX_TRANSACTION_ENVELOPE_BYTES\<rparr>,
      mp_chain_ids = [], mp_used_chain_ids = {}, mp_entries = [], mp_sender_counts = []\<rparr>"

definition register_domain :: "DomainId \<Rightarrow> u64 \<Rightarrow> Mempool \<Rightarrow> (Mempool, MempoolError) result" where
  "register_domain domain_id chain_id m =
     (if chain_id = 0 then Err InvalidChainId
      else case bt_get (mp_chain_ids m) domain_id of
        Some registered_chain_id \<Rightarrow>
          if registered_chain_id = chain_id then Ok m else Err DomainAlreadyRegistered
      | None \<Rightarrow>
          if chain_id \<in> mp_used_chain_ids m then Err DuplicateChainId
          else Ok (m\<lparr>mp_chain_ids := bt_insert domain_id chain_id (mp_chain_ids m),
                     mp_used_chain_ids := insert chain_id (mp_used_chain_ids m)\<rparr>))"

definition div_ceil :: "'a::len word \<Rightarrow> 'a word \<Rightarrow> 'a word" where
  "div_ceil a b = (if a mod b = 0 then a div b else a div b + 1)"

definition replacement_min :: "u128 \<Rightarrow> u8 \<Rightarrow> u128" where
  "replacement_min val bump_percent =
     (let quotient = val div 100; remainder = val mod 100;
          bump = saturating_add (saturating_mul quotient (ucast bump_percent))
            (div_ceil (saturating_mul remainder (ucast bump_percent)) 100)
      in saturating_add val bump)"

definition replacement_priced :: "Eip1559Transaction \<Rightarrow> Eip1559Transaction \<Rightarrow> u8 \<Rightarrow> bool" where
  "replacement_priced old new bump_percent \<longleftrightarrow>
     tx_max_fee_per_gas new \<ge> replacement_min (tx_max_fee_per_gas old) bump_percent \<and>
     tx_max_priority_fee_per_gas new \<ge> replacement_min (tx_max_priority_fee_per_gas old) bump_percent"

lemma nonce_gap_decreases:
  fixes nonce target :: u64
  assumes "nonce \<le> target" and "nonce \<noteq> target"
  shows "unat target - unat (nonce + 1) < unat target - unat nonce"
  using assms unat_succ [of nonce target] by (simp add: word_less_nat_alt word_le_nat_alt word_unat_eq_iff)

lemma nonce_headroom_decreases:
  fixes nonce n' :: u64
  assumes "checked_add nonce 1 = Some n'"
  shows "2 ^ 64 - unat n' < 2 ^ 64 - unat nonce"
  using assms unat_less_exp [of n'] by (simp add: checked_simps)

function contiguous :: "(pool_key, PoolEntry) btree_map \<Rightarrow> DomainId \<Rightarrow> address \<Rightarrow> u64 \<Rightarrow> u64 \<Rightarrow> bool" where
  "contiguous entries domain_id sender nonce target =
     (if nonce > target then True
      else if \<not> bt_contains entries (domain_id, sender, nonce) then False
      else if nonce = target then True
      else contiguous entries domain_id sender (nonce + 1) target)"
  by pat_completeness auto
termination
  by (relation "measure (\<lambda>(_, _, _, nonce, target). unat target - unat nonce)")
    (auto simp: not_less intro: nonce_gap_decreases)

declare contiguous.simps [simp del]

definition nonce_is_contiguous :: "Mempool \<Rightarrow> DomainId \<Rightarrow> address \<Rightarrow> u64 \<Rightarrow> u64 \<Rightarrow> bool" where
  "nonce_is_contiguous m domain_id sender state_nonce target =
     contiguous (mp_entries m) domain_id sender state_nonce target"

definition mempool_insert :: "rlp \<Rightarrow> crypto_ops \<Rightarrow> DomainId \<Rightarrow> bytes \<Rightarrow> u64 \<Rightarrow> Mempool
    \<Rightarrow> (QueueStatus \<times> Mempool, MempoolError) result" where
  "mempool_insert R C domain_id envelope state_nonce m =
     bind_res (ok_or UnknownDomain (bt_get (mp_chain_ids m) domain_id)) (\<lambda>chain_id.
     if length envelope > cfg_max_transaction_bytes (mp_config m)
     then Err (EnvelopeTooLarge (cfg_max_transaction_bytes (mp_config m)) (length envelope)) else
     bind_res (map_err (\<lambda>e. InvalidTransaction (Codec e)) (decode_eip1559 R envelope)) (\<lambda>transaction.
     if tx_chain_id transaction \<noteq> chain_id
     then Err (WrongChainId chain_id (tx_chain_id transaction)) else
     if tx_nonce transaction < state_nonce
     then Err (NonceTooLow state_nonce (tx_nonce transaction)) else
     bind_res (map_err InvalidTransaction (recover_eip1559_sender R C transaction)) (\<lambda>sender.
     bind_res (map_err InvalidTransaction
       (eip1559_transaction_hash R (co_keccak C) transaction)) (\<lambda>transaction_hash.
     let key = (domain_id, sender, tx_nonce transaction);
         entry = \<lparr>pe_domain_id = domain_id, pe_sender = sender,
           pe_transaction_hash = transaction_hash, pe_envelope = envelope,
           pe_transaction = transaction\<rparr> in
     case bt_get (mp_entries m) key of
       Some existing \<Rightarrow>
         if \<not> replacement_priced (pe_transaction existing) transaction
              (cfg_replacement_bump_percent (mp_config m))
         then Err ReplacementUnderpriced
         else Ok (Replaced, m\<lparr>mp_entries := bt_insert key entry (mp_entries m)\<rparr>)
     | None \<Rightarrow>
         if length (mp_entries m) \<ge> cfg_max_transactions (mp_config m) then Err Capacity else
         let sender_key = (domain_id, sender);
             sender_count = (case bt_get (mp_sender_counts m) sender_key of Some n \<Rightarrow> n | None \<Rightarrow> 0) in
         if sender_count \<ge> cfg_max_transactions_per_sender (mp_config m) then Err SenderCapacity else
         let m' = m\<lparr>mp_entries := bt_insert key entry (mp_entries m),
                    mp_sender_counts := bt_insert sender_key (sender_count + 1) (mp_sender_counts m)\<rparr> in
         Ok (if nonce_is_contiguous m' domain_id sender state_nonce (tx_nonce transaction)
             then QPending else Queued, m')))))"

function ready_from :: "(pool_key, PoolEntry) btree_map \<Rightarrow> DomainId \<Rightarrow> address \<Rightarrow> u64 \<Rightarrow> PoolEntry list" where
  "ready_from entries domain_id sender nonce =
     (case bt_get entries (domain_id, sender, nonce) of
        None \<Rightarrow> []
      | Some entry \<Rightarrow>
          entry # (case checked_add nonce 1 of
             None \<Rightarrow> []
           | Some next_nonce \<Rightarrow> ready_from entries domain_id sender next_nonce))"
  by pat_completeness auto
termination
  by (relation "measure (\<lambda>(_, _, _, nonce). 2 ^ 64 - unat nonce)")
    (auto dest: nonce_headroom_decreases)

declare ready_from.simps [simp del]

definition ready :: "Mempool \<Rightarrow> DomainId \<Rightarrow> address \<Rightarrow> u64 \<Rightarrow> PoolEntry list" where
  "ready m domain_id sender state_nonce = ready_from (mp_entries m) domain_id sender state_nonce"

definition senders :: "Mempool \<Rightarrow> DomainId \<Rightarrow> address list" where
  "senders m domain_id =
     map snd (filter (\<lambda>(candidate_domain, _). candidate_domain = domain_id)
       (bt_keys (mp_sender_counts m)))"

definition decrement_sender :: "DomainId \<Rightarrow> address \<Rightarrow> nat \<Rightarrow> Mempool \<Rightarrow> Mempool" where
  "decrement_sender domain_id sender removed m =
     (case bt_get (mp_sender_counts m) (domain_id, sender) of
        None \<Rightarrow> m
      | Some count \<Rightarrow>
          if count - removed = 0
          then m\<lparr>mp_sender_counts := bt_remove (domain_id, sender) (mp_sender_counts m)\<rparr>
          else m\<lparr>mp_sender_counts :=
                 bt_insert (domain_id, sender) (count - removed) (mp_sender_counts m)\<rparr>)"

fun reserve_keys :: "pool_key list \<Rightarrow> Mempool \<Rightarrow> PoolEntry list \<times> Mempool" where
  "reserve_keys [] m = ([], m)"
| "reserve_keys ((domain_id, sender, nonce) # keys) m =
     (case bt_get (mp_entries m) (domain_id, sender, nonce) of
        None \<Rightarrow> reserve_keys keys m
      | Some entry \<Rightarrow>
          let m' = decrement_sender domain_id sender 1
                (m\<lparr>mp_entries := bt_remove (domain_id, sender, nonce) (mp_entries m)\<rparr>);
              (reserved, m'') = reserve_keys keys m'
          in (entry # reserved, m''))"

definition entry_key :: "PoolEntry \<Rightarrow> pool_key" where
  "entry_key entry = (pe_domain_id entry, pe_sender entry, tx_nonce (pe_transaction entry))"

definition reserve_hashes :: "b256 set \<Rightarrow> Mempool \<Rightarrow> PoolEntry list \<times> Mempool" where
  "reserve_hashes hashes m =
     (let keys = map fst (filter (\<lambda>(_, entry). pe_transaction_hash entry \<in> hashes) (mp_entries m));
          (reserved, m') = reserve_keys keys m
      in (sort_key entry_key reserved, m'))"

definition restore_entry :: "PoolEntry \<Rightarrow> Mempool \<Rightarrow> Mempool" where
  "restore_entry entry m =
     (if bt_contains (mp_entries m) (entry_key entry)
         \<or> \<not> bt_contains (mp_chain_ids m) (pe_domain_id entry) then m
      else let sender_key = (pe_domain_id entry, pe_sender entry);
               count = (case bt_get (mp_sender_counts m) sender_key of Some n \<Rightarrow> n | None \<Rightarrow> 0) in
        m\<lparr>mp_sender_counts := bt_insert sender_key (count + 1) (mp_sender_counts m),
          mp_entries := bt_insert (entry_key entry) entry (mp_entries m)\<rparr>)"

definition restore_reserved :: "PoolEntry list \<Rightarrow> Mempool \<Rightarrow> Mempool" where
  "restore_reserved entries m = fold restore_entry entries m"

definition advance_nonce :: "DomainId \<Rightarrow> address \<Rightarrow> u64 \<Rightarrow> Mempool \<Rightarrow> nat \<times> Mempool" where
  "advance_nonce domain_id sender state_nonce m =
     (let keys = map fst (filter (\<lambda>(k, _).
            (domain_id, sender, 0) \<le> k \<and> k < (domain_id, sender, state_nonce)) (mp_entries m))
      in (length keys, decrement_sender domain_id sender (length keys)
            (m\<lparr>mp_entries := bt_remove_all keys (mp_entries m)\<rparr>)))"

definition mempool_len :: "Mempool \<Rightarrow> nat" where
  "mempool_len m = length (mp_entries m)"

definition mempool_is_empty :: "Mempool \<Rightarrow> bool" where
  "mempool_is_empty m \<longleftrightarrow> mp_entries m = []"

section \<open>Invariant\<close>

definition sender_len :: "DomainId \<Rightarrow> address \<Rightarrow> (pool_key, PoolEntry) btree_map \<Rightarrow> nat" where
  "sender_len d a entries = bt_count (\<lambda>(d', a', _). d' = d \<and> a' = a) entries"

definition entry_ok :: "rlp \<Rightarrow> crypto_ops \<Rightarrow> Mempool \<Rightarrow> PoolEntry \<Rightarrow> bool" where
  "entry_ok R C m e \<longleftrightarrow>
     bt_get (mp_chain_ids m) (pe_domain_id e) = Some (tx_chain_id (pe_transaction e)) \<and>
     length (pe_envelope e) \<le> cfg_max_transaction_bytes (mp_config m) \<and>
     decode_eip1559 R (pe_envelope e) = Ok (pe_transaction e) \<and>
     recover_eip1559_sender R C (pe_transaction e) = Ok (pe_sender e) \<and>
     eip1559_transaction_hash R (co_keccak C) (pe_transaction e) = Ok (pe_transaction_hash e)"

definition routing_ok :: "Mempool \<Rightarrow> bool" where
  "routing_ok m \<longleftrightarrow>
     bt_wf (mp_chain_ids m) \<and>
     mp_used_chain_ids m = {c. \<exists>d. bt_get (mp_chain_ids m) d = Some c} \<and>
     0 \<notin> mp_used_chain_ids m \<and>
     (\<forall>d d' c. bt_get (mp_chain_ids m) d = Some c \<longrightarrow> bt_get (mp_chain_ids m) d' = Some c \<longrightarrow> d = d')"

definition counts_ok :: "Mempool \<Rightarrow> bool" where
  "counts_ok m \<longleftrightarrow> bt_wf (mp_sender_counts m) \<and>
     (\<forall>d a. bt_get (mp_sender_counts m) (d, a) =
        (if sender_len d a (mp_entries m) = 0 then None else Some (sender_len d a (mp_entries m))))"

definition mempool_inv :: "rlp \<Rightarrow> crypto_ops \<Rightarrow> Mempool \<Rightarrow> bool" where
  "mempool_inv R C m \<longleftrightarrow>
     routing_ok m \<and> bt_wf (mp_entries m) \<and> counts_ok m \<and>
     (\<forall>k e. bt_get (mp_entries m) k = Some e \<longrightarrow> entry_key e = k \<and> entry_ok R C m e)"

definition mempool_bounded :: "Mempool \<Rightarrow> bool" where
  "mempool_bounded m \<longleftrightarrow>
     length (mp_entries m) \<le> cfg_max_transactions (mp_config m) \<and>
     (\<forall>d a. sender_len d a (mp_entries m) \<le> cfg_max_transactions_per_sender (mp_config m))"

lemma mempool_new_inv: "mempool_inv R C (mempool_new config)" "mempool_bounded (mempool_new config)"
  by (simp_all add: mempool_inv_def mempool_new_def routing_ok_def counts_ok_def sender_len_def
      mempool_bounded_def)

lemma counts_ok_get:
  "counts_ok m \<Longrightarrow> (case bt_get (mp_sender_counts m) (d, a) of Some n \<Rightarrow> n | None \<Rightarrow> 0) =
     sender_len d a (mp_entries m)"
  by (simp add: counts_ok_def)

lemma sender_len_insert:
  "bt_wf es \<Longrightarrow> sender_len d a (bt_insert (d', a', n) e es) =
     sender_len d a es + (if d = d' \<and> a = a' \<and> bt_get es (d', a', n) = None then 1 else 0)"
  by (auto simp: sender_len_def bt_count_insert)

lemma sender_len_remove:
  "bt_wf es \<Longrightarrow> sender_len d a (bt_remove (d', a', n) es) =
     sender_len d a es - (if d = d' \<and> a = a' \<and> bt_get es (d', a', n) \<noteq> None then 1 else 0)"
  by (auto simp: sender_len_def bt_count_remove)

lemma register_domain_inv:
  assumes "mempool_inv R C m" and "register_domain d c m = Ok m'"
  shows "mempool_inv R C m'" and "mempool_bounded m \<Longrightarrow> mempool_bounded m'"
    and "bt_get (mp_chain_ids m') d = Some c"
proof -
  have wf: "bt_wf (mp_chain_ids m)" using assms(1) by (simp add: mempool_inv_def routing_ok_def)
  consider (known) "m' = m" "bt_get (mp_chain_ids m) d = Some c"
    | (new) "bt_get (mp_chain_ids m) d = None" "c \<notin> mp_used_chain_ids m" "c \<noteq> 0"
      "m' = m\<lparr>mp_chain_ids := bt_insert d c (mp_chain_ids m),
              mp_used_chain_ids := insert c (mp_used_chain_ids m)\<rparr>"
    using assms(2) by (auto simp: register_domain_def split: if_splits option.splits)
  then have "mempool_inv R C m' \<and> (mempool_bounded m \<longrightarrow> mempool_bounded m') \<and>
      bt_get (mp_chain_ids m') d = Some c"
  proof cases
    case known
    then show ?thesis using assms(1) by simp
  next
    case new
    have "routing_ok m'"
      using assms(1) new wf bt_range_insert_new [OF wf new(1), of c]
      unfolding mempool_inv_def routing_ok_def
      by (auto simp: btree.get_insert btree.wf_insert split: if_splits)
    moreover have "entry_ok R C m e \<Longrightarrow> entry_ok R C m' e" for e
      using new wf by (auto simp: entry_ok_def btree.get_insert)
    ultimately show ?thesis
      using assms(1) new wf
      by (auto simp: mempool_inv_def counts_ok_def mempool_bounded_def btree.get_insert)
  qed
  then show "mempool_inv R C m'" and "mempool_bounded m \<Longrightarrow> mempool_bounded m'"
    and "bt_get (mp_chain_ids m') d = Some c" by simp_all
qed

text \<open>Admission of an absent key, shared by \<open>insert\<close> and \<open>restore_reserved\<close>.\<close>

definition add_entry :: "PoolEntry \<Rightarrow> Mempool \<Rightarrow> Mempool" where
  "add_entry e m =
     m\<lparr>mp_entries := bt_insert (entry_key e) e (mp_entries m),
       mp_sender_counts := bt_insert (pe_domain_id e, pe_sender e)
         (sender_len (pe_domain_id e) (pe_sender e) (mp_entries m) + 1) (mp_sender_counts m)\<rparr>"

lemma entry_ok_cong:
  "mp_chain_ids m' = mp_chain_ids m \<Longrightarrow> mp_config m' = mp_config m \<Longrightarrow>
     entry_ok R C m' e = entry_ok R C m e"
  by (simp add: entry_ok_def)

lemma routing_ok_cong:
  "mp_chain_ids m' = mp_chain_ids m \<Longrightarrow> mp_used_chain_ids m' = mp_used_chain_ids m \<Longrightarrow>
     routing_ok m' = routing_ok m"
  by (simp add: routing_ok_def)

lemma mempool_invD:
  assumes "mempool_inv R C m"
  shows "routing_ok m" and "bt_wf (mp_entries m)" and "counts_ok m"
    and "bt_get (mp_entries m) k = Some e \<Longrightarrow> entry_key e = k"
    and "bt_get (mp_entries m) k = Some e \<Longrightarrow> entry_ok R C m e"
  using assms unfolding mempool_inv_def by blast+

lemma add_entry_inv:
  assumes inv: "mempool_inv R C m" and ok: "entry_ok R C m e"
    and absent: "bt_get (mp_entries m) (entry_key e) = None"
  shows "mempool_inv R C (add_entry e m)"
proof -
  have wf: "bt_wf (mp_entries m)" "bt_wf (mp_sender_counts m)"
    using inv by (simp_all add: mempool_inv_def counts_ok_def)
  have "counts_ok (add_entry e m)"
    using inv absent wf
    by (auto simp: mempool_inv_def counts_ok_def add_entry_def entry_key_def btree.get_insert
        btree.wf_insert sender_len_insert)
  moreover have "routing_ok (add_entry e m)"
    using mempool_invD(1) [OF inv] by (subst routing_ok_cong [of _ m]) (simp_all add: add_entry_def)
  moreover have "entry_ok R C (add_entry e m) x = entry_ok R C m x" for x
    by (rule entry_ok_cong) (simp_all add: add_entry_def)
  moreover have "mp_entries (add_entry e m) = bt_insert (entry_key e) e (mp_entries m)"
    by (simp add: add_entry_def)
  ultimately show ?thesis
    using inv ok wf unfolding mempool_inv_def by (auto simp: btree.get_insert btree.wf_insert)
qed

lemma replace_entry_inv:
  assumes inv: "mempool_inv R C m" and ok: "entry_ok R C m e"
    and present: "bt_get (mp_entries m) (entry_key e) \<noteq> None"
  defines "m' \<equiv> m\<lparr>mp_entries := bt_insert (entry_key e) e (mp_entries m)\<rparr>"
  shows "mempool_inv R C m'" and "mempool_bounded m \<Longrightarrow> mempool_bounded m'"
proof -
  have wf: "bt_wf (mp_entries m)" using inv by (simp add: mempool_inv_def)
  have len: "sender_len d a (mp_entries m') = sender_len d a (mp_entries m)" for d a
    using present wf by (auto simp: m'_def sender_len_insert entry_key_def)
  then have "counts_ok m'" using inv by (simp add: mempool_inv_def counts_ok_def m'_def)
  moreover have "routing_ok m'"
    using mempool_invD(1) [OF inv] by (subst routing_ok_cong [of _ m]) (simp_all add: m'_def)
  moreover have "entry_ok R C m' x = entry_ok R C m x" for x
    by (rule entry_ok_cong) (simp_all add: m'_def)
  moreover have "mp_entries m' = bt_insert (entry_key e) e (mp_entries m)"
    by (simp add: m'_def)
  ultimately show "mempool_inv R C m'"
    using inv ok wf unfolding mempool_inv_def by (auto simp: btree.get_insert btree.wf_insert)
  show "mempool_bounded m \<Longrightarrow> mempool_bounded m'"
    using len present wf by (auto simp: mempool_bounded_def m'_def length_bt_insert)
qed

text \<open>Everything an accepted insertion tells.\<close>

lemma mempool_insert_cases:
  assumes "mempool_insert R C d env n m = Ok (st, m')" and "mempool_inv R C m"
  obtains (replaced) e old where "entry_ok R C m e" "pe_domain_id e = d" "pe_envelope e = env"
      "n \<le> tx_nonce (pe_transaction e)"
      "bt_get (mp_entries m) (entry_key e) = Some old"
      "replacement_priced (pe_transaction old) (pe_transaction e)
         (cfg_replacement_bump_percent (mp_config m))"
      "st = Replaced" "m' = m\<lparr>mp_entries := bt_insert (entry_key e) e (mp_entries m)\<rparr>"
  | (added) e where "entry_ok R C m e" "pe_domain_id e = d" "pe_envelope e = env"
      "n \<le> tx_nonce (pe_transaction e)"
      "bt_get (mp_entries m) (entry_key e) = None"
      "length (mp_entries m) < cfg_max_transactions (mp_config m)"
      "sender_len d (pe_sender e) (mp_entries m) < cfg_max_transactions_per_sender (mp_config m)"
      "st = (if nonce_is_contiguous m' d (pe_sender e) n (tx_nonce (pe_transaction e))
             then QPending else Queued)" "m' = add_entry e m"
proof -
  have counts: "counts_ok m" using assms(2) by (simp add: mempool_inv_def)
  obtain t a h where t: "bt_get (mp_chain_ids m) d = Some (tx_chain_id t)"
    "length env \<le> cfg_max_transaction_bytes (mp_config m)" "decode_eip1559 R env = Ok t"
    "n \<le> tx_nonce t" "recover_eip1559_sender R C t = Ok a"
    "eip1559_transaction_hash R (co_keccak C) t = Ok h"
    and rest: "(let key = (d, a, tx_nonce t);
         entry = \<lparr>pe_domain_id = d, pe_sender = a, pe_transaction_hash = h, pe_envelope = env,
           pe_transaction = t\<rparr> in
       case bt_get (mp_entries m) key of
       Some existing \<Rightarrow>
         if \<not> replacement_priced (pe_transaction existing) t
              (cfg_replacement_bump_percent (mp_config m))
         then Err ReplacementUnderpriced
         else Ok (Replaced, m\<lparr>mp_entries := bt_insert key entry (mp_entries m)\<rparr>)
     | None \<Rightarrow>
         if length (mp_entries m) \<ge> cfg_max_transactions (mp_config m) then Err Capacity else
         let sender_key = (d, a);
             sender_count = (case bt_get (mp_sender_counts m) sender_key of Some n \<Rightarrow> n | None \<Rightarrow> 0) in
         if sender_count \<ge> cfg_max_transactions_per_sender (mp_config m) then Err SenderCapacity else
         let m' = m\<lparr>mp_entries := bt_insert key entry (mp_entries m),
                    mp_sender_counts := bt_insert sender_key (sender_count + 1) (mp_sender_counts m)\<rparr> in
         Ok (if nonce_is_contiguous m' d a n (tx_nonce t)
             then QPending else Queued, m')) = Ok (st, m')"
    using assms(1) unfolding mempool_insert_def if_Err_exact bind_res_eq_Ok
    by (auto simp: not_less simp del: Let_def)
  define e where "e = \<lparr>pe_domain_id = d, pe_sender = a, pe_transaction_hash = h,
    pe_envelope = env, pe_transaction = t\<rparr>"
  have e: "entry_ok R C m e" "pe_domain_id e = d" "pe_envelope e = env" "pe_transaction e = t"
    "entry_key e = (d, a, tx_nonce t)" "pe_sender e = a"
    using t by (simp_all add: e_def entry_ok_def entry_key_def)
  show thesis
  proof (cases "bt_get (mp_entries m) (entry_key e)")
    case (Some old)
    then show thesis using rest e t by (intro replaced [of e old]) (auto simp: e_def split: if_splits)
  next
    case None
    then show thesis
      using rest e t counts_ok_get [OF counts, of d a]
      by (intro added [of e]) (auto simp: e_def [symmetric] add_entry_def Let_def split: if_splits)
  qed
qed

lemma mempool_insert_inv:
  assumes "mempool_inv R C m" and "mempool_insert R C d env n m = Ok (st, m')"
  shows "mempool_inv R C m'" and "mempool_bounded m \<Longrightarrow> mempool_bounded m'"
proof -
  have "mempool_inv R C m' \<and> (mempool_bounded m \<longrightarrow> mempool_bounded m')"
    using assms(2,1)
  proof (cases rule: mempool_insert_cases)
    case (replaced e old)
    then show ?thesis using replace_entry_inv [OF assms(1) replaced(1)] by simp
  next
    case (added e)
    have "mempool_bounded m \<Longrightarrow> mempool_bounded m'"
      using added mempool_invD(2) [OF assms(1)]
      by (auto simp: mempool_bounded_def add_entry_def length_bt_insert entry_key_def sender_len_insert)
    then show ?thesis using add_entry_inv [OF assms(1) added(1,5)] added by blast
  qed
  then show "mempool_inv R C m'" and "mempool_bounded m \<Longrightarrow> mempool_bounded m'" by simp_all
qed

section \<open>Removal, reservation and restoration\<close>

lemma decrement_sender_same [simp]:
  "mp_config (decrement_sender d a r m) = mp_config m"
  "mp_chain_ids (decrement_sender d a r m) = mp_chain_ids m"
  "mp_used_chain_ids (decrement_sender d a r m) = mp_used_chain_ids m"
  "mp_entries (decrement_sender d a r m) = mp_entries m"
  by (simp_all add: decrement_sender_def split: option.splits)

lemma decrement_sender_counts:
  assumes "bt_wf (mp_sender_counts m)"
  shows "bt_wf (mp_sender_counts (decrement_sender d a r m))"
    and "bt_get (mp_sender_counts (decrement_sender d a r m)) k =
      (if k = (d, a) then (case bt_get (mp_sender_counts m) k of None \<Rightarrow> None
         | Some c \<Rightarrow> if c - r = 0 then None else Some (c - r))
       else bt_get (mp_sender_counts m) k)"
  using assms
  by (auto simp: decrement_sender_def btree.get_insert btree.get_remove btree.wf_insert
      btree.wf_remove split: option.splits)

text \<open>
  Removing entries of one sender and lowering that sender's count by their number keeps the
  invariant.
\<close>

lemma remove_entries_inv:
  assumes inv: "mempool_inv R C m" and wf: "bt_wf es"
    and sub: "\<And>k e. bt_get es k = Some e \<Longrightarrow> bt_get (mp_entries m) k = Some e"
    and len: "\<And>d' a'. sender_len d' a' es =
      sender_len d' a' (mp_entries m) - (if d' = d \<and> a' = a then r else 0)"
  shows "mempool_inv R C (decrement_sender d a r (m\<lparr>mp_entries := es\<rparr>))"
proof -
  let ?m = "decrement_sender d a r (m\<lparr>mp_entries := es\<rparr>)"
  have counts: "bt_wf (mp_sender_counts (m\<lparr>mp_entries := es\<rparr>))"
    using mempool_invD(3) [OF inv] by (simp add: counts_ok_def)
  have "counts_ok ?m"
    using mempool_invD(3) [OF inv] len decrement_sender_counts [OF counts]
    by (auto simp: counts_ok_def)
  moreover have "routing_ok ?m"
    using mempool_invD(1) [OF inv] by (subst routing_ok_cong [of _ m]) simp_all
  moreover have "entry_ok R C ?m e = entry_ok R C m e" for e
    by (rule entry_ok_cong) simp_all
  ultimately show ?thesis
    unfolding mempool_inv_def using mempool_invD(4,5) [OF inv] sub wf
    by (simp only: decrement_sender_same) (simp, blast)
qed

lemma reserve_one_inv:
  assumes inv: "mempool_inv R C m" and "bt_get (mp_entries m) (d, a, n) = Some e"
  shows "mempool_inv R C (decrement_sender d a 1 (m\<lparr>mp_entries := bt_remove (d, a, n) (mp_entries m)\<rparr>))"
  using assms mempool_invD(2) [OF inv]
  by (intro remove_entries_inv)
    (auto simp: btree.wf_remove btree.get_remove sender_len_remove split: if_splits)

lemma reserve_keys_spec:
  assumes "mempool_inv R C m" and "distinct ks" and "\<forall>k \<in> set ks. bt_get (mp_entries m) k \<noteq> None"
    and "reserve_keys ks m = (es, m')"
  shows "mempool_inv R C m' \<and> mp_config m' = mp_config m \<and> mp_chain_ids m' = mp_chain_ids m \<and>
    mp_used_chain_ids m' = mp_used_chain_ids m \<and> mp_entries m' = bt_remove_all ks (mp_entries m) \<and>
    map Some es = map (bt_get (mp_entries m)) ks"
  using assms
proof (induction ks m arbitrary: es m' rule: reserve_keys.induct)
  case (1 m)
  then show ?case by (simp add: bt_remove_all_def)
next
  case (2 d a n ks m)
  obtain e where e: "bt_get (mp_entries m) (d, a, n) = Some e" using 2(5) by auto
  let ?m = "decrement_sender d a 1 (m\<lparr>mp_entries := bt_remove (d, a, n) (mp_entries m)\<rparr>)"
  obtain es' where r: "reserve_keys ks ?m = (es', m')" "es = e # es'"
    using 2(6) e by (auto simp: Let_def split: prod.splits)
  have "mempool_inv R C ?m" using 2(3) e by (rule reserve_one_inv)
  moreover have "\<forall>k \<in> set ks. bt_get (mp_entries ?m) k = bt_get (mp_entries m) k"
    using 2(4) by (auto simp: btree.get_remove)
  moreover from this have "\<forall>k \<in> set ks. bt_get (mp_entries ?m) k \<noteq> None"
    using 2(5) by (auto simp del: not_None_eq)
  ultimately show ?case
    using 2(2) [OF e refl _ _ _ r(1)] 2(4) r e
    by (auto simp: bt_remove_all_def)
qed

definition hash_keys :: "b256 set \<Rightarrow> (pool_key, PoolEntry) btree_map \<Rightarrow> pool_key list" where
  "hash_keys H es = map fst (filter (\<lambda>(_, e). pe_transaction_hash e \<in> H) es)"

lemma hash_keys_props:
  assumes "bt_wf es"
  shows "distinct (hash_keys H es)"
    and "k \<in> set (hash_keys H es) \<longleftrightarrow> (\<exists>e. bt_get es k = Some e \<and> pe_transaction_hash e \<in> H)"
proof -
  show "distinct (hash_keys H es)"
    unfolding hash_keys_def by (rule bt_wf_distinct) (rule bt_wf_filter [OF assms])
  show "k \<in> set (hash_keys H es) \<longleftrightarrow> (\<exists>e. bt_get es k = Some e \<and> pe_transaction_hash e \<in> H)"
    unfolding hash_keys_def bt_get_eq_Some [OF assms] by force
qed

lemma reserve_hashes_spec:
  assumes inv: "mempool_inv R C m" and "reserve_hashes H m = (es, m')"
  shows "mempool_inv R C m'"
    and "mp_config m' = mp_config m" and "mp_chain_ids m' = mp_chain_ids m"
    and "mp_used_chain_ids m' = mp_used_chain_ids m"
    and "bt_get (mp_entries m') k =
      (case bt_get (mp_entries m) k of Some e \<Rightarrow> if pe_transaction_hash e \<in> H then None else Some e
       | None \<Rightarrow> None)"
    and "e \<in> set es \<longleftrightarrow> bt_get (mp_entries m) (entry_key e) = Some e \<and> pe_transaction_hash e \<in> H"
    and "sorted_wrt (<) (map entry_key es)"
proof -
  let ?ks = "hash_keys H (mp_entries m)"
  note wf = mempool_invD(2) [OF inv]
  note keys = hash_keys_props(1) [OF wf, of H] hash_keys_props(2) [OF wf, where H = H]
  obtain rs where rs: "reserve_keys ?ks m = (rs, m')" "es = sort_key entry_key rs"
    using assms(2) by (auto simp: reserve_hashes_def hash_keys_def Let_def split: prod.splits)
  have spec: "mempool_inv R C m' \<and> mp_config m' = mp_config m \<and> mp_chain_ids m' = mp_chain_ids m \<and>
    mp_used_chain_ids m' = mp_used_chain_ids m \<and> mp_entries m' = bt_remove_all ?ks (mp_entries m) \<and>
    map Some rs = map (bt_get (mp_entries m)) ?ks"
    by (rule reserve_keys_spec [OF inv keys(1) _ rs(1)]) (auto simp: keys(2))
  then show "mempool_inv R C m'" "mp_config m' = mp_config m" "mp_chain_ids m' = mp_chain_ids m"
    "mp_used_chain_ids m' = mp_used_chain_ids m" by simp_all
  show "bt_get (mp_entries m') k =
      (case bt_get (mp_entries m) k of Some e \<Rightarrow> if pe_transaction_hash e \<in> H then None else Some e
       | None \<Rightarrow> None)"
    using spec keys(2) [of k] by (auto simp: bt_get_remove_all wf split: option.splits)
  have "Some ` set rs = bt_get (mp_entries m) ` set ?ks"
    using spec by (metis list.set_map)
  then have mem: "e \<in> set rs \<longleftrightarrow> (\<exists>k \<in> set ?ks. bt_get (mp_entries m) k = Some e)" for e
    by (metis (no_types, lifting) image_iff option.inject)
  show "e \<in> set es \<longleftrightarrow> bt_get (mp_entries m) (entry_key e) = Some e \<and> pe_transaction_hash e \<in> H"
  proof -
    have "e \<in> set rs \<longleftrightarrow> entry_key e \<in> set ?ks \<and> bt_get (mp_entries m) (entry_key e) = Some e"
      using mem [of e] mempool_invD(4) [OF inv, of _ e] by blast
    then show ?thesis using keys(2) [of "entry_key e"] rs(2) by auto
  qed
  have "map entry_key rs = ?ks"
  proof (rule nth_equalityI)
    show len: "length (map entry_key rs) = length ?ks"
      using spec by (metis length_map)
    fix i assume "i < length (map entry_key rs)"
    then have "bt_get (mp_entries m) (?ks ! i) = Some (rs ! i)"
      using spec len by (metis length_map nth_map)
    then show "map entry_key rs ! i = ?ks ! i"
      using mempool_invD(4) [OF inv] \<open>i < length (map entry_key rs)\<close> by simp
  qed
  then have "distinct (map entry_key es)"
    using keys(1) rs(2) by (metis distinct_map distinct_sort set_sort)
  then show "sorted_wrt (<) (map entry_key es)"
    using rs(2) by (simp add: strict_sorted_iff)
qed

lemma restore_entry_same [simp]:
  "mp_config (restore_entry e m) = mp_config m" "mp_chain_ids (restore_entry e m) = mp_chain_ids m"
  "mp_used_chain_ids (restore_entry e m) = mp_used_chain_ids m"
  by (simp_all add: restore_entry_def Let_def)

lemma restore_reserved_same [simp]:
  "mp_config (restore_reserved es m) = mp_config m"
  "mp_chain_ids (restore_reserved es m) = mp_chain_ids m"
  "mp_used_chain_ids (restore_reserved es m) = mp_used_chain_ids m"
  by (induction es arbitrary: m) (simp_all add: restore_reserved_def)

lemma restore_entry_add:
  assumes "mempool_inv R C m"
  shows "restore_entry e m =
    (if bt_contains (mp_entries m) (entry_key e) \<or> \<not> bt_contains (mp_chain_ids m) (pe_domain_id e)
     then m else add_entry e m)"
  using counts_ok_get [OF mempool_invD(3) [OF assms], of "pe_domain_id e" "pe_sender e"]
  by (simp add: restore_entry_def add_entry_def Let_def)

lemma restore_reserved_spec:
  assumes "mempool_inv R C m" and "\<forall>e \<in> set es. entry_ok R C m e"
  shows "mempool_inv R C (restore_reserved es m) \<and>
    (\<forall>k. bt_get (mp_entries (restore_reserved es m)) k =
      (case bt_get (mp_entries m) k of Some e \<Rightarrow> Some e
       | None \<Rightarrow> map_of (map (\<lambda>e. (entry_key e, e)) es) k))"
  using assms
proof (induction es arbitrary: m)
  case Nil
  then show ?case by (auto simp: restore_reserved_def split: option.splits)
next
  case (Cons e es)
  have registered: "bt_contains (mp_chain_ids m) (pe_domain_id e)"
    using Cons.prems(2) by (simp add: entry_ok_def bt_contains_def)
  have inv: "mempool_inv R C (restore_entry e m)"
    using Cons.prems add_entry_inv [of R C m e]
    by (auto simp: restore_entry_add [OF Cons.prems(1)] bt_contains_def)
  have "\<forall>x \<in> set es. entry_ok R C (restore_entry e m) x"
    using Cons.prems(2) entry_ok_cong [of "restore_entry e m" m] by simp
  note IH = Cons.IH [OF inv this]
  have "bt_get (mp_entries (restore_entry e m)) k =
      (case bt_get (mp_entries m) k of Some x \<Rightarrow> Some x
       | None \<Rightarrow> if k = entry_key e then Some e else None)" for k
    using registered mempool_invD(2) [OF Cons.prems(1)]
    by (auto simp: restore_entry_add [OF Cons.prems(1)] bt_contains_def add_entry_def
        btree.get_insert split: option.splits)
  then show ?case
    using IH by (auto simp: restore_reserved_def split: option.splits)
qed

lemma mempool_eqI:
  assumes "mempool_inv R C m" and "mempool_inv R C m'"
    and "mp_config m' = mp_config m" and "mp_chain_ids m' = mp_chain_ids m"
    and "mp_used_chain_ids m' = mp_used_chain_ids m"
    and "\<And>k. bt_get (mp_entries m') k = bt_get (mp_entries m) k"
  shows "m' = m"
proof -
  have entries: "mp_entries m' = mp_entries m"
    using assms(6) mempool_invD(2) [OF assms(1)] mempool_invD(2) [OF assms(2)] by (intro bt_eqI)
  have "mp_sender_counts m' = mp_sender_counts m"
  proof (rule bt_eqI)
    show "bt_wf (mp_sender_counts m')" "bt_wf (mp_sender_counts m)"
      using mempool_invD(3) [OF assms(1)] mempool_invD(3) [OF assms(2)]
      by (simp_all add: counts_ok_def)
    show "bt_get (mp_sender_counts m') k = bt_get (mp_sender_counts m) k" for k
      using mempool_invD(3) [OF assms(1)] mempool_invD(3) [OF assms(2)] entries
      by (cases k) (simp add: counts_ok_def)
  qed
  with assms(3-5) entries show ?thesis by simp
qed

lemma nonce_range:
  fixes d d' :: DomainId and a a' :: address and n n' :: u64
  shows "(d, a, 0) \<le> (d', a', n') \<and> (d', a', n') < (d, a, n) \<longleftrightarrow> d' = d \<and> a' = a \<and> n' < n"
  by (auto simp: less_eq_prod_def less_prod_def)

lemma advance_nonce_spec:
  assumes inv: "mempool_inv R C m" and "advance_nonce d a n m = (count, m')"
  shows "mempool_inv R C m'"
    and "bt_get (mp_entries m') k =
      (if fst k = d \<and> fst (snd k) = a \<and> snd (snd k) < n then None else bt_get (mp_entries m) k)"
    and "count + length (mp_entries m') = length (mp_entries m)"
    and "mp_config m' = mp_config m" and "mp_chain_ids m' = mp_chain_ids m"
proof -
  let ?P = "\<lambda>k :: pool_key. fst k = d \<and> fst (snd k) = a \<and> snd (snd k) < n"
  define ks where "ks = map fst (filter (\<lambda>(k, _). ?P k) (mp_entries m))"
  note wf = mempool_invD(2) [OF inv]
  have "(\<lambda>(k, _). (d, a, 0) \<le> k \<and> k < (d, a, n)) = (\<lambda>(k, _ :: PoolEntry). ?P k)"
    using nonce_range by fastforce
  then have m': "m' = decrement_sender d a (length ks)
      (m\<lparr>mp_entries := bt_remove_all ks (mp_entries m)\<rparr>)" and count: "count = length ks"
    using assms(2) by (auto simp: advance_nonce_def ks_def Let_def)
  have dist: "distinct ks"
    unfolding ks_def by (rule bt_wf_distinct) (rule bt_wf_filter [OF wf])
  have mem: "k \<in> set ks \<longleftrightarrow> ?P k \<and> bt_get (mp_entries m) k \<noteq> None" for k
    unfolding ks_def using bt_get_eq_Some [OF wf, of k] by (cases "bt_get (mp_entries m) k") force+
  have "{k \<in> set ks. (case k of (d', a', _) \<Rightarrow> d' = x \<and> a' = y) \<and> bt_get (mp_entries m) k \<noteq> None} =
      (if x = d \<and> y = a then set ks else {})" for x y
    using mem by auto
  then have "sender_len x y (bt_remove_all ks (mp_entries m)) =
      sender_len x y (mp_entries m) - (if x = d \<and> y = a then length ks else 0)" for x y
    unfolding sender_len_def bt_count_remove_all [OF wf] by (simp add: distinct_card dist)
  then show "mempool_inv R C m'"
    unfolding m' using inv wf
    by (intro remove_entries_inv) (auto simp: bt_wf_remove_all bt_get_remove_all split: if_splits)
  show "bt_get (mp_entries m') k = (if ?P k then None else bt_get (mp_entries m) k)"
    using mem [of k] by (auto simp: m' bt_get_remove_all wf)
  have "length (filter (\<lambda>(k, _). ?P k) (mp_entries m)) +
      length (filter (\<lambda>x. \<not> (\<lambda>(k, _). ?P k) x) (mp_entries m)) = length (mp_entries m)"
    by (rule sum_length_filter_compl)
  moreover have "filter (\<lambda>(k, _). k \<notin> set ks) (mp_entries m) =
      filter (\<lambda>x. \<not> (\<lambda>(k, _). ?P k) x) (mp_entries m)"
    using mem bt_get_eq_Some [OF wf] by (intro filter_cong) auto
  ultimately show "count + length (mp_entries m') = length (mp_entries m)"
    by (simp add: m' count bt_remove_all_filter) (simp add: ks_def)
qed (use assms(2) in \<open>auto simp: advance_nonce_def Let_def\<close>)

section \<open>Queries\<close>

lemma ready_from_spec:
  defines "at \<equiv> \<lambda>n i. n + word_of_nat i :: u64"
  shows "(\<forall>i < length (ready_from es d a n). bt_get es (d, a, at n i) = Some (ready_from es d a n ! i)) \<and>
    unat n + length (ready_from es d a n) \<le> 2 ^ 64 \<and>
    (unat n + length (ready_from es d a n) < 2 ^ 64 \<longrightarrow>
      bt_get es (d, a, at n (length (ready_from es d a n))) = None)"
proof (induction es d a n rule: ready_from.induct)
  case (1 es d a n)
  show ?case
  proof (cases "bt_get es (d, a, n)")
    case None
    then show ?thesis using unat_less_exp [of n] by (simp add: ready_from.simps at_def)
  next
    case (Some e)
    show ?thesis
    proof (cases "checked_add n 1")
      case None
      then have "unat n + 1 = 2 ^ 64"
        using unat_less_exp [of n] by (auto simp: checked_add_def split: if_splits)
      then show ?thesis using Some None by (simp add: ready_from.simps at_def)
    next
      case (Some n')
      have un: "unat n' = unat n + 1" using Some by (simp add: checked_simps)
      have n': "n' = n + 1" using Some by (auto simp: checked_add_def split: if_splits)
      have at: "at n (Suc i) = at n' i" and at0: "at n 0 = n" for i by (simp_all add: at_def n')
      note IH = 1 [OF \<open>bt_get es (d, a, n) = Some e\<close> Some]
      have r: "ready_from es d a n = e # ready_from es d a n'"
        using Some \<open>bt_get es (d, a, n) = Some e\<close> by (simp add: ready_from.simps)
      have "bt_get es (d, a, at n i) = Some ((e # ready_from es d a n') ! i)"
        if "i < Suc (length (ready_from es d a n'))" for i
        using that IH \<open>bt_get es (d, a, n) = Some e\<close>
        by (cases i) (auto simp: at at0)
      then show ?thesis using IH un by (simp add: r at)
    qed
  qed
qed

lemma contiguous_iff:
  "contiguous es d a n t \<longleftrightarrow> (\<forall>x. n \<le> x \<and> x \<le> t \<longrightarrow> bt_contains es (d, a, x))"
proof (induction es d a n t rule: contiguous.induct)
  case (1 es d a n t)
  show ?case
  proof (cases "n < t")
    case True
    have step: "n \<le> x \<and> x \<le> t \<longleftrightarrow> (x = n \<or> n + 1 \<le> x \<and> x \<le> t)" for x
      using unat_succ [OF True] True
      by (auto simp: word_le_nat_alt word_less_nat_alt word_unat_eq_iff)
    have "contiguous es d a n t \<longleftrightarrow> bt_contains es (d, a, n) \<and> contiguous es d a (n + 1) t"
      using True by (subst contiguous.simps) auto
    also have "\<dots> \<longleftrightarrow> bt_contains es (d, a, n) \<and>
        (\<forall>x. n + 1 \<le> x \<and> x \<le> t \<longrightarrow> bt_contains es (d, a, x))"
      using True 1 by (cases "bt_contains es (d, a, n)") (auto simp: not_less)
    finally show ?thesis unfolding step by blast
  next
    case False
    then show ?thesis by (subst contiguous.simps) (auto simp: not_less)
  qed
qed

lemma sorted_filter_snd:
  "sorted_wrt (<) ks \<Longrightarrow> sorted_wrt (<) (map snd (filter (\<lambda>(x, _). x = d) (ks :: ('a::linorder \<times> 'b::linorder) list)))"
  by (induction ks) (auto simp: less_prod_def)

lemma senders_spec:
  assumes inv: "mempool_inv R C m"
  shows "sorted_wrt (<) (senders m d)"
    and "a \<in> set (senders m d) \<longleftrightarrow> (\<exists>n. bt_get (mp_entries m) (d, a, n) \<noteq> None)"
proof -
  note counts = mempool_invD(3) [OF inv] and wf = mempool_invD(2) [OF inv]
  show "sorted_wrt (<) (senders m d)"
    unfolding senders_def using counts
    by (intro sorted_filter_snd btree.keys_sorted) (simp add: counts_ok_def)
  have "a \<in> set (senders m d) \<longleftrightarrow> bt_get (mp_sender_counts m) (d, a) \<noteq> None"
    using btree.set_keys [of "mp_sender_counts m"] by (force simp: senders_def)
  also have "\<dots> \<longleftrightarrow> sender_len d a (mp_entries m) \<noteq> 0"
    using counts by (simp add: counts_ok_def)
  also have "\<dots> \<longleftrightarrow> (\<exists>n. bt_get (mp_entries m) (d, a, n) \<noteq> None)"
    by (auto simp: sender_len_def bt_count_pos [OF wf])
  finally show "a \<in> set (senders m d) \<longleftrightarrow> (\<exists>n. bt_get (mp_entries m) (d, a, n) \<noteq> None)" .
qed

section \<open>Replacement fees\<close>

lemma ceil_div_100: "(k + 99) div 100 = (if k mod 100 = 0 then k div 100 else k div 100 + (1 :: nat))"
proof -
  have "(k + 99) div 100 = k div 100 + (k mod 100 + 99) div 100"
    using div_add1_eq [of k 99 100] by simp
  also have "(k mod 100 + 99) div 100 = (if k mod 100 = 0 then 0 else 1)"
    using mod_less_divisor [of 100 k] by (auto intro: div_nat_eqI)
  finally show ?thesis by simp
qed

lemma unat_div_ceil_100: "unat (div_ceil (a :: u128) 100) = (unat a + 99) div 100"
proof -
  have "unat (a div 100) + 1 < 2 ^ 128"
    using unat_less_exp [of a] by (simp add: unat_div)
  then have "unat (a div 100 + 1) = unat a div 100 + 1"
    using unat_plus_fits [of "a div 100" 1] by (simp add: unat_div)
  moreover have "a mod 100 = 0 \<longleftrightarrow> unat a mod 100 = 0"
    by (simp add: word_unat_eq_iff unat_mod)
  moreover have "unat a mod 100 = 0 \<Longrightarrow> (unat a + 99) div 100 = unat a div 100"
    and "unat a mod 100 \<noteq> 0 \<Longrightarrow> (unat a + 99) div 100 = unat a div 100 + 1"
    using ceil_div_100 [of "unat a"] by simp_all
  ultimately show ?thesis
    by (auto simp: div_ceil_def unat_div)
qed

lemma unat_ucast_percent: "unat (ucast (p :: u8) :: u128) = unat p"
  by transfer (simp add: take_bit_take_bit min_def)

lemma ceil_split:
  fixes V P q r :: nat
  assumes "V = 100 * q + r"
  shows "(V * P + 99) div 100 = q * P + (r * P + 99) div 100"
proof -
  have "V * P + 99 = (r * P + 99) + 100 * (q * P)" by (simp add: assms algebra_simps)
  then show ?thesis using div_mult_self2 [of 100 "r * P + 99" "q * P"] by simp
qed

lemma unat_replacement_min:
  "unat (replacement_min v p) = min (unat v + (unat v * unat p + 99) div 100) (2 ^ 128 - 1)"
proof -
  let ?q = "unat v div 100" and ?r = "unat v mod 100" and ?p = "unat p" and ?M = "2 ^ 128 - 1 :: nat"
  have "?p \<le> 255" "?r \<le> 99" using unat_byte_less [of p] by linarith+
  then have "?r * ?p \<le> 99 * 255" by (intro mult_le_mono)
  then have small: "min (?r * ?p) ?M = ?r * ?p" by simp
  have "(unat v * ?p + 99) div 100 = ?q * ?p + (?r * ?p + 99) div 100"
    by (rule ceil_split) simp
  moreover have "unat (replacement_min v p) =
      min (unat v + min (min (?q * ?p) ?M + (min (?r * ?p) ?M + 99) div 100) ?M) ?M"
    unfolding replacement_min_def Let_def unat_saturating_add unat_saturating_mul unat_div_ceil_100
      unat_ucast_percent
    by (simp only: unat_div unat_mod) simp
  ultimately show ?thesis unfolding small by (simp only: min_def) auto
qed

section \<open>Runs of the pool\<close>

text \<open>
  The pools a caller can reach, with the entries it has been handed by \<open>reserve_hashes\<close> and may
  give back. The flag records whether any reservation has been restored.
\<close>

inductive pool_run :: "rlp \<Rightarrow> crypto_ops \<Rightarrow> MempoolConfig \<Rightarrow> bool \<Rightarrow> Mempool \<Rightarrow> PoolEntry set \<Rightarrow> bool"
  for R C config where
  run_new: "pool_run R C config False (mempool_new config) {}"
| run_register: "pool_run R C config b m S \<Longrightarrow> register_domain d c m = Ok m' \<Longrightarrow>
    pool_run R C config b m' S"
| run_insert: "pool_run R C config b m S \<Longrightarrow> mempool_insert R C d env n m = Ok (st, m') \<Longrightarrow>
    pool_run R C config b m' S"
| run_advance: "pool_run R C config b m S \<Longrightarrow> advance_nonce d a n m = (count, m') \<Longrightarrow>
    pool_run R C config b m' S"
| run_reserve: "pool_run R C config b m S \<Longrightarrow> reserve_hashes H m = (es, m') \<Longrightarrow>
    pool_run R C config b m' (S \<union> set es)"
| run_restore: "pool_run R C config b m S \<Longrightarrow> set es \<subseteq> S \<Longrightarrow>
    pool_run R C config True (restore_reserved es m) S"

lemma entry_ok_mono:
  assumes "entry_ok R C m e" and "mp_config m' = mp_config m"
    and "\<And>d c. bt_get (mp_chain_ids m) d = Some c \<Longrightarrow> bt_get (mp_chain_ids m') d = Some c"
  shows "entry_ok R C m' e"
  using assms by (simp add: entry_ok_def)

lemma register_domain_routes:
  assumes "bt_wf (mp_chain_ids m)" and "register_domain d c m = Ok m'"
  shows "mp_config m' = mp_config m"
    and "bt_get (mp_chain_ids m) d' = Some c' \<Longrightarrow> bt_get (mp_chain_ids m') d' = Some c'"
  using assms by (auto simp: register_domain_def btree.get_insert split: if_splits option.splits)

lemma mempool_insert_same:
  assumes "mempool_insert R C d env n m = Ok (st, m')" and "mempool_inv R C m"
  shows "mp_config m' = mp_config m" and "mp_chain_ids m' = mp_chain_ids m"
  using assms by (auto elim!: mempool_insert_cases simp: add_entry_def)

lemma pool_run_inv:
  "pool_run R C config b m S \<Longrightarrow> mempool_inv R C m \<and> (\<forall>e \<in> S. entry_ok R C m e)"
proof (induction rule: pool_run.induct)
  case run_new
  then show ?case by (simp add: mempool_new_inv)
next
  case (run_register b m S d c m')
  then have "bt_wf (mp_chain_ids m)" by (simp add: mempool_inv_def routing_ok_def)
  note routes = register_domain_routes [OF this run_register.hyps(2)]
  have "entry_ok R C m e \<Longrightarrow> entry_ok R C m' e" for e
    using routes by (simp add: entry_ok_mono [of R C m e m'])
  with run_register show ?case using register_domain_inv(1) by blast
next
  case (run_insert b m S d env n st m')
  then have inv: "mempool_inv R C m" by simp
  have "entry_ok R C m' e = entry_ok R C m e" for e
    using mempool_insert_same [OF run_insert.hyps(2) inv] by (intro entry_ok_cong)
  with run_insert inv show ?case by (simp add: mempool_insert_inv(1))
next
  case (run_advance b m S d a n count m')
  then have inv: "mempool_inv R C m" by simp
  note spec = advance_nonce_spec [OF inv run_advance.hyps(2)]
  have "entry_ok R C m' e = entry_ok R C m e" for e
    using spec(4,5) by (intro entry_ok_cong)
  with run_advance spec(1) show ?case by simp
next
  case (run_reserve b m S H es m')
  note r = reserve_hashes_spec [OF conjunct1 [OF run_reserve.IH] run_reserve.hyps(2)]
  have "entry_ok R C m' e = entry_ok R C m e" for e using r(2,3) by (intro entry_ok_cong)
  then show ?case
    using run_reserve r(1) r(6) mempool_invD(5) [OF conjunct1 [OF run_reserve.IH]] by blast
next
  case (run_restore b m S es)
  then have "mempool_inv R C (restore_reserved es m)" using restore_reserved_spec by blast
  moreover have "entry_ok R C (restore_reserved es m) e = entry_ok R C m e" for e
    by (rule entry_ok_cong) simp_all
  ultimately show ?case using run_restore by simp
qed

lemma mempool_bounded_shrink:
  assumes "mempool_bounded m" and "mempool_inv R C m" and "mempool_inv R C m'"
    and "mp_config m' = mp_config m"
    and "\<And>k. bt_get (mp_entries m) k = None \<Longrightarrow> bt_get (mp_entries m') k = None"
  shows "mempool_bounded m'"
proof -
  note wf = mempool_invD(2) [OF assms(2)] mempool_invD(2) [OF assms(3)]
  have "length (mp_entries m') \<le> length (mp_entries m)"
    using wf assms(5) by (rule bt_length_mono)
  moreover have "sender_len d a (mp_entries m') \<le> sender_len d a (mp_entries m)" for d a
    unfolding sender_len_def using wf assms(5) by (rule bt_count_mono)
  ultimately show ?thesis
    using assms(1,4) unfolding mempool_bounded_def by (metis le_trans)
qed

lemma pool_run_bounded: "pool_run R C config b m S \<Longrightarrow> \<not> b \<Longrightarrow> mempool_bounded m"
proof (induction rule: pool_run.induct)
  case (run_register b m S d c m')
  then show ?case using register_domain_inv(2) pool_run_inv by blast
next
  case (run_insert b m S d env n st m')
  then show ?case using mempool_insert_inv(2) pool_run_inv by blast
next
  case (run_advance b m S d a n count m')
  then have inv: "mempool_inv R C m" using pool_run_inv by blast
  note spec = advance_nonce_spec [OF inv run_advance.hyps(2)]
  show ?case
    using run_advance by (intro mempool_bounded_shrink [OF _ inv spec(1,4)]) (simp_all add: spec(2))
next
  case (run_reserve b m S H es m')
  then have inv: "mempool_inv R C m" using pool_run_inv by blast
  note spec = reserve_hashes_spec [OF inv run_reserve.hyps(2)]
  show ?case
    using run_reserve by (intro mempool_bounded_shrink [OF _ inv spec(1,2)]) (simp_all add: spec(5))
qed (simp_all add: mempool_new_inv)

section \<open>A concrete pool\<close>

lemma encode_eip1559_length:
  "encode_eip1559 R t = Ok bs \<Longrightarrow> length bs \<le> MAX_TRANSACTION_ENVELOPE_BYTES"
  by (auto simp: encode_eip1559_def encode_tx_envelope_def Let_def split: if_splits)

definition sample_env :: "u64 \<Rightarrow> bytes" where
  "sample_env n =
     (case encode_eip1559 sample_rlp (sample_tx\<lparr>tx_nonce := n\<rparr>) of Ok b \<Rightarrow> b | Err _ \<Rightarrow> [])"

abbreviation sample_ops :: crypto_ops where
  "sample_ops \<equiv> sample_crypto (\<lambda>_. 0)"

lemma sample_env_encodes: "encode_eip1559 sample_rlp (sample_tx\<lparr>tx_nonce := n\<rparr>) = Ok (sample_env n)"
proof -
  have "is_ok (encode_eip1559 sample_rlp (sample_tx\<lparr>tx_nonce := n\<rparr>))"
    by (simp add: encode_eip1559_def encode_tx_envelope_def tx_validate_def sample_tx_def
      sample_rlp_def encode_fields_def encode_to_def encode_access_list_def
      encode_access_item_def rlp_list_def sized_def unary_def codec_limits
      MAX_INITCODE_BYTES_def MAX_CALLDATA_BYTES_def MAX_ACCESS_LIST_ADDRESSES_def
      MAX_ACCESS_LIST_STORAGE_KEYS_def)
  then show ?thesis by (auto simp: is_ok_iff sample_env_def)
qed

lemma sample_env_facts:
  "decode_eip1559 sample_rlp (sample_env n) = Ok (sample_tx\<lparr>tx_nonce := n\<rparr>)"
  "length (sample_env n) \<le> MAX_TRANSACTION_ENVELOPE_BYTES"
  "eip1559_transaction_hash sample_rlp (\<lambda>_. 0) (sample_tx\<lparr>tx_nonce := n\<rparr>) = Ok 0"
  "recover_eip1559_sender sample_rlp sample_ops (sample_tx\<lparr>tx_nonce := n\<rparr>) = Ok 5"
proof -
  show dec: "decode_eip1559 sample_rlp (sample_env n) = Ok (sample_tx\<lparr>tx_nonce := n\<rparr>)"
    using sample_env_encodes eip1559_exact [OF sample_rlp_ok] by blast
  show "length (sample_env n) \<le> MAX_TRANSACTION_ENVELOPE_BYTES"
    using sample_env_encodes by (rule encode_eip1559_length)
  show "eip1559_transaction_hash sample_rlp (\<lambda>_. 0) (sample_tx\<lparr>tx_nonce := n\<rparr>) = Ok 0"
    by (simp add: eip1559_transaction_hash_def hash_encoding_def sample_env_encodes)
  have "is_ok (encode_eip1559_signing_payload sample_rlp (sample_tx\<lparr>tx_nonce := n\<rparr>))"
    by (simp add: encode_eip1559_signing_payload_def encode_tx_envelope_def tx_validate_def
      sample_tx_def sample_rlp_def encode_fields_def encode_to_def encode_access_list_def
      encode_access_item_def rlp_list_def sized_def unary_def codec_limits
      MAX_INITCODE_BYTES_def MAX_CALLDATA_BYTES_def MAX_ACCESS_LIST_ADDRESSES_def
      MAX_ACCESS_LIST_STORAGE_KEYS_def)
  then show "recover_eip1559_sender sample_rlp sample_ops (sample_tx\<lparr>tx_nonce := n\<rparr>) = Ok 5"
    by (auto simp: is_ok_iff recover_eip1559_sender_def sample_crypto_def eip1559_signing_hash_def
        hash_encoding_def)
qed

definition sample_config :: MempoolConfig where
  "sample_config = \<lparr>cfg_max_transactions = 1, cfg_max_transactions_per_sender = 1,
     cfg_max_transaction_bytes = MAX_TRANSACTION_ENVELOPE_BYTES, cfg_replacement_bump_percent = 10\<rparr>"

definition sample_entry :: "u64 \<Rightarrow> PoolEntry" where
  "sample_entry n = \<lparr>pe_domain_id = 9, pe_sender = 5, pe_transaction_hash = 0,
     pe_envelope = sample_env n, pe_transaction = sample_tx\<lparr>tx_nonce := n\<rparr>\<rparr>"

definition sample_pool :: "PoolEntry list \<Rightarrow> Mempool" where
  "sample_pool es = \<lparr>mp_config = sample_config, mp_chain_ids = [(9, 1)], mp_used_chain_ids = {1},
     mp_entries = map (\<lambda>e. (entry_key e, e)) es,
     mp_sender_counts = (if es = [] then [] else [((9, 5), length es)])\<rparr>"

lemma sample_run_empty: "pool_run sample_rlp sample_ops sample_config False (sample_pool []) {}"
proof (rule run_register [OF run_new])
  show "register_domain 9 1 (mempool_new sample_config) = Ok (sample_pool [])"
    by (simp add: register_domain_def mempool_new_def sample_pool_def sample_config_def)
qed

lemma sample_chain_id: "tx_chain_id sample_tx = 1" and sample_keccak: "co_keccak (sample_crypto K) = K"
  by (simp_all add: sample_tx_def sample_crypto_def)

lemma sample_insert:
  "mempool_insert sample_rlp sample_ops 9 (sample_env n) n (sample_pool []) =
     Ok (QPending, sample_pool [sample_entry n])"
  by (simp add: mempool_insert_def sample_pool_def sample_env_facts sample_config_def
      bt_get_def not_less sample_chain_id sample_keccak entry_key_def sample_entry_def
      nonce_is_contiguous_def contiguous.simps bt_contains_def)

lemma sample_run_one: "pool_run sample_rlp sample_ops sample_config False (sample_pool [sample_entry n]) {}"
  by (rule run_insert [OF sample_run_empty sample_insert])

lemma sample_inv: "mempool_inv sample_rlp sample_ops (sample_pool [sample_entry n])"
  using pool_run_inv [OF sample_run_one] by simp

lemma sample_reserve:
  "reserve_hashes {0} (sample_pool [sample_entry n]) = ([sample_entry n], sample_pool [])"
  by (simp add: reserve_hashes_def sample_pool_def sample_entry_def entry_key_def bt_get_def
      bt_remove_def decrement_sender_def)

lemma sample_restore:
  "restore_reserved [sample_entry 0] (sample_pool [sample_entry 1]) =
     sample_pool [sample_entry 0, sample_entry 1]"
  by (simp add: restore_reserved_def restore_entry_def sample_pool_def sample_entry_def entry_key_def
      bt_get_def bt_contains_def less_prod_def)

section \<open>Properties\<close>

text \<open>
  (C8) Every pool a caller can reach is consistent: each entry is a verified transaction of a
  registered domain stored under its own domain, sender and nonce; chain ids are non-zero and
  route to one domain; the per-sender counters count the entries. As long as no reservation has
  been restored, the global and per-sender capacities hold too.
\<close>

theorem mempool_runs_consistent:
  assumes "pool_run R C config b m S"
  shows "mempool_inv R C m \<and> (\<not> b \<longrightarrow> mempool_bounded m)"
  using pool_run_inv [OF assms] pool_run_bounded [OF assms] by blast

theorem mempool_runs_consistent_witness:
  "mempool_inv sample_rlp sample_ops (sample_pool [sample_entry 3]) \<and>
   mempool_bounded (sample_pool [sample_entry 3])"
  using mempool_runs_consistent [OF sample_run_one [of 3]] by simp

text \<open>
  (C9) An accepted insertion stores exactly one entry, the verified decoding of the envelope, and
  leaves all others as they were. It answers \<open>Replaced\<close> exactly when the key was taken, and then
  both fee caps meet the replacement minimum; it answers \<open>Pending\<close> exactly when the key was free
  and every nonce from the state nonce up to the new one is present afterwards.
\<close>

theorem mempool_insert_effect:
  assumes "mempool_inv R C m" and "mempool_insert R C d env n m = Ok (st, m')"
  shows "\<exists>e. entry_ok R C m e \<and> pe_domain_id e = d \<and> pe_envelope e = env \<and>
    n \<le> tx_nonce (pe_transaction e) \<and>
    (\<forall>k. bt_get (mp_entries m') k = (if k = entry_key e then Some e else bt_get (mp_entries m) k)) \<and>
    (st = Replaced \<longleftrightarrow> bt_contains (mp_entries m) (entry_key e)) \<and>
    (\<forall>old. bt_get (mp_entries m) (entry_key e) = Some old \<longrightarrow>
      replacement_priced (pe_transaction old) (pe_transaction e)
        (cfg_replacement_bump_percent (mp_config m))) \<and>
    (st = QPending \<longleftrightarrow> \<not> bt_contains (mp_entries m) (entry_key e) \<and>
      (\<forall>x. n \<le> x \<and> x \<le> tx_nonce (pe_transaction e) \<longrightarrow>
        bt_contains (mp_entries m') (d, pe_sender e, x)))"
  using assms(2,1)
proof (cases rule: mempool_insert_cases)
  case (replaced e old)
  then show ?thesis
    using mempool_invD(2) [OF assms(1)]
    by (intro exI [of _ e]) (simp add: btree.get_insert bt_contains_def)
next
  case (added e)
  have "mp_entries m' = bt_insert (entry_key e) e (mp_entries m)"
    using added by (simp add: add_entry_def)
  then show ?thesis
    using added mempool_invD(2) [OF assms(1)]
    by (intro exI [of _ e])
      (simp add: btree.get_insert bt_contains_def nonce_is_contiguous_def contiguous_iff)
qed

theorem mempool_insert_effect_witness:
  "\<exists>e. entry_ok sample_rlp sample_ops (sample_pool []) e \<and> pe_envelope e = sample_env 3 \<and>
    bt_get (mp_entries (sample_pool [sample_entry 3])) (entry_key e) = Some e"
proof -
  obtain e where "entry_ok sample_rlp sample_ops (sample_pool []) e" "pe_envelope e = sample_env 3"
    and get: "\<forall>k. bt_get (mp_entries (sample_pool [sample_entry 3])) k =
      (if k = entry_key e then Some e else bt_get (mp_entries (sample_pool [])) k)"
    using mempool_insert_effect
      [OF conjunct1 [OF pool_run_inv [OF sample_run_empty]] sample_insert [of 3]] by blast
  then show ?thesis using get [rule_format, of "entry_key e"] by auto
qed

text \<open>
  (C10) Abandoning a proposal at once undoes the reservation: restoring the entries that
  \<open>reserve_hashes\<close> returned to the pool it left gives back the original pool, counters included.
\<close>

theorem reserve_restore_roundtrip:
  assumes "mempool_inv R C m" and "reserve_hashes H m = (es, m')"
  shows "restore_reserved es m' = m"
proof -
  note r = reserve_hashes_spec [OF assms]
  have ok: "\<forall>e \<in> set es. entry_ok R C m' e"
  proof
    fix e assume "e \<in> set es"
    then have "entry_ok R C m e" using r(6) mempool_invD(5) [OF assms(1)] by blast
    then show "entry_ok R C m' e" using r(2,3) by (simp add: entry_ok_def)
  qed
  note spec = restore_reserved_spec [OF r(1) ok]
  note get = spec [THEN conjunct2, rule_format]
  have "bt_get (mp_entries (restore_reserved es m')) k = bt_get (mp_entries m) k" for k
  proof (cases "bt_get (mp_entries m) k")
    case None
    have "k \<notin> entry_key ` set es" using r(6) None by fastforce
    then have "map_of (map (\<lambda>e. (entry_key e, e)) es) k = None"
      by (simp add: map_of_eq_None_iff image_image)
    then show ?thesis using get [of k] None r(5) [of k] by simp
  next
    case (Some e)
    have key: "entry_key e = k" using mempool_invD(4) [OF assms(1) Some] .
    show ?thesis
    proof (cases "pe_transaction_hash e \<in> H")
      case True
      have "distinct (map entry_key es)" using r(7) by (simp add: strict_sorted_iff)
      moreover have "e \<in> set es" using True Some key r(6) by simp
      ultimately have "map_of (map (\<lambda>e. (entry_key e, e)) es) k = Some e"
        using key by (intro map_of_is_SomeI) (auto simp: comp_def image_iff)
      then show ?thesis using get [of k] Some True r(5) [of k] by simp
    next
      case False
      then show ?thesis using get [of k] Some r(5) [of k] by simp
    qed
  qed
  then show ?thesis
    by (intro mempool_eqI [OF assms(1) conjunct1 [OF spec]]) (simp_all add: r(2-4))
qed

theorem reserve_restore_roundtrip_witness:
  "restore_reserved [sample_entry 3] (sample_pool []) = sample_pool [sample_entry 3]"
  using reserve_restore_roundtrip [OF sample_inv sample_reserve] by simp

text \<open>
  (C11) \<open>ready\<close> is the maximal executable run of a sender: the entries at consecutive nonces from
  the state nonce, ending only where the next nonce is absent or would pass the 64-bit range.
\<close>

theorem ready_maximal_run:
  "let run = ready m d a n in
    (\<forall>i < length run. bt_get (mp_entries m) (d, a, n + word_of_nat i) = Some (run ! i)) \<and>
    unat n + length run \<le> 2 ^ 64 \<and>
    (unat n + length run < 2 ^ 64 \<longrightarrow> bt_get (mp_entries m) (d, a, n + word_of_nat (length run)) = None)"
  unfolding Let_def ready_def by (rule ready_from_spec)

theorem ready_maximal_run_witness:
  "ready (sample_pool [sample_entry 3]) 9 5 3 = [sample_entry 3] \<and>
   bt_get (mp_entries (sample_pool [sample_entry 3])) (9, 5, 3) = Some (sample_entry 3)"
proof -
  have run: "ready (sample_pool [sample_entry 3]) 9 5 3 = [sample_entry 3]"
    by (simp add: ready_def ready_from.simps sample_pool_def bt_get_def entry_key_def
        sample_entry_def checked_add_def)
  then show ?thesis
    using ready_maximal_run [of "sample_pool [sample_entry 3]" 9 5 3] by (simp add: Let_def)
qed

text \<open>
  (C12) \<open>advance_nonce\<close> drops exactly the sender's entries below the state nonce, reports how many
  it dropped, and keeps the pool consistent.
\<close>

theorem advance_nonce_exact:
  assumes "mempool_inv R C m" and "advance_nonce d a n m = (count, m')"
  shows "mempool_inv R C m' \<and> count + mempool_len m' = mempool_len m \<and>
    (\<forall>x y z. bt_get (mp_entries m') (x, y, z) =
      (if x = d \<and> y = a \<and> z < n then None else bt_get (mp_entries m) (x, y, z)))"
  using advance_nonce_spec [OF assms] by (simp add: mempool_len_def)

theorem advance_nonce_exact_witness:
  "mempool_inv sample_rlp sample_ops (snd (advance_nonce 9 5 4 (sample_pool [sample_entry 3])))"
  using advance_nonce_exact [OF sample_inv prod.collapse [symmetric]] by blast

text \<open>
  The replacement minimum is the old fee plus its percentage rounded up, capped at the
  largest 128-bit value: the split into quotient and remainder loses nothing and no step wraps.
\<close>

theorem replacement_min_exact:
  "unat (replacement_min v p) = min (unat v + (unat v * unat p + 99) div 100) (2 ^ 128 - 1)"
  by (rule unat_replacement_min)


end
