(* ===== verification/Domain_Heads.thy ===== *)
theory Domain_Heads
  imports BTree_Map Canonical_Codec
begin

text \<open>
  \<open>arbor-state/src/domain_heads.rs\<close>: the 256-level sparse Merkle commitment to all domain heads,
  its membership and non-membership proofs and their verification. Keccak-256 is the parameter
  \<open>K\<close>. The commitment is shown complete (its own proofs verify) and sound (a verifying proof can
  only claim the head the commitment holds, unless the verification itself exhibits a
  collision of \<open>K\<close>).
\<close>

unbundle bit_operations_syntax

section \<open>Hashes and paths\<close>

definition KEY_TAG :: bytes where
  "KEY_TAG = ascii ''ARBOR_DOMAIN_HEAD_KEY_V1''"

definition VALUE_TAG :: bytes where
  "VALUE_TAG = ascii ''ARBOR_DOMAIN_HEAD_VALUE_V1''"

definition LEAF_TAG :: bytes where
  "LEAF_TAG = ascii ''ARBOR_SMT_LEAF_V1''"

definition BRANCH_TAG :: bytes where
  "BRANCH_TAG = ascii ''ARBOR_SMT_BRANCH_V1''"

definition SMT_DEPTH :: nat where
  "SMT_DEPTH = 256"

record DomainHead =
  head_domain_block_hash :: b256
  head_state_root :: b256

record DomainHeadProof =
  hp_root :: b256
  hp_domain_id :: DomainId
  hp_value :: "DomainHead option"
  hp_siblings :: "b256 list"

text \<open>The error type of the whole crate; the trie returns the remaining constructors.\<close>

datatype StateError =
    MissingNode b256
  | NodeHashMismatch b256 b256
  | MalformedRlp string
  | InvalidPath string
  | StoreFailure string
  | ProofFailed string
  | StateLimitExceeded string

definition domain_head_key :: "hash_fn \<Rightarrow> DomainId \<Rightarrow> b256" where
  "domain_head_key K domain_id = K (KEY_TAG @ to_be_bytes domain_id)"

definition head_value_preimage :: "DomainHead \<Rightarrow> bytes" where
  "head_value_preimage head =
     VALUE_TAG @ to_be_bytes (head_domain_block_hash head) @ to_be_bytes (head_state_root head)"

definition domain_head_value :: "hash_fn \<Rightarrow> DomainHead \<Rightarrow> b256" where
  "domain_head_value K head = K (head_value_preimage head)"

definition leaf_preimage :: "b256 \<Rightarrow> b256 \<Rightarrow> bytes" where
  "leaf_preimage key val = LEAF_TAG @ [1] @ to_be_bytes key @ to_be_bytes val"

definition leaf_hash :: "hash_fn \<Rightarrow> b256 \<Rightarrow> b256 \<Rightarrow> b256" where
  "leaf_hash K key val = K (leaf_preimage key val)"

definition branch_preimage :: "nat \<Rightarrow> b256 \<Rightarrow> b256 \<Rightarrow> bytes" where
  "branch_preimage depth left right =
     BRANCH_TAG @ to_be_bytes (word_of_nat depth :: u16) @ to_be_bytes left @ to_be_bytes right"

definition branch_hash :: "hash_fn \<Rightarrow> nat \<Rightarrow> b256 \<Rightarrow> b256 \<Rightarrow> b256" where
  "branch_hash K depth left right = K (branch_preimage depth left right)"

text \<open>
  \<open>empty_hashes\<close> fills its table from depth 256 upwards; \<open>empty_above K n\<close> is the entry \<open>n\<close> levels
  above the leaves.
\<close>

definition empty_leaf_preimage :: bytes where
  "empty_leaf_preimage = LEAF_TAG @ [0]"

fun empty_above :: "hash_fn \<Rightarrow> nat \<Rightarrow> b256" where
  "empty_above K 0 = K empty_leaf_preimage"
| "empty_above K (Suc n) = branch_hash K (SMT_DEPTH - Suc n) (empty_above K n) (empty_above K n)"

definition empty_hash :: "hash_fn \<Rightarrow> nat \<Rightarrow> b256" where
  "empty_hash K depth = empty_above K (SMT_DEPTH - depth)"

definition smt_bit :: "b256 \<Rightarrow> nat \<Rightarrow> u8" where
  "smt_bit key depth = drop_bit (7 - depth mod 8) (to_be_bytes key ! (depth div 8)) AND 1"

text \<open>
  \<open>partition_point\<close> of the standard library: the binary search of \<open>binary_search_by\<close> with the
  predicate as comparison.
\<close>

function partition_loop :: "('a \<Rightarrow> bool) \<Rightarrow> 'a list \<Rightarrow> nat \<Rightarrow> nat \<Rightarrow> nat" where
  "partition_loop P xs base sz =
     (if sz \<le> 1 then base
      else let half = sz div 2; mid = base + half in
        partition_loop P xs (if P (xs ! mid) then mid else base) (sz - half))"
  by pat_completeness auto
termination
  by (relation "measure (\<lambda>(_, _, _, sz). sz)") auto

declare partition_loop.simps [simp del]

definition partition_point :: "('a \<Rightarrow> bool) \<Rightarrow> 'a list \<Rightarrow> nat" where
  "partition_point P xs =
     (if xs = [] then 0
      else let base = partition_loop P xs 0 (length xs) in
        if P (xs ! base) then base + 1 else base)"

text \<open>Callers start at depth 0 and descend one level at a time, so no depth exceeds 256.\<close>

function subtree_root :: "hash_fn \<Rightarrow> (b256 \<times> b256) list \<Rightarrow> nat \<Rightarrow> b256" where
  "subtree_root K entries depth =
     (if entries = [] then empty_hash K depth
      else if depth \<ge> SMT_DEPTH then snd (entries ! 0)
      else let split = partition_point (\<lambda>e. smt_bit (fst e) depth = 0) entries in
        branch_hash K depth (subtree_root K (take split entries) (depth + 1))
          (subtree_root K (drop split entries) (depth + 1)))"
  by pat_completeness auto
termination
  by (relation "measure (\<lambda>(_, _, depth). SMT_DEPTH - depth)") auto

declare subtree_root.simps [simp del]

section \<open>The commitment\<close>

type_synonym DomainHeadsCommitment = "(b256, DomainId \<times> DomainHead) btree_map"

definition heads_new :: DomainHeadsCommitment where
  "heads_new = []"

definition heads_insert :: "hash_fn \<Rightarrow> DomainId \<Rightarrow> DomainHead \<Rightarrow> DomainHeadsCommitment \<Rightarrow> DomainHeadsCommitment" where
  "heads_insert K domain_id head c = bt_insert (domain_head_key K domain_id) (domain_id, head) c"

definition heads_remove :: "hash_fn \<Rightarrow> DomainId \<Rightarrow> DomainHeadsCommitment \<Rightarrow> DomainHead option \<times> DomainHeadsCommitment" where
  "heads_remove K domain_id c =
     (map_option snd (bt_get c (domain_head_key K domain_id)),
      bt_remove (domain_head_key K domain_id) c)"

definition heads_entries :: "hash_fn \<Rightarrow> DomainHeadsCommitment \<Rightarrow> (b256 \<times> b256) list" where
  "heads_entries K c = map (\<lambda>(key, (_, head)). (key, leaf_hash K key (domain_head_value K head))) c"

definition heads_root :: "hash_fn \<Rightarrow> DomainHeadsCommitment \<Rightarrow> b256" where
  "heads_root K c = subtree_root K (heads_entries K c) 0"

fun proof_siblings :: "hash_fn \<Rightarrow> b256 \<Rightarrow> nat list \<Rightarrow> (b256 \<times> b256) list \<Rightarrow> b256 list" where
  "proof_siblings K target [] rng = []"
| "proof_siblings K target (depth # depths) rng =
     (let split = partition_point (\<lambda>e. smt_bit (fst e) depth = 0) rng;
          left = take split rng; right = drop split rng in
      if smt_bit target depth = 0
      then subtree_root K right (depth + 1) # proof_siblings K target depths left
      else subtree_root K left (depth + 1) # proof_siblings K target depths right)"

definition heads_proof :: "hash_fn \<Rightarrow> DomainHeadsCommitment \<Rightarrow> DomainId \<Rightarrow> DomainHeadProof" where
  "heads_proof K c domain_id =
     (let target = domain_head_key K domain_id in
      \<lparr>hp_root = heads_root K c, hp_domain_id = domain_id,
       hp_value = map_option snd (bt_get c target),
       hp_siblings = proof_siblings K target [0..<SMT_DEPTH] (heads_entries K c)\<rparr>)"

definition path_step :: "hash_fn \<Rightarrow> b256 \<Rightarrow> b256 list \<Rightarrow> nat \<Rightarrow> b256 \<Rightarrow> b256" where
  "path_step K key siblings depth hash =
     (let sibling = siblings ! depth in
      if smt_bit key depth = 0 then branch_hash K depth hash sibling
      else branch_hash K depth sibling hash)"

definition proof_leaf :: "hash_fn \<Rightarrow> b256 \<Rightarrow> DomainHead option \<Rightarrow> b256" where
  "proof_leaf K key v = (case v of
     Some head \<Rightarrow> leaf_hash K key (domain_head_value K head)
   | None \<Rightarrow> empty_hash K SMT_DEPTH)"

definition head_proof_verify :: "hash_fn \<Rightarrow> DomainHeadProof \<Rightarrow> (unit, StateError) result" where
  "head_proof_verify K p =
     (if length (hp_siblings p) \<noteq> SMT_DEPTH then Err (InvalidPath ''domain-head proof depth'')
      else let key = domain_head_key K (hp_domain_id p);
               hash = fold (path_step K key (hp_siblings p)) (rev [0..<SMT_DEPTH])
                 (proof_leaf K key (hp_value p)) in
        if hash \<noteq> hp_root p then Err (ProofFailed ''domain-head root mismatch'') else Ok ())"

section \<open>Bits of a key\<close>

lemma be_of_nat_nth:
  "i < n \<Longrightarrow> be_of_nat n k ! i = word_of_nat (k div 256 ^ (n - 1 - i) mod 256)"
proof (induction n arbitrary: k)
  case (Suc n)
  show ?case
  proof (cases "i = n")
    case False
    with Suc have "i < n" by simp
    then have "Suc (n - 1 - i) = n - i" by simp
    moreover have "k div 256 div 256 ^ (n - 1 - i) = k div 256 ^ Suc (n - 1 - i)"
      by (simp add: div_mult2_eq)
    ultimately show ?thesis using Suc.IH [of "k div 256"] \<open>i < n\<close> by (simp add: nth_append)
  qed (simp add: nth_append)
qed simp

lemma unat_smt_bit:
  assumes "d < 256"
  shows "unat (smt_bit key d) = unat key div 2 ^ (255 - d) mod 2"
proof -
  let ?j = "d div 8" and ?s = "7 - d mod 8"
  have j: "?j < 32" using assms by simp
  have byte: "to_be_bytes key ! ?j = word_of_nat (unat key div 256 ^ (31 - ?j) mod 256)"
    using be_of_nat_nth [OF j, of "unat key"] by (simp add: to_be_bytes_def)
  have split: "q \<le> 31 \<Longrightarrow> r < 8 \<Longrightarrow> 8 * (31 - q) + (7 - r) = 255 - (8 * q + r)" for q r :: nat
    by arith
  have s: "?s < 8" "8 * (31 - ?j) + ?s = 255 - d"
    using split [of ?j "d mod 8"] j by simp_all
  have "bit (to_be_bytes key ! ?j) ?s \<longleftrightarrow> bit (unat key div 256 ^ (31 - ?j) mod 256) ?s"
    unfolding byte using s(1) by (simp add: bit_of_nat_iff_bit unsigned_of_nat bit_simps)
  also have "\<dots> \<longleftrightarrow> bit (take_bit 8 (drop_bit (8 * (31 - ?j)) (unat key))) ?s"
    by (simp add: take_bit_eq_mod drop_bit_eq_div power_mult)
  also have "\<dots> \<longleftrightarrow> bit (unat key) (255 - d)"
    using s by (simp add: bit_take_bit_iff bit_drop_bit_eq)
  finally have "odd (drop_bit ?s (to_be_bytes key ! ?j)) \<longleftrightarrow> odd (unat key div 2 ^ (255 - d))"
    by (simp add: bit_iff_odd_drop_bit drop_bit_eq_div)
  then show ?thesis
    by (simp add: smt_bit_def and_one_eq mod2_eq_if unat_mod)
qed

text \<open>The first \<open>d\<close> bits of a key, as a number.\<close>

definition key_prefix :: "nat \<Rightarrow> b256 \<Rightarrow> nat" where
  "key_prefix d key = unat key div 2 ^ (256 - d)"

lemma key_prefix_0: "key_prefix 0 key = 0"
  using unat_less_exp [of key] by (simp add: key_prefix_def)

lemma key_prefix_all: "key_prefix 256 key = unat key"
  by (simp add: key_prefix_def)

lemma key_prefix_Suc:
  assumes "d < 256"
  shows "key_prefix (Suc d) key = 2 * key_prefix d key + unat (smt_bit key d)"
proof -
  have "256 - d = Suc (255 - d)" using assms by simp
  then have "unat key div 2 ^ (256 - d) = unat key div 2 ^ (255 - d) div 2"
    by (simp add: div_mult2_eq mult.commute [of 2])
  moreover have "key_prefix (Suc d) key = unat key div 2 ^ (255 - d)"
    by (simp add: key_prefix_def)
  ultimately show ?thesis
    using mult_div_mod_eq [of 2 "unat key div 2 ^ (255 - d)"]
    by (simp add: key_prefix_def unat_smt_bit [OF assms])
qed

lemma key_prefix_mono: "x \<le> y \<Longrightarrow> key_prefix d x \<le> key_prefix d y"
  by (simp add: key_prefix_def div_le_mono word_le_nat_alt)

lemma smt_bit_cases: "d < 256 \<Longrightarrow> smt_bit key d \<noteq> 0 \<longleftrightarrow> unat (smt_bit key d) = 1"
  using unat_smt_bit [of d key] by (auto simp: word_unat_eq_iff)

lemma smt_bit_mono:
  assumes "d < 256" and "x \<le> y" and "key_prefix d x = key_prefix d y" and "smt_bit y d = 0"
  shows "smt_bit x d = 0"
  using key_prefix_mono [OF assms(2), of "Suc d"] assms key_prefix_Suc [OF assms(1)]
  by (simp add: word_unat_eq_iff)

lemma key_prefix_Suc_eq:
  assumes "d < 256"
  shows "key_prefix (Suc d) x = key_prefix (Suc d) y \<longleftrightarrow>
    key_prefix d x = key_prefix d y \<and> (smt_bit x d = 0 \<longleftrightarrow> smt_bit y d = 0)"
proof -
  have "unat (smt_bit z d) < 2" for z using unat_smt_bit [OF assms] by simp
  then show ?thesis
    using key_prefix_Suc [OF assms, of x] key_prefix_Suc [OF assms, of y]
      smt_bit_cases [OF assms, of x] smt_bit_cases [OF assms, of y]
    by (auto simp: word_unat_eq_iff) presburger+
qed

section \<open>Partition point\<close>

definition partitioned :: "('a \<Rightarrow> bool) \<Rightarrow> 'a list \<Rightarrow> bool" where
  "partitioned P xs \<longleftrightarrow> (\<forall>i j. i \<le> j \<and> j < length xs \<and> P (xs ! j) \<longrightarrow> P (xs ! i))"

lemma partition_loop_spec:
  assumes "partitioned P xs" and "0 < sz" and "base + sz \<le> length xs"
    and "\<forall>i < base. P (xs ! i)" and "\<forall>i. base + sz \<le> i \<and> i < length xs \<longrightarrow> \<not> P (xs ! i)"
  shows "partition_loop P xs base sz < length xs \<and> (\<forall>i < partition_loop P xs base sz. P (xs ! i)) \<and>
    (\<forall>i. partition_loop P xs base sz < i \<and> i < length xs \<longrightarrow> \<not> P (xs ! i))"
  using assms
proof (induction P xs base sz rule: partition_loop.induct)
  case (1 P xs base sz)
  show ?case
  proof (cases "sz \<le> 1")
    case True
    with 1 show ?thesis by (subst (1 2 3) partition_loop.simps) auto
  next
    case False
    define h where "h = sz div 2"
    define b where "b = (if P (xs ! (base + h)) then base + h else base)"
    have h: "0 < h" "h < sz" "base + h < length xs" "2 * h \<le> sz"
      using False 1(4) by (simp_all add: h_def)
    have down: "P (xs ! i)" if "i \<le> j" "j < length xs" "P (xs ! j)" for i j
      using 1(2) that unfolding partitioned_def by blast
    have low: "\<forall>i < b. P (xs ! i)"
      using down [OF _ h(3)] 1(5) by (simp add: b_def)
    have high: "\<not> P (xs ! i)" if "b + (sz - h) \<le> i" "i < length xs" for i
    proof (cases "P (xs ! (base + h))")
      case True
      then show ?thesis using that 1(6) h by (simp add: b_def)
    next
      case notP: False
      then have "base + h \<le> i" using that h by (simp add: b_def)
      then show ?thesis using down [OF _ that(2)] notP by blast
    qed
    have "b \<le> base + h" by (simp add: b_def)
    then have "b + (sz - h) \<le> length xs" using 1(4) h by linarith
    moreover have "partition_loop P xs base sz = partition_loop P xs b (sz - h)"
      using False by (subst partition_loop.simps) (simp add: Let_def b_def h_def)
    ultimately show ?thesis
      using 1(1) [OF False h_def refl 1(2), folded b_def] low high h by simp
  qed
qed

lemma partition_point_spec:
  assumes "partitioned P xs"
  shows "(\<forall>x \<in> set (take (partition_point P xs) xs). P x) \<and>
    (\<forall>x \<in> set (drop (partition_point P xs) xs). \<not> P x)"
proof (cases "xs = []")
  case False
  define b where "b = partition_loop P xs 0 (length xs)"
  have b: "b < length xs" "\<And>i. i < b \<Longrightarrow> P (xs ! i)" "\<And>i. b < i \<Longrightarrow> i < length xs \<Longrightarrow> \<not> P (xs ! i)"
  proof -
    have "0 < length xs" using False by simp
    moreover have "\<forall>i. 0 + length xs \<le> i \<and> i < length xs \<longrightarrow> \<not> P (xs ! i)" by auto
    ultimately have "b < length xs \<and> (\<forall>i < b. P (xs ! i)) \<and> (\<forall>i. b < i \<and> i < length xs \<longrightarrow> \<not> P (xs ! i))"
      unfolding b_def by (intro partition_loop_spec [OF assms]) simp_all
    then show "b < length xs" "\<And>i. i < b \<Longrightarrow> P (xs ! i)" "\<And>i. b < i \<Longrightarrow> i < length xs \<Longrightarrow> \<not> P (xs ! i)"
      by blast+
  qed
  define n where "n = partition_point P xs"
  have n: "n = (if P (xs ! b) then b + 1 else b)"
    using False by (simp add: n_def partition_point_def Let_def b_def)
  have "P (xs ! i)" if "i < n" for i
    using that b(2) [of i] n by (cases "i = b") (auto split: if_splits)
  moreover have "\<not> P (xs ! i)" if "n \<le> i" "i < length xs" for i
    using that b(3) [of i] n by (cases "i = b") (auto split: if_splits)
  ultimately show ?thesis
    unfolding n_def [symmetric] by (auto simp: in_set_conv_nth)
qed (simp add: partition_point_def)

section \<open>Completeness of proofs\<close>

abbreviation smt_path :: "hash_fn \<Rightarrow> b256 \<Rightarrow> b256 list \<Rightarrow> nat \<Rightarrow> b256 \<Rightarrow> b256" where
  "smt_path K key siblings depth leaf \<equiv> fold (path_step K key siblings) (rev [depth..<SMT_DEPTH]) leaf"

lemma path_end: "smt_path K key sibs SMT_DEPTH leaf = leaf"
  by simp

lemma path_unfold:
  "d < SMT_DEPTH \<Longrightarrow> smt_path K key sibs d leaf = path_step K key sibs d (smt_path K key sibs (Suc d) leaf)"
  by (simp add: upt_conv_Cons)

lemma empty_hash_unfold:
  assumes "d < SMT_DEPTH"
  shows "empty_hash K d = branch_hash K d (empty_hash K (Suc d)) (empty_hash K (Suc d))"
proof -
  have "SMT_DEPTH - d = Suc (SMT_DEPTH - Suc d)" and "SMT_DEPTH - Suc (SMT_DEPTH - Suc d) = d"
    using assms by simp_all
  then show ?thesis by (simp add: empty_hash_def)
qed

lemma subtree_root_Nil [simp]: "subtree_root K [] d = empty_hash K d"
  by (simp add: subtree_root.simps)

lemma subtree_root_unfold:
  assumes "d < SMT_DEPTH"
  shows "subtree_root K es d =
    (let split = partition_point (\<lambda>e. smt_bit (fst e) d = 0) es in
     branch_hash K d (subtree_root K (take split es) (Suc d)) (subtree_root K (drop split es) (Suc d)))"
proof (cases "es = []")
  case True
  then show ?thesis using assms by (simp add: Let_def empty_hash_unfold [OF assms])
next
  case False
  then show ?thesis using assms by (subst subtree_root.simps) (simp add: Let_def)
qed

definition slice_ok :: "nat \<Rightarrow> b256 \<Rightarrow> (b256 \<times> b256) list \<Rightarrow> bool" where
  "slice_ok d target es \<longleftrightarrow> sorted_wrt (<) (map fst es) \<and>
     (\<forall>e \<in> set es. key_prefix d (fst e) = key_prefix d target)"

lemma slice_partitioned:
  assumes "slice_ok d target es" and "d < 256"
  shows "partitioned (\<lambda>e. smt_bit (fst e) d = 0) es"
  unfolding partitioned_def
proof (intro allI impI)
  fix i j assume ij: "i \<le> j \<and> j < length es \<and> smt_bit (fst (es ! j)) d = 0"
  then have "fst (es ! i) \<le> fst (es ! j)"
    using assms(1) sorted_nth_mono [of "map fst es" i j]
    by (simp add: slice_ok_def strict_sorted_iff)
  moreover have "key_prefix d (fst (es ! i)) = key_prefix d (fst (es ! j))"
    using assms(1) ij by (simp add: slice_ok_def)
  ultimately show "smt_bit (fst (es ! i)) d = 0"
    using smt_bit_mono [OF assms(2)] ij by blast
qed

lemma slice_split:
  assumes "slice_ok d target es" and "d < 256"
  defines "n \<equiv> partition_point (\<lambda>e. smt_bit (fst e) d = 0) es"
  defines "here \<equiv> if smt_bit target d = 0 then take n es else drop n es"
  shows "slice_ok (Suc d) target here" and "map_of es target = map_of here target"
proof -
  let ?P = "\<lambda>e. smt_bit (fst e) d = 0"
  note spec = partition_point_spec [OF slice_partitioned [OF assms(1,2)], folded n_def]
  note side = conjunct1 [OF spec] conjunct2 [OF spec]
  have bits: "\<forall>e \<in> set here. ?P e \<longleftrightarrow> smt_bit target d = 0"
    using side by (simp add: here_def)
  have sub: "set here \<subseteq> set es"
    by (simp add: here_def set_take_subset set_drop_subset)
  have "sorted_wrt (<) (map fst here)"
    using assms(1)
    by (simp add: slice_ok_def here_def take_map [symmetric] drop_map [symmetric]
        sorted_wrt_take sorted_wrt_drop)
  moreover have "\<forall>e \<in> set here. key_prefix (Suc d) (fst e) = key_prefix (Suc d) target"
    using assms(1) bits sub unfolding key_prefix_Suc_eq [OF assms(2)] slice_ok_def by blast
  ultimately show "slice_ok (Suc d) target here" by (simp add: slice_ok_def)
  have "map_of (take n es) target = None" if "smt_bit target d \<noteq> 0"
    using side(1) that by (auto simp: map_of_eq_None_iff)
  moreover have "map_of (drop n es) target = None" if "smt_bit target d = 0"
    using side(2) that by (auto simp: map_of_eq_None_iff)
  moreover have "map_of es = map_of (drop n es) ++ map_of (take n es)"
    by (metis append_take_drop_id map_of_append)
  ultimately show "map_of es target = map_of here target"
    by (auto simp: here_def map_add_def split: option.splits)
qed

definition slice_leaf :: "hash_fn \<Rightarrow> b256 \<Rightarrow> (b256 \<times> b256) list \<Rightarrow> b256" where
  "slice_leaf K target es = (case map_of es target of Some h \<Rightarrow> h | None \<Rightarrow> empty_hash K SMT_DEPTH)"

lemma slice_leaf_end:
  assumes "slice_ok 256 target es"
  shows "slice_leaf K target es = subtree_root K es SMT_DEPTH"
proof (cases es)
  case (Cons e es')
  have keys: "\<forall>x \<in> set es. fst x = target"
    using assms by (simp add: slice_ok_def key_prefix_all word_unat_eq_iff)
  have "es' = []"
  proof (cases es')
    case (Cons e' es'')
    then show ?thesis using keys assms \<open>es = e # es'\<close> by (simp add: slice_ok_def)
  qed
  then show ?thesis
    using keys Cons by (cases e) (simp add: slice_leaf_def subtree_root.simps)
qed (simp add: slice_leaf_def)

lemma proof_siblings_length [simp]: "length (proof_siblings K target ds es) = length ds"
  by (induction K target ds es rule: proof_siblings.induct) (simp_all add: Let_def)

lemma path_complete:
  assumes "slice_ok d target es" and "d \<le> 256"
    and "drop d sibs = proof_siblings K target [d..<SMT_DEPTH] es"
  shows "smt_path K target sibs d (slice_leaf K target es) = subtree_root K es d"
  using assms(2,1,3)
proof (induction d arbitrary: es rule: inc_induct)
  case base
  then show ?case
    using slice_leaf_end [of target es K] by (simp add: SMT_DEPTH_def)
next
  case (step d)
  let ?n = "partition_point (\<lambda>e. smt_bit (fst e) d = 0) es"
  let ?here = "if smt_bit target d = 0 then take ?n es else drop ?n es"
  let ?other = "if smt_bit target d = 0 then drop ?n es else take ?n es"
  have d: "d < SMT_DEPTH" "d < 256" using step.hyps by (simp_all add: SMT_DEPTH_def)
  have "drop d sibs = subtree_root K ?other (Suc d) #
      proof_siblings K target [Suc d..<SMT_DEPTH] ?here"
    using step.prems(2) d(1) by (simp add: upt_conv_Cons Let_def)
  then have sib: "sibs ! d = subtree_root K ?other (Suc d)"
    and rest: "drop (Suc d) sibs = proof_siblings K target [Suc d..<SMT_DEPTH] ?here"
    by (metis nth_via_drop, metis drop_Suc tl_drop list.sel(3))
  have leaf: "slice_leaf K target es = slice_leaf K target ?here"
    using slice_split(2) [OF step.prems(1) d(2)] by (simp add: slice_leaf_def)
  have "smt_path K target sibs (Suc d) (slice_leaf K target es) = subtree_root K ?here (Suc d)"
    unfolding leaf using slice_split(1) [OF step.prems(1) d(2)] rest by (rule step.IH)
  then show ?case
    unfolding path_unfold [OF d(1)] subtree_root_unfold [OF d(1), of K es]
    by (simp add: path_step_def sib Let_def)
qed

lemma heads_entries_ok:
  assumes "bt_wf c"
  shows "slice_ok 0 target (heads_entries K c)"
    and "slice_leaf K target (heads_entries K c) =
      proof_leaf K target (map_option snd (bt_get c target))"
proof -
  have "map fst (heads_entries K c) = map fst c"
    by (simp add: heads_entries_def case_prod_unfold comp_def)
  then show "slice_ok 0 target (heads_entries K c)"
    using assms by (simp add: slice_ok_def bt_wf_def key_prefix_0)
  have "map_of (heads_entries K c) target =
      map_option (\<lambda>(_, head). leaf_hash K target (domain_head_value K head)) (bt_get c target)"
    unfolding heads_entries_def bt_get_def by (induction c) auto
  then show "slice_leaf K target (heads_entries K c) =
      proof_leaf K target (map_option snd (bt_get c target))"
    by (auto simp: slice_leaf_def proof_leaf_def split: option.splits)
qed

lemma heads_proof_path:
  assumes "bt_wf c"
  shows "smt_path K (domain_head_key K d) (hp_siblings (heads_proof K c d)) 0
      (proof_leaf K (domain_head_key K d) (hp_value (heads_proof K c d))) = heads_root K c"
proof -
  let ?target = "domain_head_key K d" and ?es = "heads_entries K c"
  have "smt_path K ?target (proof_siblings K ?target [0..<SMT_DEPTH] ?es) 0 (slice_leaf K ?target ?es) =
      subtree_root K ?es 0"
    using heads_entries_ok(1) [OF assms] by (intro path_complete) simp_all
  then show ?thesis
    using heads_entries_ok(2) [OF assms, of K ?target]
    by (simp add: heads_proof_def heads_root_def Let_def)
qed

lemma heads_proof_verifies: "bt_wf c \<Longrightarrow> head_proof_verify K (heads_proof K c d) = Ok ()"
  using heads_proof_path [of c K d]
  by (simp add: head_proof_verify_def heads_proof_def Let_def)

section \<open>Soundness of proofs\<close>

text \<open>The byte strings that verifying a proof hashes along its path.\<close>

definition step_preimage :: "b256 \<Rightarrow> b256 list \<Rightarrow> nat \<Rightarrow> b256 \<Rightarrow> bytes" where
  "step_preimage key sibs d h =
     (if smt_bit key d = 0 then branch_preimage d h (sibs ! d) else branch_preimage d (sibs ! d) h)"

definition leaf_preimages :: "hash_fn \<Rightarrow> b256 \<Rightarrow> DomainHead option \<Rightarrow> bytes set" where
  "leaf_preimages K key v = (case v of None \<Rightarrow> {empty_leaf_preimage}
     | Some head \<Rightarrow> {leaf_preimage key (domain_head_value K head), head_value_preimage head})"

definition proof_preimages :: "hash_fn \<Rightarrow> DomainHeadProof \<Rightarrow> bytes set" where
  "proof_preimages K p =
     (let key = domain_head_key K (hp_domain_id p); leaf = proof_leaf K key (hp_value p) in
      (\<lambda>d. step_preimage key (hp_siblings p) d (smt_path K key (hp_siblings p) (Suc d) leaf)) ` {..<SMT_DEPTH}
      \<union> leaf_preimages K key (hp_value p))"

lemma path_step_preimage: "path_step K key sibs d h = K (step_preimage key sibs d h)"
  by (simp add: path_step_def step_preimage_def branch_hash_def Let_def)

lemma step_preimage_inject:
  "step_preimage key sibs d h = step_preimage key sibs' d h' \<longleftrightarrow> h = h' \<and> sibs ! d = sibs' ! d"
  by (auto simp: step_preimage_def branch_preimage_def to_be_bytes_inject)

lemma head_value_preimage_inject: "head_value_preimage h = head_value_preimage h' \<longleftrightarrow> h = h'"
  by (cases h; cases h') (simp add: head_value_preimage_def to_be_bytes_inject)

lemma leaf_preimage_inject:
  "leaf_preimage key v = leaf_preimage key' v' \<longleftrightarrow> key = key' \<and> v = v'"
  by (simp add: leaf_preimage_def to_be_bytes_inject)

lemma leaf_not_empty: "leaf_preimage key v \<noteq> empty_leaf_preimage"
  by (simp add: leaf_preimage_def empty_leaf_preimage_def)

lemma proof_leaf_inject:
  assumes "inj_on K (leaf_preimages K key v \<union> leaf_preimages K key w)"
    and "proof_leaf K key v = proof_leaf K key w"
  shows "v = w"
proof -
  note inj = inj_onD [OF assms(1)]
  have e: "empty_hash K SMT_DEPTH = K empty_leaf_preimage" by (simp add: empty_hash_def)
  show ?thesis
  proof (cases v)
    case v: None
    show ?thesis
    proof (cases w)
      case (Some h)
      then have "leaf_preimage key (domain_head_value K h) = empty_leaf_preimage"
        using v assms(2)
        by (intro inj) (auto simp: proof_leaf_def leaf_preimages_def leaf_hash_def e)
      then show ?thesis by (simp add: leaf_not_empty)
    qed (simp add: v)
  next
    case v: (Some h)
    show ?thesis
    proof (cases w)
      case None
      then show ?thesis
        using v assms(2) inj [of _ empty_leaf_preimage] leaf_not_empty
        by (auto simp: proof_leaf_def leaf_preimages_def leaf_hash_def e)
    next
      case w: (Some h')
      have "leaf_preimage key (domain_head_value K h) = leaf_preimage key (domain_head_value K h')"
        using v w assms(2) by (intro inj) (auto simp: proof_leaf_def leaf_preimages_def leaf_hash_def)
      then have "K (head_value_preimage h) = K (head_value_preimage h')"
        by (simp add: leaf_preimage_inject domain_head_value_def)
      then have "head_value_preimage h = head_value_preimage h'"
        using v w by (intro inj) (auto simp: leaf_preimages_def)
      then show ?thesis using v w by (simp add: head_value_preimage_inject)
    qed
  qed
qed

lemma path_inject:
  assumes inj: "inj_on K (\<Union>d < SMT_DEPTH. {step_preimage key sibs d (smt_path K key sibs (Suc d) leaf),
      step_preimage key sibs' d (smt_path K key sibs' (Suc d) leaf')})"
    and root: "smt_path K key sibs 0 leaf = smt_path K key sibs' 0 leaf'"
  shows "d \<le> SMT_DEPTH \<Longrightarrow> smt_path K key sibs d leaf = smt_path K key sibs' d leaf'"
    and "d < SMT_DEPTH \<Longrightarrow> sibs ! d = sibs' ! d"
proof -
  have step: "smt_path K key sibs (Suc d) leaf = smt_path K key sibs' (Suc d) leaf' \<and> sibs ! d = sibs' ! d"
    if "d < SMT_DEPTH" "smt_path K key sibs d leaf = smt_path K key sibs' d leaf'" for d
  proof -
    have "K (step_preimage key sibs d (smt_path K key sibs (Suc d) leaf)) =
        K (step_preimage key sibs' d (smt_path K key sibs' (Suc d) leaf'))"
      using that(2) unfolding path_unfold [OF that(1)] path_step_preimage .
    then have "step_preimage key sibs d (smt_path K key sibs (Suc d) leaf) =
        step_preimage key sibs' d (smt_path K key sibs' (Suc d) leaf')"
      using that(1) by (intro inj_onD [OF inj]) auto
    then show ?thesis by (simp only: step_preimage_inject)
  qed
  show eq: "smt_path K key sibs d leaf = smt_path K key sibs' d leaf'" if "d \<le> SMT_DEPTH" for d
    using that
  proof (induction d)
    case (Suc d)
    then show ?case using step [of d] by simp
  qed (rule root)
  show "d < SMT_DEPTH \<Longrightarrow> sibs ! d = sibs' ! d" using step [of d] eq [of d] by simp
qed

lemma head_proof_unique:
  assumes p: "head_proof_verify K p = Ok ()" and q: "head_proof_verify K q = Ok ()"
    and same: "hp_root p = hp_root q" "hp_domain_id p = hp_domain_id q"
    and inj: "inj_on K (proof_preimages K p \<union> proof_preimages K q)"
  shows "p = q"
proof -
  let ?key = "domain_head_key K (hp_domain_id q)"
  let ?leaf = "\<lambda>p. proof_leaf K ?key (hp_value p)"
  have len: "length (hp_siblings p) = SMT_DEPTH" "length (hp_siblings q) = SMT_DEPTH"
    and root: "smt_path K ?key (hp_siblings p) 0 (?leaf p) = smt_path K ?key (hp_siblings q) 0 (?leaf q)"
    using p q same by (auto simp: head_proof_verify_def Let_def split: if_splits)
  have "inj_on K (\<Union>d < SMT_DEPTH.
      {step_preimage ?key (hp_siblings p) d (smt_path K ?key (hp_siblings p) (Suc d) (?leaf p)),
       step_preimage ?key (hp_siblings q) d (smt_path K ?key (hp_siblings q) (Suc d) (?leaf q))})"
    using same(2) by (intro inj_on_subset [OF inj]) (auto simp: proof_preimages_def Let_def)
  note eq = path_inject [OF this root]
  have "hp_siblings p = hp_siblings q"
    using len eq(2) by (intro nth_equalityI) simp_all
  moreover have "inj_on K (leaf_preimages K ?key (hp_value p) \<union> leaf_preimages K ?key (hp_value q))"
    using same(2) by (intro inj_on_subset [OF inj]) (auto simp: proof_preimages_def Let_def)
  then have "hp_value p = hp_value q"
    using eq(1) [of SMT_DEPTH] by (intro proof_leaf_inject) simp_all
  ultimately show ?thesis using same by simp
qed

section \<open>A concrete hash\<close>

text \<open>
  A function that reads the depth out of a branch preimage: it separates the byte strings of one
  path, so it can stand in for Keccak-256 in a concrete instance of soundness.
\<close>

definition depth_hash :: hash_fn where
  "depth_hash bs =
     (if length bs = 85 then word_of_nat (be_to_nat (take 2 (drop 19 bs)) + 1) else 0)"

lemma depth_hash_branch: "d < 256 \<Longrightarrow> depth_hash (branch_preimage d l r) = word_of_nat (d + 1)"
proof -
  assume d: "d < 256"
  have "be_to_nat (to_be_bytes (word_of_nat d :: u16)) = d"
    using d by (simp add: to_be_bytes_def be_to_nat_be_of_nat unat_of_nat_fits)
  then show ?thesis
    by (simp add: depth_hash_def branch_preimage_def BRANCH_TAG_def)
qed

lemma depth_hash_inj:
  assumes "hp_value p = None"
  shows "inj_on depth_hash (proof_preimages depth_hash p)"
proof (rule inj_onI)
  let ?step = "\<lambda>d. step_preimage (domain_head_key depth_hash (hp_domain_id p)) (hp_siblings p) d
    (smt_path depth_hash (domain_head_key depth_hash (hp_domain_id p)) (hp_siblings p) (Suc d)
      (proof_leaf depth_hash (domain_head_key depth_hash (hp_domain_id p)) None))"
  have step: "unat (depth_hash (?step d)) = d + 1" if "d < 256" for d
    using depth_hash_branch [OF that] that unat_of_nat_fits [where 'a = 256, of "d + 1"]
    by (simp add: step_preimage_def)
  have leaf: "unat (depth_hash empty_leaf_preimage) = 0"
    by (simp add: depth_hash_def empty_leaf_preimage_def LEAF_TAG_def)
  have pre: "x \<in> proof_preimages depth_hash p \<longleftrightarrow> (\<exists>d < 256. x = ?step d) \<or> x = empty_leaf_preimage" for x
    by (auto simp: proof_preimages_def leaf_preimages_def assms Let_def SMT_DEPTH_def)
  fix x y
  assume "x \<in> proof_preimages depth_hash p" "y \<in> proof_preimages depth_hash p"
    and "depth_hash x = depth_hash y"
  then show "x = y" unfolding pre using step leaf by (metis add_is_0 add_right_imp_eq zero_neq_one)
qed

section \<open>Properties\<close>

definition heads_get :: "hash_fn \<Rightarrow> DomainHeadsCommitment \<Rightarrow> DomainId \<Rightarrow> DomainHead option" where
  "heads_get K c d = map_option snd (bt_get c (domain_head_key K d))"

text \<open>
  (C15) The commitment proves what it holds: on any well-formed commitment, the proof produced for
  a domain verifies, carries the commitment's root, and states the domain's head, or its absence.
  Insertion and removal keep the commitment well-formed and change the head they name.
\<close>

theorem heads_proof_complete:
  assumes "bt_wf c"
  shows "head_proof_verify K (heads_proof K c d) = Ok () \<and>
    hp_root (heads_proof K c d) = heads_root K c \<and>
    hp_value (heads_proof K c d) = heads_get K c d \<and>
    bt_wf (heads_insert K d h c) \<and> heads_get K (heads_insert K d h c) d = Some h \<and>
    bt_wf (snd (heads_remove K d c)) \<and> fst (heads_remove K d c) = heads_get K c d \<and>
    heads_get K (snd (heads_remove K d c)) d = None"
  using assms heads_proof_verifies [OF assms, of K d]
  by (simp add: heads_proof_def heads_get_def heads_insert_def heads_remove_def Let_def
      btree.get_insert btree.get_remove btree.wf_insert btree.wf_remove)

theorem heads_proof_complete_witness:
  "head_proof_verify depth_hash (heads_proof depth_hash heads_new 7) = Ok () \<and>
   heads_get depth_hash (heads_insert depth_hash 7 \<lparr>head_domain_block_hash = 1, head_state_root = 2\<rparr> heads_new) 7
     = Some \<lparr>head_domain_block_hash = 1, head_state_root = 2\<rparr>"
  using heads_proof_complete [of heads_new depth_hash 7 "\<lparr>head_domain_block_hash = 1, head_state_root = 2\<rparr>"]
  by (simp add: heads_new_def)

text \<open>
  (C14) A verifying proof against the commitment's root cannot claim anything else: unless the hash
  collides on the byte strings hashed by the two verifications, it is the very proof the
  commitment produces, so its value is the domain's head, or absent exactly when the domain is.
\<close>

theorem heads_proof_sound:
  assumes "bt_wf c" and "head_proof_verify K p = Ok ()" and "hp_root p = heads_root K c"
    and "inj_on K (proof_preimages K p \<union> proof_preimages K (heads_proof K c (hp_domain_id p)))"
  shows "p = heads_proof K c (hp_domain_id p) \<and> hp_value p = heads_get K c (hp_domain_id p)"
proof -
  have "p = heads_proof K c (hp_domain_id p)"
    using assms(3) heads_proof_verifies [OF assms(1)]
    by (intro head_proof_unique [OF assms(2) _ _ _ assms(4)]) (simp_all add: heads_proof_def Let_def)
  then show ?thesis
    by (metis DomainHeadProof.select_convs(3) heads_get_def heads_proof_def)
qed

theorem heads_proof_sound_witness:
  "hp_value (heads_proof depth_hash heads_new 7) = heads_get depth_hash heads_new 7"
proof -
  let ?p = "heads_proof depth_hash heads_new 7"
  have d: "hp_domain_id ?p = 7" and v: "hp_value ?p = None" and r: "hp_root ?p = heads_root depth_hash heads_new"
    and w: "bt_wf heads_new"
    by (simp_all add: heads_proof_def heads_new_def Let_def)
  show ?thesis
    using heads_proof_sound [OF w heads_proof_verifies [OF w] r] depth_hash_inj [OF v] d by simp
qed

end
