(* ===== verification/Cursor.thy ===== *)
theory Cursor
  imports Canonical_Codec
begin

text \<open>
  The bounded cursors the crates outside \<open>arbor-codec\<close> read their own formats with: \<open>take\<close> of
  \<open>arbor-chain\<close>, \<open>take_u32\<close>, \<open>take_u64\<close> and \<open>take_hash\<close> of \<open>arbor-state\<close> and \<open>arbor-storage\<close>, and the
  \<open>Cursor\<close> types of \<open>arbor-network\<close> and \<open>arbor-consensus\<close>. They differ only in the error they
  return at the end of the input, which is the first argument here. All are readers in the sense
  of \<open>wire_field\<close>.
\<close>

definition cur_start :: "bytes \<Rightarrow> Decoder" where
  "cur_start input = \<lparr>dec_input = input, dec_position = 0\<rparr>"

definition cur_take :: "'e \<Rightarrow> nat \<Rightarrow> Decoder \<Rightarrow> (bytes \<times> Decoder, 'e) result" where
  "cur_take eof n d =
     (if dec_position d + n \<le> length (dec_input d)
      then Ok (take n (drop (dec_position d) (dec_input d)), d\<lparr>dec_position := dec_position d + n\<rparr>)
      else Err eof)"

definition cur_word :: "'e \<Rightarrow> Decoder \<Rightarrow> ('a::len word \<times> Decoder, 'e) result" where
  "cur_word eof d = bind_res (cur_take eof (LENGTH('a) div 8) d) (\<lambda>(bs, d). Ok (from_be_bytes bs, d))"

definition cur_at_end :: "Decoder \<Rightarrow> bool" where
  "cur_at_end d \<longleftrightarrow> dec_position d = length (dec_input d)"

text \<open>\<open>expect\<close>: the next bytes must be the given ones.\<close>

definition cur_expect :: "'e \<Rightarrow> 'e \<Rightarrow> bytes \<Rightarrow> Decoder \<Rightarrow> (Decoder, 'e) result" where
  "cur_expect eof bad expected d =
     bind_res (cur_take eof (length expected) d) (\<lambda>(found, d). if found \<noteq> expected then Err bad else Ok d)"

section \<open>Exactness\<close>

lemma cur_start_at: "cur_start input = dec_at [] input"
  by (simp add: cur_start_def dec_at_def)

lemma cur_take_at:
  "cur_take e n (dec_at pre r) = Ok (x, d) \<longleftrightarrow>
     length x = n \<and> (\<exists>r'. r = x @ r' \<and> d = dec_at (pre @ x) r')"
proof -
  have "cur_take e n d' = Ok y \<longleftrightarrow> dec_take n d' = Ok y" for d' y
    by (simp add: cur_take_def dec_take_def)
  then show ?thesis by (simp add: dec_take_at)
qed

lemma cur_word_exact:
  fixes x :: "'a::len word"
  assumes "8 dvd LENGTH('a)"
  shows "cur_word e (dec_at pre r) = Ok (x, d) \<longleftrightarrow>
    True \<and> (\<exists>r'. r = to_be_bytes x @ r' \<and> d = dec_at (pre @ to_be_bytes x) r')"
proof -
  have "cur_word e d' = Ok y \<longleftrightarrow> dec_word d' = Ok y" for d' and y :: "'a word \<times> Decoder"
    by (simp add: cur_word_def dec_word_def cur_take_def dec_take_def)
  then show ?thesis using dec_word_exact [OF assms] by simp
qed

lemma cur_expect_at:
  "cur_expect e b x (dec_at pre r) = Ok d \<longleftrightarrow> (\<exists>r'. r = x @ r' \<and> d = dec_at (pre @ x) r')"
  by (auto simp: cur_expect_def cur_take_at split: if_splits)

lemma bind_expect_exact:
  "bind_res (cur_expect e b x (dec_at pre r)) f = Ok v \<longleftrightarrow>
     (\<exists>r'. r = x @ r' \<and> f (dec_at (pre @ x) r') = Ok v)"
  by (auto simp: cur_expect_at)

lemma bind_cur_take_exact:
  "bind_res (cur_take e n (dec_at pre r)) (case_prod f) = Ok v \<longleftrightarrow>
     (\<exists>x r'. length x = n \<and> r = x @ r' \<and> f x (dec_at (pre @ x) r') = Ok v)"
  by (auto simp: cur_take_at split_beta; blast)

lemma cur_at_end_at [simp]: "cur_at_end (dec_at pre r) \<longleftrightarrow> r = []"
  by (simp add: cur_at_end_def dec_at_def)

interpretation c_u8: wire_field to_be_bytes "cur_word e :: Decoder \<Rightarrow> (u8 \<times> Decoder, 'e) result" "\<lambda>_. True" for e
  by unfold_locales (rule cur_word_exact, simp)

interpretation c_u16: wire_field to_be_bytes "cur_word e :: Decoder \<Rightarrow> (u16 \<times> Decoder, 'e) result" "\<lambda>_. True" for e
  by unfold_locales (rule cur_word_exact, simp)

interpretation c_u32: wire_field to_be_bytes "cur_word e :: Decoder \<Rightarrow> (u32 \<times> Decoder, 'e) result" "\<lambda>_. True" for e
  by unfold_locales (rule cur_word_exact, simp)

interpretation c_u64: wire_field to_be_bytes "cur_word e :: Decoder \<Rightarrow> (u64 \<times> Decoder, 'e) result" "\<lambda>_. True" for e
  by unfold_locales (rule cur_word_exact, simp)

interpretation c_u128: wire_field to_be_bytes "cur_word e :: Decoder \<Rightarrow> (u128 \<times> Decoder, 'e) result" "\<lambda>_. True" for e
  by unfold_locales (rule cur_word_exact, simp)

interpretation c_b256: wire_field to_be_bytes "cur_word e :: Decoder \<Rightarrow> (b256 \<times> Decoder, 'e) result" "\<lambda>_. True" for e
  by unfold_locales (rule cur_word_exact, simp)

interpretation c_address: wire_field to_be_bytes "cur_word e :: Decoder \<Rightarrow> (address \<times> Decoder, 'e) result" "\<lambda>_. True" for e
  by unfold_locales (rule cur_word_exact, simp)

lemmas cursor_exact =
  bind_expect_exact bind_cur_take_exact if_Err_exact
  c_u8.bind_exact c_u16.bind_exact c_u32.bind_exact c_u64.bind_exact c_u128.bind_exact
  c_b256.bind_exact c_address.bind_exact

end
