(* ===== verification/Snapshot_Manifest.thy ===== *)
theory Snapshot_Manifest
  imports Domain_Heads Cursor
begin

text \<open>
  \<open>arbor-state/src/snapshot.rs\<close>: the manifest of a state snapshot, a fixed-width encoding of its
  finalized height, domain, state root and content-addressed chunks. Keccak-256 is the parameter
  \<open>K\<close>. The readers are those of \<open>Cursor\<close> with this file's error values.
\<close>

definition SNAPSHOT_TAG :: bytes where
  "SNAPSHOT_TAG = ascii ''ARBOR_SNAPSHOT_MANIFEST_V1''"

definition SNAPSHOT_VERSION :: u8 where
  "SNAPSHOT_VERSION = 1"

definition MAX_SNAPSHOT_CHUNKS :: nat where
  "MAX_SNAPSHOT_CHUNKS = 65536"

definition MAX_SNAPSHOT_CHUNK_BYTES :: u32 where
  "MAX_SNAPSHOT_CHUNK_BYTES = 8388608"

record SnapshotChunk =
  sc_index :: u32
  sc_bytes :: u32
  sc_hash :: b256

record SnapshotManifest =
  sm_consensus_height :: u64
  sm_domain_id :: DomainId
  sm_state_root :: b256
  sm_chunks :: "SnapshotChunk list"

section \<open>Validation\<close>

fun validate_chunks :: "nat \<Rightarrow> SnapshotChunk list \<Rightarrow> (unit, StateError) result" where
  "validate_chunks expected [] = Ok ()"
| "validate_chunks expected (chunk # chunks) =
     (if unat (sc_index chunk) \<noteq> expected then Err (InvalidPath ''snapshot chunk ordering'')
      else if sc_bytes chunk = 0 \<or> sc_bytes chunk > MAX_SNAPSHOT_CHUNK_BYTES
      then Err (StateLimitExceeded ''snapshot chunk bytes'')
      else validate_chunks (expected + 1) chunks)"

definition manifest_validate :: "SnapshotManifest \<Rightarrow> (unit, StateError) result" where
  "manifest_validate m =
     (if length (sm_chunks m) > MAX_SNAPSHOT_CHUNKS then Err (StateLimitExceeded ''snapshot chunk count'')
      else validate_chunks 0 (sm_chunks m))"

section \<open>Encoding\<close>

definition w_chunk :: "SnapshotChunk \<Rightarrow> bytes" where
  "w_chunk c = to_be_bytes (sc_index c) @ to_be_bytes (sc_bytes c) @ to_be_bytes (sc_hash c)"

definition manifest_encode :: "SnapshotManifest \<Rightarrow> (bytes, StateError) result" where
  "manifest_encode m =
     bind_res (manifest_validate m) (\<lambda>_.
     if length (sm_chunks m) \<ge> 2 ^ 32 then Err (StateLimitExceeded ''snapshot chunk count'')
     else Ok (SNAPSHOT_TAG @ [SNAPSHOT_VERSION]
       @ to_be_bytes (sm_consensus_height m) @ to_be_bytes (sm_domain_id m) @ to_be_bytes (sm_state_root m)
       @ to_be_bytes (word_of_nat (length (sm_chunks m)) :: u32)
       @ concat (map w_chunk (sm_chunks m))))"

section \<open>Decoding\<close>

definition snap_take_u32 :: "Decoder \<Rightarrow> (u32 \<times> Decoder, StateError) result" where
  "snap_take_u32 = cur_word (MalformedRlp ''snapshot u32'')"

definition snap_take_u64 :: "Decoder \<Rightarrow> (u64 \<times> Decoder, StateError) result" where
  "snap_take_u64 = cur_word (MalformedRlp ''snapshot u64'')"

definition snap_take_hash :: "Decoder \<Rightarrow> (b256 \<times> Decoder, StateError) result" where
  "snap_take_hash = cur_word (MalformedRlp ''snapshot hash'')"

lemmas snap_takes = snap_take_u32_def snap_take_u64_def snap_take_hash_def

definition snap_take_chunk :: "Decoder \<Rightarrow> (SnapshotChunk \<times> Decoder, StateError) result" where
  "snap_take_chunk d =
     bind_res (snap_take_u32 d) (\<lambda>(index, d).
     bind_res (snap_take_u32 d) (\<lambda>(bytes, d).
     bind_res (snap_take_hash d) (\<lambda>(hash, d).
     Ok (\<lparr>sc_index = index, sc_bytes = bytes, sc_hash = hash\<rparr>, d))))"

definition manifest_decode :: "bytes \<Rightarrow> (SnapshotManifest, StateError) result" where
  "manifest_decode input =
     (let fixed = length SNAPSHOT_TAG + 1 + 8 + 32 + 32 + 4; cursor = length SNAPSHOT_TAG in
      if length input < fixed \<or> take cursor input \<noteq> SNAPSHOT_TAG
      then Err (MalformedRlp ''snapshot manifest tag/length'')
      else if input ! cursor \<noteq> SNAPSHOT_VERSION then Err (MalformedRlp ''snapshot manifest version'')
      else
        bind_res (snap_take_u64 \<lparr>dec_input = input, dec_position = cursor + 1\<rparr>) (\<lambda>(consensus_height, d).
        bind_res (snap_take_hash d) (\<lambda>(domain_id, d).
        bind_res (snap_take_hash d) (\<lambda>(state_root, d).
        bind_res (snap_take_u32 d) (\<lambda>(count, d).
        if unat count > MAX_SNAPSHOT_CHUNKS then Err (StateLimitExceeded ''snapshot chunk count'')
        else if dec_position d + unat count * 40 \<ge> 2 ^ 64 then Err (StateLimitExceeded ''snapshot encoded size'')
        else if length input \<noteq> dec_position d + unat count * 40
        then Err (MalformedRlp ''snapshot manifest trailing/truncated'')
        else
          bind_res (dec_many snap_take_chunk (unat count) d) (\<lambda>(chunks, d).
          let manifest = \<lparr>sm_consensus_height = consensus_height, sm_domain_id = domain_id,
                sm_state_root = state_root, sm_chunks = chunks\<rparr> in
          bind_res (manifest_validate manifest) (\<lambda>_. Ok manifest)))))))"

definition manifest_hash :: "hash_fn \<Rightarrow> SnapshotManifest \<Rightarrow> (b256, StateError) result" where
  "manifest_hash K m = bind_res (manifest_encode m) (\<lambda>bs. Ok (K bs))"

definition verify_chunk :: "hash_fn \<Rightarrow> SnapshotChunk \<Rightarrow> bytes \<Rightarrow> bool" where
  "verify_chunk K chunk bs \<longleftrightarrow> unat (sc_bytes chunk) = length bs \<and> K bs = sc_hash chunk"

section \<open>Exactness\<close>

interpretation f_chunk: wire_field w_chunk snap_take_chunk "\<lambda>_. True"
proof
  fix pre r x d
  show "snap_take_chunk (dec_at pre r) = Ok (x, d) \<longleftrightarrow>
      True \<and> (\<exists>r'. r = w_chunk x @ r' \<and> d = dec_at (pre @ w_chunk x) r')"
    unfolding snap_take_chunk_def snap_takes cursor_exact w_chunk_def by (cases x) auto
qed

lemma length_w_chunk [simp]: "length (w_chunk c) = 40"
  by (simp add: w_chunk_def)

lemma length_chunks: "length (concat (map w_chunk cs)) = 40 * length cs"
  by (induction cs) auto

lemma manifest_validate_length: "manifest_validate m = Ok u \<Longrightarrow> length (sm_chunks m) \<le> MAX_SNAPSHOT_CHUNKS"
  by (simp add: manifest_validate_def split: if_splits)

lemma manifest_encode_Ok:
  "manifest_encode m = Ok bs \<longleftrightarrow> manifest_validate m = Ok () \<and>
     bs = SNAPSHOT_TAG @ [SNAPSHOT_VERSION] @ to_be_bytes (sm_consensus_height m) @ to_be_bytes (sm_domain_id m)
       @ to_be_bytes (sm_state_root m) @ w_count (length (sm_chunks m)) @ concat (map w_chunk (sm_chunks m))"
  using manifest_validate_length [of m "()"]
  by (auto simp: manifest_encode_def w_count_def MAX_SNAPSHOT_CHUNKS_def if_Err_exact)

lemma tagged_input:
  "\<not> (length input < length tag + 77 \<or> take (length tag) input \<noteq> tag) \<and> input ! length tag = v \<longleftrightarrow>
     (\<exists>r. input = (tag @ [v]) @ r \<and> 76 \<le> length r)"
proof
  assume a: "\<not> (length input < length tag + 77 \<or> take (length tag) input \<noteq> tag) \<and> input ! length tag = v"
  then have "input = tag @ v # drop (Suc (length tag)) input"
    using id_take_nth_drop [of "length tag" input] by simp
  then show "\<exists>r. input = (tag @ [v]) @ r \<and> 76 \<le> length r"
    using a by (intro exI [of _ "drop (Suc (length tag)) input"]) auto
qed auto

lemma manifest_decode_tagged:
  assumes "bs = (SNAPSHOT_TAG @ [SNAPSHOT_VERSION]) @ r" and "76 \<le> length r"
  shows "manifest_decode bs = Ok m \<longleftrightarrow> manifest_validate m = Ok () \<and> length (sm_chunks m) \<le> MAX_SNAPSHOT_CHUNKS \<and>
    r = to_be_bytes (sm_consensus_height m) @ to_be_bytes (sm_domain_id m) @ to_be_bytes (sm_state_root m)
      @ w_count (length (sm_chunks m)) @ concat (map w_chunk (sm_chunks m))" (is "_ \<longleftrightarrow> ?spec")
proof -
  let ?pre = "SNAPSHOT_TAG @ [SNAPSHOT_VERSION]"
  have start: "\<lparr>dec_input = bs, dec_position = length SNAPSHOT_TAG + 1\<rparr> = dec_at ?pre r"
    by (simp add: dec_at_def assms)
  have ok: "\<not> (length bs < length SNAPSHOT_TAG + 1 + 8 + 32 + 32 + 4 \<or> take (length SNAPSHOT_TAG) bs \<noteq> SNAPSHOT_TAG)"
      "bs ! length SNAPSHOT_TAG = SNAPSHOT_VERSION"
    using assms by (auto simp: nth_append)
  have pos: "dec_position (dec_at p q) = length p" for p q
    by (simp add: dec_at_def)
  have "manifest_decode bs = Ok m \<longleftrightarrow> (\<exists>h dom root (c :: u32) cs.
      r = to_be_bytes h @ to_be_bytes dom @ to_be_bytes root @ to_be_bytes c @ concat (map w_chunk cs)
        \<and> unat c \<le> MAX_SNAPSHOT_CHUNKS \<and> length cs = unat c \<and> manifest_validate m = Ok ()
        \<and> m = \<lparr>sm_consensus_height = h, sm_domain_id = dom, sm_state_root = root, sm_chunks = cs\<rparr>)" (is "_ \<longleftrightarrow> ?fields")
    unfolding manifest_decode_def Let_def start snap_takes cursor_exact f_chunk.bind_many_exact pos
    using ok by (auto simp: assms(1) length_chunks MAX_SNAPSHOT_CHUNKS_def SNAPSHOT_TAG_def ascii_def
      to_be_bytes_inject)
  also have "?fields \<longleftrightarrow> ?spec"
  proof
    assume ?fields
    then show ?spec
      by (auto simp: w_count_def)
  next
    assume spec: ?spec
    then have "unat (word_of_nat (length (sm_chunks m)) :: u32) = length (sm_chunks m)"
      by (intro unat_of_nat_fits) (simp add: MAX_SNAPSHOT_CHUNKS_def)
    with spec show ?fields
      by (intro exI [of _ "sm_consensus_height m"] exI [of _ "sm_domain_id m"] exI [of _ "sm_state_root m"]
          exI [of _ "word_of_nat (length (sm_chunks m))"] exI [of _ "sm_chunks m"]) (simp add: w_count_def)
  qed
  finally show ?thesis .
qed

lemma manifest_exact: "manifest_decode bs = Ok m \<longleftrightarrow> manifest_encode m = Ok bs"
proof
  assume dec: "manifest_decode bs = Ok m"
  then obtain r where r: "bs = (SNAPSHOT_TAG @ [SNAPSHOT_VERSION]) @ r" "76 \<le> length r"
    unfolding manifest_decode_def Let_def if_Err_exact
    using tagged_input [of bs SNAPSHOT_TAG SNAPSHOT_VERSION] by (auto simp: numeral_eq_Suc)
  with dec show "manifest_encode m = Ok bs"
    using manifest_decode_tagged [OF r, of m] unfolding manifest_encode_Ok by simp
next
  assume "manifest_encode m = Ok bs"
  then have enc: "manifest_validate m = Ok ()" "bs = (SNAPSHOT_TAG @ [SNAPSHOT_VERSION]) @
      to_be_bytes (sm_consensus_height m) @ to_be_bytes (sm_domain_id m) @ to_be_bytes (sm_state_root m)
        @ w_count (length (sm_chunks m)) @ concat (map w_chunk (sm_chunks m))"
    unfolding manifest_encode_Ok by simp_all
  show "manifest_decode bs = Ok m"
    using manifest_decode_tagged [OF enc(2), of m] enc(1) manifest_validate_length [OF enc(1)]
    by (simp add: w_count_def)
qed

definition chunk_in_place :: "nat \<times> SnapshotChunk \<Rightarrow> bool" where
  "chunk_in_place = (\<lambda>(i, c). unat (sc_index c) = i \<and> 0 < sc_bytes c \<and> sc_bytes c \<le> MAX_SNAPSHOT_CHUNK_BYTES)"

lemma validate_chunks_Ok: "validate_chunks i cs = Ok () \<longleftrightarrow> list_all chunk_in_place (enumerate i cs)"
  by (induction i cs rule: validate_chunks.induct)
    (auto simp: if_Err_exact chunk_in_place_def not_less word_neq_0_conv)

lemma manifest_encode_is_ok:
  "is_ok (manifest_encode m) \<longleftrightarrow> length (sm_chunks m) \<le> MAX_SNAPSHOT_CHUNKS
     \<and> list_all chunk_in_place (enumerate 0 (sm_chunks m))"
proof -
  have "is_ok (manifest_encode m) \<longleftrightarrow> manifest_validate m = Ok ()"
    using manifest_encode_Ok [of m] by (cases "manifest_encode m") auto
  then show ?thesis
    by (simp add: manifest_validate_def validate_chunks_Ok if_Err_exact not_less)
qed

section \<open>Properties\<close>

text \<open>
  (C26) The snapshot manifest has one encoding: the reader returns a manifest exactly for the bytes
  the writer produces for it, and every manifest it returns satisfies the bounds on chunk count and
  chunk size, with chunks indexed consecutively from zero.
\<close>

theorem snapshot_manifest_canonical:
  "(manifest_decode bs = Ok m \<longleftrightarrow> manifest_encode m = Ok bs)
    \<and> (is_ok (manifest_encode m) \<longleftrightarrow> length (sm_chunks m) \<le> MAX_SNAPSHOT_CHUNKS
         \<and> list_all (\<lambda>(i, c). unat (sc_index c) = i \<and> 0 < sc_bytes c \<and> sc_bytes c \<le> MAX_SNAPSHOT_CHUNK_BYTES)
             (enumerate 0 (sm_chunks m)))"
  using manifest_exact manifest_encode_is_ok by (simp add: chunk_in_place_def)

end
