(* ===== verification/Chain_Registry.thy ===== *)
theory Chain_Registry
  imports Crypto BTree_Map
begin

text \<open>
  \<open>arbor-system\<close>: the ABI of the root \<open>ChainRegistry\<close>, the normalisation of display metadata, the
  deterministic creation of a domain and the registry's storage layout. Rust \<open>String\<close>s are their
  UTF-8 bytes; Keccak-256 is the parameter \<open>K\<close>; a \<open>usize\<close> is a natural number.
\<close>

section \<open>Constants and data\<close>

definition SYSTEM_ADDRESS_REGISTRY_VERSION :: u32 where
  "SYSTEM_ADDRESS_REGISTRY_VERSION = 1"

definition PROTOCOL_INFO_IMPLEMENTATION_VERSION :: u32 where
  "PROTOCOL_INFO_IMPLEMENTATION_VERSION = 1"

definition CHAIN_REGISTRY_IMPLEMENTATION_VERSION :: u32 where
  "CHAIN_REGISTRY_IMPLEMENTATION_VERSION = 1"

definition PROTOCOL_INFO_GAS :: u64 where
  "PROTOCOL_INFO_GAS = 500"

definition CHAIN_REGISTRY_CREATE_GAS :: u64 where
  "CHAIN_REGISTRY_CREATE_GAS = 180000"

definition CHAIN_REGISTRY_DEPOSIT_GAS :: u64 where
  "CHAIN_REGISTRY_DEPOSIT_GAS = 45000"

definition MIN_CREATION_DEPOSIT :: u256 where
  "MIN_CREATION_DEPOSIT = 1000000000000000000"

definition CREATION_DEPOSIT_LOCK_BLOCKS :: u64 where
  "CREATION_DEPOSIT_LOCK_BLOCKS = 100"

definition PROTOCOL_INFO_ADDRESS :: address where
  "PROTOCOL_INFO_ADDRESS = 0x800"

definition CHAIN_REGISTRY_ADDRESS :: address where
  "CHAIN_REGISTRY_ADDRESS = 0x801"

definition PROTOCOL_INFO_ABI_SIGNATURE :: bytes where
  "PROTOCOL_INFO_ABI_SIGNATURE = ascii ''protocolInfo()''"

definition CREATE_CHAIN_ABI_SIGNATURE :: bytes where
  "CREATE_CHAIN_ABI_SIGNATURE =
     ascii ''createChain(bytes32,string,string,uint64,address,uint64,uint128,uint256,uint32)''"

definition REFUND_DEPOSIT_ABI_SIGNATURE :: bytes where
  "REFUND_DEPOSIT_ABI_SIGNATURE = ascii ''refundDeposit(bytes32)''"

definition BURN_DEPOSIT_ABI_SIGNATURE :: bytes where
  "BURN_DEPOSIT_ABI_SIGNATURE = ascii ''burnDeposit(bytes32)''"

definition REGISTRY_DESCRIPTOR_TAG :: bytes where
  "REGISTRY_DESCRIPTOR_TAG = ascii ''ARBOR_CHAIN_REGISTRY_DESCRIPTOR_V1''"

definition REGISTRY_CHAIN_ID_TAG :: bytes where
  "REGISTRY_CHAIN_ID_TAG = ascii ''ARBOR_CHAIN_REGISTRY_CHAIN_ID_V1''"

definition REGISTRY_CREATION_HEIGHT_TAG :: bytes where
  "REGISTRY_CREATION_HEIGHT_TAG = ascii ''ARBOR_CHAIN_REGISTRY_CREATION_HEIGHT_V1''"

definition REGISTRY_DEPOSIT_TAG :: bytes where
  "REGISTRY_DEPOSIT_TAG = ascii ''ARBOR_CHAIN_REGISTRY_DEPOSIT_V1''"

definition REGISTRY_DEPOSIT_UNLOCK_TAG :: bytes where
  "REGISTRY_DEPOSIT_UNLOCK_TAG = ascii ''ARBOR_CHAIN_REGISTRY_DEPOSIT_UNLOCK_V1''"

definition REGISTRY_OWNER_TAG :: bytes where
  "REGISTRY_OWNER_TAG = ascii ''ARBOR_CHAIN_REGISTRY_OWNER_V1''"

definition REGISTRY_DEPOSIT_STATUS_TAG :: bytes where
  "REGISTRY_DEPOSIT_STATUS_TAG = ascii ''ARBOR_CHAIN_REGISTRY_DEPOSIT_STATUS_V1''"

definition ROOT_DOMAIN_MARKER_TAG :: bytes where
  "ROOT_DOMAIN_MARKER_TAG = ascii ''ARBOR_ROOT_DOMAIN_MARKER_V1''"

lemmas registry_tags = REGISTRY_DESCRIPTOR_TAG_def REGISTRY_CHAIN_ID_TAG_def
  REGISTRY_CREATION_HEIGHT_TAG_def REGISTRY_DEPOSIT_TAG_def REGISTRY_DEPOSIT_UNLOCK_TAG_def
  REGISTRY_OWNER_TAG_def REGISTRY_DEPOSIT_STATUS_TAG_def

record SystemContract =
  sc_address :: address
  sc_abi_hash :: b256
  sc_implementation_version :: u32
  sc_max_gas_cost :: u64

record CreateChainRequest =
  cr_parent_domain_id :: DomainId
  cr_name :: bytes
  cr_symbol :: bytes
  cr_evm_chain_id :: u64
  cr_owner :: address
  cr_gas_limit :: u64
  cr_initial_base_fee :: u128
  cr_initial_supply :: u256
  cr_protocol_revision :: u32

record PreparedChainCreation =
  pc_request :: CreateChainRequest
  pc_descriptor :: DomainDescriptor
  pc_descriptor_hash :: b256
  pc_creation_height :: u64
  pc_deposit_unlock_height :: u64

record ChainRegistryRuntime =
  rt_root_domain_id :: DomainId
  rt_executing_domain_id :: DomainId
  rt_consensus_height :: u64
  rt_governance_address :: address
  rt_prepared_creation :: "PreparedChainCreation option"

datatype CreationDepositStatus = Locked | Refunded | Burned

fun deposit_status_u8 :: "CreationDepositStatus \<Rightarrow> u8" where
  "deposit_status_u8 Locked = 1"
| "deposit_status_u8 Refunded = 2"
| "deposit_status_u8 Burned = 3"

text \<open>The source renders the cause of \<open>Encoding\<close>; here it is kept as a value.\<close>

datatype ChainRegistryError =
    InvalidCalldata
  | InvalidMetadata
  | InvalidParameter string
  | InsufficientDeposit u256 u256
  | HeightOverflow
  | Encoding CryptoError

section \<open>Display metadata\<close>

definition is_ascii_whitespace :: "u8 \<Rightarrow> bool" where
  "is_ascii_whitespace b \<longleftrightarrow> b = 0x20 \<or> b = 0x09 \<or> b = 0x0A \<or> b = 0x0C \<or> b = 0x0D"

definition is_ascii_alphanumeric :: "u8 \<Rightarrow> bool" where
  "is_ascii_alphanumeric b \<longleftrightarrow>
     0x30 \<le> b \<and> b \<le> 0x39 \<or> 0x41 \<le> b \<and> b \<le> 0x5A \<or> 0x61 \<le> b \<and> b \<le> 0x7A"

definition to_ascii_uppercase :: "u8 \<Rightarrow> u8" where
  "to_ascii_uppercase b = (if 0x61 \<le> b \<and> b \<le> 0x7A then b - 0x20 else b)"

text \<open>\<open>split_ascii_whitespace\<close>: the maximal runs of other bytes.\<close>

function split_ascii_whitespace :: "bytes \<Rightarrow> bytes list" where
  "split_ascii_whitespace [] = []"
| "split_ascii_whitespace (b # bs) =
     (if is_ascii_whitespace b then split_ascii_whitespace bs
      else (b # takeWhile (\<lambda>c. \<not> is_ascii_whitespace c) bs)
           # split_ascii_whitespace (dropWhile (\<lambda>c. \<not> is_ascii_whitespace c) bs))"
  by pat_completeness auto
termination
  by (relation "measure length") (auto simp: less_Suc_eq_le length_dropWhile_le)

fun join_space :: "bytes list \<Rightarrow> bytes" where
  "join_space [] = []"
| "join_space [w] = w"
| "join_space (w # ws) = w @ 0x20 # join_space ws"

text \<open>
  \<open>str::trim\<close> strips the characters with the Unicode property \<open>White_Space\<close>; \<open>white_space\<close> lists
  their UTF-8 encodings.
\<close>

definition white_space :: "bytes list" where
  "white_space =
     map (\<lambda>b. [b]) [0x09, 0x0A, 0x0B, 0x0C, 0x0D, 0x20]
     @ [[0xC2, 0x85], [0xC2, 0xA0], [0xE1, 0x9A, 0x80]]
     @ map (\<lambda>b. [0xE2, 0x80, b]) [0x80, 0x81, 0x82, 0x83, 0x84, 0x85, 0x86, 0x87, 0x88, 0x89, 0x8A,
         0xA8, 0xA9, 0xAF]
     @ [[0xE2, 0x81, 0x9F], [0xE3, 0x80, 0x80]]"

definition starts_with :: "bytes \<Rightarrow> bytes \<Rightarrow> bool" where
  "starts_with p bs \<longleftrightarrow> take (length p) bs = p"

function trim_with :: "bytes list \<Rightarrow> bytes \<Rightarrow> bytes" where
  "trim_with ps bs =
     (case find (\<lambda>p. p \<noteq> [] \<and> starts_with p bs) ps of
        None \<Rightarrow> bs
      | Some p \<Rightarrow> trim_with ps (drop (length p) bs))"
  by pat_completeness auto
termination
  by (relation "measure (\<lambda>(_, bs). length bs)")
    (auto simp: find_Some_iff starts_with_def, metis take_Nil length_greater_0_conv diff_less)

declare trim_with.simps [simp del]

definition str_trim :: "bytes \<Rightarrow> bytes" where
  "str_trim bs = rev (trim_with (map rev white_space) (rev (trim_with white_space bs)))"

definition name_byte :: "u8 \<Rightarrow> bool" where
  "name_byte b \<longleftrightarrow> is_ascii_alphanumeric b \<or> b = 0x20 \<or> b = 0x2D \<or> b = 0x5F \<or> b = 0x2E"

definition normalize_name :: "bytes \<Rightarrow> (bytes, ChainRegistryError) result" where
  "normalize_name bs =
     (if \<not> utf8_valid bs then Err InvalidMetadata
      else let normalized = join_space (split_ascii_whitespace bs) in
        if normalized = [] \<or> length normalized > 64 \<or> \<not> list_all name_byte normalized
        then Err InvalidMetadata else Ok normalized)"

definition normalize_symbol :: "bytes \<Rightarrow> (bytes, ChainRegistryError) result" where
  "normalize_symbol bs =
     (if \<not> utf8_valid bs then Err InvalidMetadata
      else let normalized = map to_ascii_uppercase (str_trim bs) in
        if normalized = [] \<or> length normalized > 16 \<or> \<not> list_all is_ascii_alphanumeric normalized
        then Err InvalidMetadata else Ok normalized)"

definition validate_request :: "CreateChainRequest \<Rightarrow> (unit, ChainRegistryError) result" where
  "validate_request r =
     (if cr_parent_domain_id r = 0 then Err (InvalidParameter ''zero parent domain'')
      else if cr_evm_chain_id r = 0 then Err (InvalidParameter ''zero EVM chain ID'')
      else if cr_owner r = 0 then Err (InvalidParameter ''zero owner'')
      else if cr_gas_limit r = 0 \<or> cr_gas_limit r > 30000000
        then Err (InvalidParameter ''domain gas limit'')
      else if cr_initial_base_fee r > ucast (- 1 :: u64)
        then Err (InvalidParameter ''initial base fee'')
      else if cr_protocol_revision r \<noteq> 1 then Err (InvalidParameter ''protocol revision'')
      else Ok ())"

section \<open>ABI words\<close>

named_theorems abi_simps

definition selector :: "hash_fn \<Rightarrow> bytes \<Rightarrow> bytes" where
  "selector K signature = take 4 (to_be_bytes (K signature))"

definition put_word_u64 :: "u64 \<Rightarrow> bytes" where
  "put_word_u64 v = replicate 24 0 @ to_be_bytes v"

definition put_word_usize :: "nat \<Rightarrow> bytes" where
  "put_word_usize v = put_word_u64 (word_of_nat v)"

definition put_word_u128 :: "u128 \<Rightarrow> bytes" where
  "put_word_u128 v = replicate 16 0 @ to_be_bytes v"

definition put_word_u32 :: "u32 \<Rightarrow> bytes" where
  "put_word_u32 v = replicate 28 0 @ to_be_bytes v"

definition decode_u64_word :: "bytes \<Rightarrow> (u64, ChainRegistryError) result" where
  "decode_u64_word word =
     (if length word \<noteq> 32 \<or> take 24 word \<noteq> replicate 24 0 then Err InvalidCalldata
      else Ok (from_be_bytes (drop 24 word)))"

definition decode_usize_word :: "bytes \<Rightarrow> (nat, ChainRegistryError) result" where
  "decode_usize_word word =
     (if length word \<noteq> 32 \<or> take 24 word \<noteq> replicate 24 0 then Err InvalidCalldata
      else Ok (unat (from_be_bytes (drop 24 word) :: u64)))"

definition decode_u128_word :: "bytes \<Rightarrow> (u128, ChainRegistryError) result" where
  "decode_u128_word word =
     (if length word \<noteq> 32 \<or> take 16 word \<noteq> replicate 16 0 then Err InvalidCalldata
      else Ok (from_be_bytes (drop 16 word)))"

definition decode_u32_word :: "bytes \<Rightarrow> (u32, ChainRegistryError) result" where
  "decode_u32_word word =
     (if length word \<noteq> 32 \<or> take 28 word \<noteq> replicate 28 0 then Err InvalidCalldata
      else Ok (from_be_bytes (drop 28 word)))"

text \<open>\<open>slice::get(from..to)\<close>.\<close>

definition get_range :: "nat \<Rightarrow> nat \<Rightarrow> bytes \<Rightarrow> bytes option" where
  "get_range from to bs =
     (if from \<le> to \<and> to \<le> length bs then Some (take (to - from) (drop from bs)) else None)"

definition abi_bytes_tail :: "bytes \<Rightarrow> bytes" where
  "abi_bytes_tail v =
     (let padded = (length v + 31) div 32 * 32 in
      put_word_usize (length v) @ v @ replicate (padded - length v) 0)"

definition decode_dynamic_bytes :: "bytes \<Rightarrow> nat \<Rightarrow> nat \<Rightarrow> (bytes \<times> nat, ChainRegistryError) result" where
  "decode_dynamic_bytes args offset limit =
     (if offset mod 32 \<noteq> 0 then Err InvalidCalldata else
      bind_res (ok_or InvalidCalldata (get_range offset (offset + 32) args)) (\<lambda>length_word.
      bind_res (decode_usize_word length_word) (\<lambda>len.
      if len > limit then Err InvalidMetadata else
      let start = offset + 32; padded = (len + 31) div 32 * 32; end_pos = start + padded in
      bind_res (ok_or InvalidCalldata (get_range start (start + len) args)) (\<lambda>data.
      bind_res (ok_or InvalidCalldata (get_range (start + len) end_pos args)) (\<lambda>padding.
      if list_ex (\<lambda>b. b \<noteq> 0) padding then Err InvalidCalldata
      else Ok (data, end_pos))))))"

section \<open>Calls\<close>

definition protocol_info_contract :: "hash_fn \<Rightarrow> SystemContract" where
  "protocol_info_contract K =
     \<lparr>sc_address = PROTOCOL_INFO_ADDRESS, sc_abi_hash = K PROTOCOL_INFO_ABI_SIGNATURE,
      sc_implementation_version = PROTOCOL_INFO_IMPLEMENTATION_VERSION,
      sc_max_gas_cost = PROTOCOL_INFO_GAS\<rparr>"

definition chain_registry_contract :: "hash_fn \<Rightarrow> SystemContract" where
  "chain_registry_contract K =
     \<lparr>sc_address = CHAIN_REGISTRY_ADDRESS,
      sc_abi_hash = K (CREATE_CHAIN_ABI_SIGNATURE @ REFUND_DEPOSIT_ABI_SIGNATURE
        @ BURN_DEPOSIT_ABI_SIGNATURE),
      sc_implementation_version = CHAIN_REGISTRY_IMPLEMENTATION_VERSION,
      sc_max_gas_cost = CHAIN_REGISTRY_CREATE_GAS\<rparr>"

definition protocol_info_selector :: "hash_fn \<Rightarrow> bytes" where
  "protocol_info_selector K = selector K PROTOCOL_INFO_ABI_SIGNATURE"

definition create_chain_selector :: "hash_fn \<Rightarrow> bytes" where
  "create_chain_selector K = selector K CREATE_CHAIN_ABI_SIGNATURE"

definition refund_deposit_selector :: "hash_fn \<Rightarrow> bytes" where
  "refund_deposit_selector K = selector K REFUND_DEPOSIT_ABI_SIGNATURE"

definition burn_deposit_selector :: "hash_fn \<Rightarrow> bytes" where
  "burn_deposit_selector K = selector K BURN_DEPOSIT_ABI_SIGNATURE"

definition encode_domain_id_call :: "bytes \<Rightarrow> DomainId \<Rightarrow> bytes" where
  "encode_domain_id_call sel domain_id = sel @ to_be_bytes domain_id"

definition decode_domain_id_call :: "bytes \<Rightarrow> bytes \<Rightarrow> DomainId option" where
  "decode_domain_id_call input sel =
     (if length input = 36 \<and> take 4 input = sel then Some (from_be_bytes (drop 4 input)) else None)"

definition encode_refund_deposit_call :: "hash_fn \<Rightarrow> DomainId \<Rightarrow> bytes" where
  "encode_refund_deposit_call K d = encode_domain_id_call (refund_deposit_selector K) d"

definition encode_burn_deposit_call :: "hash_fn \<Rightarrow> DomainId \<Rightarrow> bytes" where
  "encode_burn_deposit_call K d = encode_domain_id_call (burn_deposit_selector K) d"

definition decode_refund_deposit_call :: "hash_fn \<Rightarrow> bytes \<Rightarrow> DomainId option" where
  "decode_refund_deposit_call K input = decode_domain_id_call input (refund_deposit_selector K)"

definition decode_burn_deposit_call :: "hash_fn \<Rightarrow> bytes \<Rightarrow> DomainId option" where
  "decode_burn_deposit_call K input = decode_domain_id_call input (burn_deposit_selector K)"

text \<open>\<open>copy_from_slice\<close> into the range that starts at \<open>at\<close>.\<close>

definition patch :: "nat \<Rightarrow> bytes \<Rightarrow> bytes \<Rightarrow> bytes" where
  "patch at v out = take at out @ v @ drop (at + length v) out"

definition encode_protocol_info :: "u32 \<Rightarrow> u8 \<Rightarrow> u64 \<Rightarrow> bytes" where
  "encode_protocol_info protocol_revision evm_revision chain_id =
     patch 120 (to_be_bytes chain_id)
       (patch 92 (to_be_bytes SYSTEM_ADDRESS_REGISTRY_VERSION)
         ((patch 28 (to_be_bytes protocol_revision) (replicate (32 * 4) 0))[63 := evm_revision]))"

definition encode_create_chain_call :: "hash_fn \<Rightarrow> CreateChainRequest \<Rightarrow> (bytes, ChainRegistryError) result" where
  "encode_create_chain_call K request =
     bind_res (normalize_name (cr_name request)) (\<lambda>name.
     bind_res (normalize_symbol (cr_symbol request)) (\<lambda>symbol.
     let r = request\<lparr>cr_name := name, cr_symbol := symbol\<rparr> in
     bind_res (validate_request r) (\<lambda>_.
     let name_tail = abi_bytes_tail name; symbol_tail = abi_bytes_tail symbol;
         name_offset = 9 * 32; symbol_offset = name_offset + length name_tail in
     Ok (create_chain_selector K
       @ to_be_bytes (cr_parent_domain_id r)
       @ put_word_usize name_offset
       @ put_word_usize symbol_offset
       @ put_word_u64 (cr_evm_chain_id r)
       @ replicate 12 0 @ to_be_bytes (cr_owner r)
       @ put_word_u64 (cr_gas_limit r)
       @ put_word_u128 (cr_initial_base_fee r)
       @ to_be_bytes (cr_initial_supply r)
       @ put_word_u32 (cr_protocol_revision r)
       @ name_tail @ symbol_tail))))"

definition abi_word :: "bytes \<Rightarrow> nat \<Rightarrow> (bytes, ChainRegistryError) result" where
  "abi_word args index = ok_or InvalidCalldata (get_range (index * 32) ((index + 1) * 32) args)"

definition decode_create_chain_call :: "hash_fn \<Rightarrow> bytes \<Rightarrow> (CreateChainRequest, ChainRegistryError) result" where
  "decode_create_chain_call K input =
     (if length input < 4 + 9 * 32 \<or> take 4 input \<noteq> create_chain_selector K
      then Err InvalidCalldata else
      let args = drop 4 input; word = abi_word args in
      bind_res (word 0) (\<lambda>w0. let parent_domain_id = from_be_bytes w0 in
      bind_res (word 1) (\<lambda>w1. bind_res (decode_usize_word w1) (\<lambda>name_offset.
      bind_res (word 2) (\<lambda>w2. bind_res (decode_usize_word w2) (\<lambda>symbol_offset.
      if name_offset \<noteq> 9 * 32 \<or> symbol_offset < name_offset + 32 then Err InvalidCalldata else
      bind_res (decode_dynamic_bytes args name_offset 64) (\<lambda>(name_bytes, name_end).
      if symbol_offset \<noteq> name_end then Err InvalidCalldata else
      bind_res (decode_dynamic_bytes args symbol_offset 16) (\<lambda>(symbol_bytes, symbol_end).
      if symbol_end \<noteq> length args then Err InvalidCalldata else
      bind_res (word 3) (\<lambda>w3. bind_res (decode_u64_word w3) (\<lambda>evm_chain_id.
      bind_res (word 4) (\<lambda>owner_word.
      if take 12 owner_word \<noteq> replicate 12 0 then Err InvalidCalldata else
      let owner = from_be_bytes (drop 12 owner_word) in
      bind_res (word 5) (\<lambda>w5. bind_res (decode_u64_word w5) (\<lambda>gas_limit.
      bind_res (word 6) (\<lambda>w6. bind_res (decode_u128_word w6) (\<lambda>initial_base_fee.
      bind_res (word 7) (\<lambda>w7. let initial_supply = from_be_bytes w7 in
      bind_res (word 8) (\<lambda>w8. bind_res (decode_u32_word w8) (\<lambda>protocol_revision.
      bind_res (normalize_name name_bytes) (\<lambda>name.
      bind_res (normalize_symbol symbol_bytes) (\<lambda>symbol.
      let r = \<lparr>cr_parent_domain_id = parent_domain_id, cr_name = name, cr_symbol = symbol,
            cr_evm_chain_id = evm_chain_id, cr_owner = owner, cr_gas_limit = gas_limit,
            cr_initial_base_fee = initial_base_fee, cr_initial_supply = initial_supply,
            cr_protocol_revision = protocol_revision\<rparr> in
      bind_res (validate_request r) (\<lambda>_. Ok r)))))))))))))))))))))"

section \<open>Registry storage\<close>

definition tagged_slot :: "hash_fn \<Rightarrow> bytes \<Rightarrow> bytes \<Rightarrow> u256" where
  "tagged_slot K tag key = K (tag @ key)"

definition descriptor_slot :: "hash_fn \<Rightarrow> DomainId \<Rightarrow> u256" where
  "descriptor_slot K d = tagged_slot K REGISTRY_DESCRIPTOR_TAG (to_be_bytes d)"

definition chain_id_slot :: "hash_fn \<Rightarrow> u64 \<Rightarrow> u256" where
  "chain_id_slot K chain_id = tagged_slot K REGISTRY_CHAIN_ID_TAG (to_be_bytes chain_id)"

definition creation_height_slot :: "hash_fn \<Rightarrow> DomainId \<Rightarrow> u256" where
  "creation_height_slot K d = tagged_slot K REGISTRY_CREATION_HEIGHT_TAG (to_be_bytes d)"

definition deposit_slot :: "hash_fn \<Rightarrow> DomainId \<Rightarrow> u256" where
  "deposit_slot K d = tagged_slot K REGISTRY_DEPOSIT_TAG (to_be_bytes d)"

definition deposit_unlock_slot :: "hash_fn \<Rightarrow> DomainId \<Rightarrow> u256" where
  "deposit_unlock_slot K d = tagged_slot K REGISTRY_DEPOSIT_UNLOCK_TAG (to_be_bytes d)"

definition owner_slot :: "hash_fn \<Rightarrow> DomainId \<Rightarrow> u256" where
  "owner_slot K d = tagged_slot K REGISTRY_OWNER_TAG (to_be_bytes d)"

definition deposit_status_slot :: "hash_fn \<Rightarrow> DomainId \<Rightarrow> u256" where
  "deposit_status_slot K d = tagged_slot K REGISTRY_DEPOSIT_STATUS_TAG (to_be_bytes d)"

lemmas registry_slots = descriptor_slot_def chain_id_slot_def creation_height_slot_def
  deposit_slot_def deposit_unlock_slot_def owner_slot_def deposit_status_slot_def tagged_slot_def

definition creation_storage_writes :: "hash_fn \<Rightarrow> PreparedChainCreation \<Rightarrow> (u256 \<times> u256) list" where
  "creation_storage_writes K prepared =
     (let d = pc_descriptor prepared; domain_id = dd_domain_id d in
      [(descriptor_slot K domain_id, pc_descriptor_hash prepared),
       (chain_id_slot K (dd_evm_chain_id d), domain_id),
       (creation_height_slot K domain_id, ucast (pc_creation_height prepared)),
       (deposit_slot K domain_id, dd_creation_deposit d),
       (deposit_unlock_slot K domain_id, ucast (pc_deposit_unlock_height prepared)),
       (owner_slot K domain_id, ucast (dd_owner d)),
       (deposit_status_slot K domain_id, ucast (deposit_status_u8 Locked))])"

definition root_registry_genesis_storage :: "hash_fn \<Rightarrow> DomainId \<Rightarrow> u64 \<Rightarrow> (u256 \<times> u256) list" where
  "root_registry_genesis_storage K root_domain_id root_chain_id =
     bt_insert (chain_id_slot K root_chain_id) root_domain_id
       (bt_insert (descriptor_slot K root_domain_id)
          (K (ROOT_DOMAIN_MARKER_TAG @ to_be_bytes root_domain_id)) [])"

section \<open>Creation\<close>

definition prepare_chain_creation ::
  "hash_fn \<Rightarrow> CreateChainRequest \<Rightarrow> NetworkId \<Rightarrow> b256 \<Rightarrow> b256 \<Rightarrow> b256 \<Rightarrow> u256 \<Rightarrow> u64
   \<Rightarrow> (PreparedChainCreation, ChainRegistryError) result" where
  "prepare_chain_creation K request network_id create_tx_hash joint_domain_block_hash
       initial_state_root creation_deposit creation_height =
     bind_res (normalize_name (cr_name request)) (\<lambda>name.
     bind_res (normalize_symbol (cr_symbol request)) (\<lambda>symbol.
     let r = request\<lparr>cr_name := name, cr_symbol := symbol\<rparr> in
     bind_res (validate_request r) (\<lambda>_.
     if creation_deposit < MIN_CREATION_DEPOSIT
     then Err (InsufficientDeposit MIN_CREATION_DEPOSIT creation_deposit) else
     let domain_id = derive_domain_id K network_id (cr_parent_domain_id r) create_tx_hash;
         genesis = \<lparr>dg_domain_id = domain_id, dg_parent_domain_id = cr_parent_domain_id r,
           dg_joint_domain_block_hash = joint_domain_block_hash, dg_create_tx_hash = create_tx_hash,
           dg_name = cr_name r, dg_symbol = cr_symbol r, dg_evm_chain_id = cr_evm_chain_id r,
           dg_owner = cr_owner r, dg_protocol_revision = cr_protocol_revision r,
           dg_gas_limit = cr_gas_limit r, dg_initial_base_fee = cr_initial_base_fee r,
           dg_initial_supply = cr_initial_supply r, dg_initial_state_root = initial_state_root\<rparr> in
     bind_res (map_err Encoding (domain_genesis_hash K genesis)) (\<lambda>origin_hash.
     let descriptor = \<lparr>dd_domain_id = domain_id, dd_parent_domain_id = cr_parent_domain_id r,
           dd_joint_domain_block_hash = joint_domain_block_hash, dd_create_tx_hash = create_tx_hash,
           dd_origin_hash = origin_hash, dd_name = cr_name r, dd_symbol = cr_symbol r,
           dd_evm_chain_id = cr_evm_chain_id r, dd_owner = cr_owner r,
           dd_protocol_revision = cr_protocol_revision r, dd_gas_limit = cr_gas_limit r,
           dd_initial_base_fee = cr_initial_base_fee r, dd_initial_supply = cr_initial_supply r,
           dd_creation_deposit = creation_deposit, dd_status = Active\<rparr> in
     bind_res (map_err (\<lambda>e. Encoding (Codec e)) (encode_domain_descriptor descriptor)) (\<lambda>bs.
     let descriptor_hash = K bs in
     bind_res (ok_or HeightOverflow (checked_add creation_height CREATION_DEPOSIT_LOCK_BLOCKS))
       (\<lambda>deposit_unlock_height.
     Ok \<lparr>pc_request = r, pc_descriptor = descriptor, pc_descriptor_hash = descriptor_hash,
         pc_creation_height = creation_height,
         pc_deposit_unlock_height = deposit_unlock_height\<rparr>))))))"

section \<open>Normalisation is idempotent\<close>

lemma utf8_valid_ascii: "list_all (\<lambda>b. b < 0x80) bs \<Longrightarrow> utf8_valid bs"
  by (induction bs) (auto simp: utf8_shape_def)

lemma alphanumeric_ascii: "is_ascii_alphanumeric b \<Longrightarrow> b < 0x80"
  by (auto simp: is_ascii_alphanumeric_def word_le_nat_alt word_less_nat_alt)

lemma name_byte_ascii: "name_byte b \<Longrightarrow> b < 0x80"
  by (auto simp: name_byte_def alphanumeric_ascii)

lemma utf8_valid_name: "list_all name_byte bs \<Longrightarrow> utf8_valid bs"
  by (rule utf8_valid_ascii) (auto simp: list_all_iff name_byte_ascii)

lemma utf8_valid_alphanumeric: "list_all is_ascii_alphanumeric bs \<Longrightarrow> utf8_valid bs"
  by (rule utf8_valid_ascii) (auto simp: list_all_iff alphanumeric_ascii)

definition words_ok :: "bytes list \<Rightarrow> bool" where
  "words_ok ws \<longleftrightarrow> (\<forall>w \<in> set ws. w \<noteq> [] \<and> (\<forall>b \<in> set w. \<not> is_ascii_whitespace b))"

lemma words_ok_simps [simp]:
  "words_ok []"
  "words_ok (w # ws) \<longleftrightarrow> w \<noteq> [] \<and> (\<forall>b \<in> set w. \<not> is_ascii_whitespace b) \<and> words_ok ws"
  by (auto simp: words_ok_def)

lemma words_ok_split: "words_ok (split_ascii_whitespace bs)"
proof (induction bs rule: split_ascii_whitespace.induct)
  case (2 b bs)
  have "\<forall>c \<in> set (takeWhile (\<lambda>c. \<not> is_ascii_whitespace c) bs). \<not> is_ascii_whitespace c"
    by (blast dest: set_takeWhileD)
  with 2 show ?case
    by (cases "is_ascii_whitespace b") simp_all
qed simp

lemma split_word:
  assumes "w \<noteq> []" and "\<forall>b \<in> set w. \<not> is_ascii_whitespace b"
  shows "split_ascii_whitespace (w @ 0x20 # bs) = w # split_ascii_whitespace bs"
    and "split_ascii_whitespace w = [w]"
proof -
  obtain c cs where w: "w = c # cs" and "\<not> is_ascii_whitespace c"
      and "\<forall>b \<in> set cs. \<not> is_ascii_whitespace b"
    using assms by (cases w) auto
  moreover have "is_ascii_whitespace 0x20"
    by (simp add: is_ascii_whitespace_def)
  moreover from this have "split_ascii_whitespace (0x20 # bs) = split_ascii_whitespace bs"
    by simp
  ultimately show "split_ascii_whitespace (w @ 0x20 # bs) = w # split_ascii_whitespace bs"
      and "split_ascii_whitespace w = [w]"
    by (simp_all add: takeWhile_append2 dropWhile_append2 takeWhile_eq_all_conv [THEN iffD2]
        dropWhile_eq_Nil_conv [THEN iffD2] del: split_ascii_whitespace.simps(2)
        add: split_ascii_whitespace.simps(2) [of c])
qed

lemma split_join_space: "words_ok ws \<Longrightarrow> split_ascii_whitespace (join_space ws) = ws"
  by (induction ws rule: join_space.induct) (simp_all add: words_ok_def split_word)

lemma normalize_name_idem: "normalize_name bs = Ok name \<Longrightarrow> normalize_name name = Ok name"
  by (auto simp: normalize_name_def Let_def split_join_space words_ok_split utf8_valid_name
      split: if_splits)

lemma white_space_ends:
  "p \<in> set white_space \<Longrightarrow> p \<noteq> [] \<and> \<not> is_ascii_alphanumeric (hd p) \<and> \<not> is_ascii_alphanumeric (last p)"
  by (auto simp: white_space_def is_ascii_alphanumeric_def)

lemma starts_with_hd: "starts_with p bs \<Longrightarrow> p \<noteq> [] \<Longrightarrow> bs \<noteq> [] \<and> hd p = hd bs"
  by (cases p; cases bs) (auto simp: starts_with_def)

lemma trim_with_alphanumeric:
  assumes "list_all is_ascii_alphanumeric bs" and "\<forall>p \<in> set ps. p \<noteq> [] \<longrightarrow> \<not> is_ascii_alphanumeric (hd p)"
  shows "trim_with ps bs = bs"
proof -
  have "find (\<lambda>p. p \<noteq> [] \<and> starts_with p bs) ps = None"
    using assms starts_with_hd [of _ bs] unfolding find_None_iff list_all_iff
    by (metis list.set_sel(1))
  then show ?thesis
    by (subst trim_with.simps) simp
qed

lemma str_trim_alphanumeric: "list_all is_ascii_alphanumeric bs \<Longrightarrow> str_trim bs = bs"
  by (auto simp: str_trim_def trim_with_alphanumeric white_space_ends hd_rev)

lemma to_ascii_uppercase_idem [simp]: "to_ascii_uppercase (to_ascii_uppercase b) = to_ascii_uppercase b"
  by (auto simp: to_ascii_uppercase_def word_le_nat_alt unat_sub_if')

lemma normalize_symbol_idem: "normalize_symbol bs = Ok s \<Longrightarrow> normalize_symbol s = Ok s"
  by (auto simp: normalize_symbol_def Let_def str_trim_alphanumeric utf8_valid_alphanumeric
      comp_def split: if_splits)

section \<open>The ABI is exact\<close>

lemma padded_word_iff:
  assumes "LENGTH('a::len) = 8 * k" and "n + k = 32"
  shows "length w = 32 \<and> take n w = replicate n 0 \<and> from_be_bytes (drop n w) = (v :: 'a word)
    \<longleftrightarrow> w = replicate n 0 @ to_be_bytes v"
proof
  assume a: "length w = 32 \<and> take n w = replicate n 0 \<and> from_be_bytes (drop n w) = v"
  then have "w = replicate n 0 @ drop n w"
    by (metis append_take_drop_id)
  moreover have "to_be_bytes v = drop n w"
    using a assms to_from_be_bytes [of "drop n w", where 'a = 'a] by force
  ultimately show "w = replicate n 0 @ to_be_bytes v"
    by simp
qed (use assms in auto)

lemma decode_u64_word_Ok [abi_simps]: "decode_u64_word w = Ok v \<longleftrightarrow> w = put_word_u64 v"
  using padded_word_iff [of 8 24 w v] by (auto simp: decode_u64_word_def put_word_u64_def)

lemma decode_u128_word_Ok [abi_simps]: "decode_u128_word w = Ok v \<longleftrightarrow> w = put_word_u128 v"
  using padded_word_iff [of 16 16 w v] by (auto simp: decode_u128_word_def put_word_u128_def)

lemma decode_u32_word_Ok [abi_simps]: "decode_u32_word w = Ok v \<longleftrightarrow> w = put_word_u32 v"
  using padded_word_iff [of 4 28 w v] by (auto simp: decode_u32_word_def put_word_u32_def)

lemma decode_usize_word_Ok [abi_simps]:
  "decode_usize_word w = Ok n \<longleftrightarrow> n < 2 ^ 64 \<and> w = put_word_usize n"
proof -
  have "decode_usize_word w = Ok n \<longleftrightarrow> (\<exists>v. decode_u64_word w = Ok v \<and> n = unat v)"
    by (auto simp: decode_usize_word_def decode_u64_word_def)
  also have "\<dots> \<longleftrightarrow> n < 2 ^ 64 \<and> w = put_word_usize n"
    unfolding decode_u64_word_Ok put_word_usize_def
    using unat_less_exp [where 'a = 64] unat_of_nat_fits [of n, where 'a = 64] by fastforce
  finally show ?thesis .
qed

lemma length_put_word [simp]:
  "length (put_word_u64 a) = 32" "length (put_word_u128 b) = 32" "length (put_word_u32 c) = 32"
  "length (put_word_usize d) = 32"
  by (simp_all add: put_word_u64_def put_word_u128_def put_word_u32_def put_word_usize_def)

lemma get_range_append: "get_range (length pre + a) (length pre + b) (pre @ rest) = get_range a b rest"
  by (simp add: get_range_def)

lemma get_range_zero: "get_range 0 n bs = Some v \<longleftrightarrow> length v = n \<and> (\<exists>tail. bs = v @ tail)"
  by (auto simp: get_range_def intro: append_take_drop_id [symmetric])

lemma length_abi_bytes_tail:
  "length (abi_bytes_tail v) = 32 + (length v + 31) div 32 * 32"
proof -
  have "length v \<le> (length v + 31) div 32 * 32"
    by linarith
  then show ?thesis
    by (simp add: abi_bytes_tail_def Let_def)
qed

lemma decode_dynamic_bytes_zero:
  assumes "limit < 2 ^ 64"
  shows "decode_dynamic_bytes rest 0 limit = Ok (v, e) \<longleftrightarrow>
    length v \<le> limit \<and> (\<exists>tail. rest = abi_bytes_tail v @ tail) \<and> e = length (abi_bytes_tail v)"
proof
  assume "decode_dynamic_bytes rest 0 limit = Ok (v, e)"
  then obtain len pad where l: "len \<le> limit" "len < 2 ^ 64"
      and s: "get_range 0 32 rest = Some (put_word_usize len)"
      and v: "get_range 32 (32 + len) rest = Some v"
      and pad: "get_range (32 + len) (32 + (len + 31) div 32 * 32) rest = Some pad"
      and zero: "\<not> list_ex (\<lambda>b. b \<noteq> 0) pad" and e: "e = 32 + (len + 31) div 32 * 32"
    by (auto simp: decode_dynamic_bytes_def Let_def abi_simps not_less split: if_splits)
  obtain r1 where r1: "rest = put_word_usize len @ r1"
    using s by (auto simp: get_range_zero)
  with v have "get_range 0 len r1 = Some v"
    using get_range_append [of "put_word_usize len" 0 len r1] by simp
  then obtain r2 where r2: "r1 = v @ r2" and len: "length v = len"
    by (auto simp: get_range_zero)
  have "get_range 0 ((len + 31) div 32 * 32 - len) r2 = Some pad"
    using pad get_range_append [of "put_word_usize len @ v" 0 "(len + 31) div 32 * 32 - len" r2]
    by (auto simp: r1 r2 len get_range_def split: if_splits)
  then obtain tail where tail: "r2 = pad @ tail" "length pad = (len + 31) div 32 * 32 - len"
    by (auto simp: get_range_zero)
  have "pad = replicate (length pad) 0"
    using zero by (auto simp: list_ex_iff intro: replicate_eqI)
  with tail have "rest = abi_bytes_tail v @ tail"
    by (metis r1 r2 len abi_bytes_tail_def append_assoc)
  with l e len show "length v \<le> limit \<and> (\<exists>tail. rest = abi_bytes_tail v @ tail) \<and> e = length (abi_bytes_tail v)"
    by (auto simp: length_abi_bytes_tail)
next
  assume a: "length v \<le> limit \<and> (\<exists>tail. rest = abi_bytes_tail v @ tail) \<and> e = length (abi_bytes_tail v)"
  then obtain tail where rest: "rest = put_word_usize (length v) @ v
      @ replicate ((length v + 31) div 32 * 32 - length v) 0 @ tail"
    by (auto simp: abi_bytes_tail_def Let_def)
  have "decode_usize_word (put_word_usize (length v)) = Ok (length v)"
    using a assms by (simp add: abi_simps)
  moreover have "length v \<le> (length v + 31) div 32 * 32"
    by linarith
  ultimately show "decode_dynamic_bytes rest 0 limit = Ok (v, e)"
    using a by (simp add: decode_dynamic_bytes_def rest get_range_def Let_def length_abi_bytes_tail list_ex_iff)
qed

lemma decode_dynamic_bytes_Ok:
  assumes "length pre mod 32 = 0" and "limit < 2 ^ 64"
  shows "decode_dynamic_bytes (pre @ rest) (length pre) limit = Ok (v, e) \<longleftrightarrow>
    length v \<le> limit \<and> (\<exists>tail. rest = abi_bytes_tail v @ tail)
    \<and> e = length pre + length (abi_bytes_tail v)"
proof -
  have "decode_dynamic_bytes (pre @ rest) (length pre) limit =
      bind_res (decode_dynamic_bytes rest 0 limit) (\<lambda>(v, e). Ok (v, length pre + e))"
    using assms get_range_append [of pre 0 32 rest] get_range_append [of pre "32 + _" "32 + _" rest]
      get_range_append [of pre 32 "32 + _" rest]
    by (simp add: decode_dynamic_bytes_def Let_def bind_res_assoc add.assoc if_distrib
        [of "\<lambda>m. bind_res m _"] cong: if_cong)
  then show ?thesis
    using assms decode_dynamic_bytes_zero [of limit rest v] by auto
qed

lemma abi_word_simps [simp]:
  assumes "length w = 32"
  shows "abi_word (w @ rest) 0 = Ok w" and "abi_word (w @ rest) (Suc i) = abi_word rest i"
    and "abi_word (w @ rest) (numeral k) = abi_word rest (pred_numeral k)"
  using assms get_range_append [of w "i * 32" "32 + i * 32" rest]
    get_range_append [of w "pred_numeral k * 32" "32 + pred_numeral k * 32" rest]
  by (simp_all add: abi_word_def get_range_def numeral_eq_Suc)

lemma split_word_prefix: "32 * Suc n \<le> length bs \<Longrightarrow> \<exists>w rest. bs = w @ rest \<and> length w = 32 \<and> 32 * n \<le> length rest"
  by (rule exI [of _ "take 32 bs"], rule exI [of _ "drop 32 bs"]) simp

definition put_word_address :: "address \<Rightarrow> bytes" where
  "put_word_address a = replicate 12 0 @ to_be_bytes a"

lemma put_word_address_simps [simp]:
  "length (put_word_address a) = 32" "take 12 (put_word_address a) = replicate 12 0"
  "from_be_bytes (drop 12 (put_word_address a)) = a"
  by (simp_all add: put_word_address_def)

lemma put_word_address_iff:
  assumes "length w = 32" and "take 12 w = replicate 12 0"
  shows "put_word_address (from_be_bytes (drop 12 w)) = w"
  using padded_word_iff [of 20 12 w "from_be_bytes (drop 12 w) :: address"] assms
  by (simp add: put_word_address_def)

definition create_call_head :: "CreateChainRequest \<Rightarrow> bytes \<Rightarrow> bytes" where
  "create_call_head r name =
     to_be_bytes (cr_parent_domain_id r)
     @ put_word_usize 288
     @ put_word_usize (288 + length (abi_bytes_tail name))
     @ put_word_u64 (cr_evm_chain_id r)
     @ put_word_address (cr_owner r)
     @ put_word_u64 (cr_gas_limit r)
     @ put_word_u128 (cr_initial_base_fee r)
     @ to_be_bytes (cr_initial_supply r)
     @ put_word_u32 (cr_protocol_revision r)"

definition create_call :: "hash_fn \<Rightarrow> CreateChainRequest \<Rightarrow> bytes \<Rightarrow> bytes \<Rightarrow> bytes" where
  "create_call K r name symbol =
     create_chain_selector K @ create_call_head r name @ abi_bytes_tail name @ abi_bytes_tail symbol"

lemma length_create_call_head [simp]: "length (create_call_head r name) = 288"
  by (simp add: create_call_head_def)

lemma length_create_chain_selector [simp]: "length (create_chain_selector K) = 4"
  by (simp add: create_chain_selector_def selector_def)

definition call_spec :: "CreateChainRequest \<Rightarrow> bytes \<Rightarrow> bytes \<Rightarrow> bool" where
  "call_spec r name symbol \<longleftrightarrow>
     length name \<le> 64 \<and> length symbol \<le> 16 \<and> normalize_name name = Ok (cr_name r)
     \<and> normalize_symbol symbol = Ok (cr_symbol r) \<and> validate_request r = Ok ()"

lemma request_eta [simp]:
  "\<lparr>cr_parent_domain_id = cr_parent_domain_id r, cr_name = cr_name r, cr_symbol = cr_symbol r,
    cr_evm_chain_id = cr_evm_chain_id r, cr_owner = cr_owner r, cr_gas_limit = cr_gas_limit r,
    cr_initial_base_fee = cr_initial_base_fee r, cr_initial_supply = cr_initial_supply r,
    cr_protocol_revision = cr_protocol_revision r\<rparr> = r"
  by simp

lemma decode_create_chain_call_complete:
  assumes "call_spec r name symbol"
  shows "decode_create_chain_call K (create_call K r name symbol) = Ok r"
proof -
  let ?head = "create_call_head r name" and ?n = "abi_bytes_tail name" and ?s = "abi_bytes_tail symbol"
  have n: "decode_dynamic_bytes (?head @ ?n @ ?s) 288 64 = Ok (name, 288 + length ?n)"
    using decode_dynamic_bytes_Ok [of ?head 64 "?n @ ?s" name] assms by (auto simp: call_spec_def)
  have "length ?n mod 32 = 0"
    by (simp add: length_abi_bytes_tail)
  then have s: "decode_dynamic_bytes (?head @ ?n @ ?s) (288 + length ?n) 16
      = Ok (symbol, 288 + length ?n + length ?s)"
    using decode_dynamic_bytes_Ok [of "?head @ ?n" 16 ?s symbol] assms
    by (auto simp: call_spec_def mod_add_eq [symmetric])
  have small: "288 + length ?n < 2 ^ 64"
    using assms div_le_mono [of "length name + 31" 95 32]
    by (simp add: length_abi_bytes_tail call_spec_def)
  have "32 \<le> length ?n"
    by (simp add: length_abi_bytes_tail)
  then show ?thesis
    using n s small assms
    unfolding decode_create_chain_call_def create_call_def call_spec_def
    by (simp add: create_call_head_def abi_simps Let_def decode_usize_word_Ok [THEN iffD2]
        decode_u64_word_Ok [THEN iffD2] decode_u128_word_Ok [THEN iffD2] decode_u32_word_Ok [THEN iffD2])
qed

lemma split_words:
  "32 * n \<le> length bs \<Longrightarrow> \<exists>ws rest. bs = concat ws @ rest \<and> length ws = n \<and> (\<forall>w \<in> set ws. length w = 32)"
proof (induction n arbitrary: bs)
  case (Suc n)
  obtain w bs' where "bs = w @ bs'" "length w = 32" "32 * n \<le> length bs'"
    using split_word_prefix [OF Suc.prems] by blast
  moreover from Suc.IH [OF this(3)] obtain ws rest
    where "bs' = concat ws @ rest" "length ws = n" "\<forall>w \<in> set ws. length w = 32"
    by blast
  ultimately show ?case
    by (intro exI [of _ "w # ws"] exI [of _ rest]) simp
qed simp

lemma list_of_nine:
  "length ws = 9 \<longleftrightarrow> (\<exists>a b c d e f g h i. ws = [a, b, c, d, e, f, g, h, i])"
  by (auto simp: length_Suc_conv numeral_eq_Suc)

lemma decode_create_chain_call_sound:
  assumes "decode_create_chain_call K input = Ok r"
  obtains name symbol where "input = create_call K r name symbol" and "call_spec r name symbol"
proof -
  have len: "292 \<le> length input" and sel: "take 4 input = create_chain_selector K"
    using assms by (auto simp: decode_create_chain_call_def split: if_splits)
  have "32 * 9 \<le> length (drop 4 input)"
    using len by simp
  from split_words [OF this] obtain ws rest where ws: "drop 4 input = concat ws @ rest" "length ws = 9" "\<forall>w \<in> set ws. length w = 32"
    by blast
  from ws(2) obtain w0 w1 w2 w3 w4 w5 w6 w7 w8 where nine: "ws = [w0, w1, w2, w3, w4, w5, w6, w7, w8]"
    unfolding list_of_nine by (elim exE)
  have words: "drop 4 input = w0 @ w1 @ w2 @ w3 @ w4 @ w5 @ w6 @ w7 @ w8 @ rest"
    and w: "length w0 = 32" "length w1 = 32" "length w2 = 32" "length w3 = 32" "length w4 = 32"
      "length w5 = 32" "length w6 = 32" "length w7 = 32" "length w8 = 32"
    using ws unfolding nine by simp_all
  define head where "head = w0 @ w1 @ w2 @ w3 @ w4 @ w5 @ w6 @ w7 @ w8"
  have head: "length head = 288" "drop 4 input = head @ rest"
    using w words by (simp_all add: head_def)
  have aw: "abi_word (head @ rest) 0 = Ok w0" "abi_word (head @ rest) 1 = Ok w1"
      "abi_word (head @ rest) 2 = Ok w2" "abi_word (head @ rest) 3 = Ok w3"
      "abi_word (head @ rest) 4 = Ok w4" "abi_word (head @ rest) 5 = Ok w5"
      "abi_word (head @ rest) 6 = Ok w6" "abi_word (head @ rest) 7 = Ok w7"
      "abi_word (head @ rest) 8 = Ok w8"
    using w by (simp_all add: head_def)
  obtain no so name ne symbol se chain gas fee rev nm sy where
    w1: "w1 = put_word_usize no" "no = 288" and w2: "w2 = put_word_usize so"
    and n: "decode_dynamic_bytes (head @ rest) no 64 = Ok (name, ne)" "so = ne"
    and s: "decode_dynamic_bytes (head @ rest) so 16 = Ok (symbol, se)" "se = length (head @ rest)"
    and fields: "w3 = put_word_u64 chain" "take 12 w4 = replicate 12 0" "w5 = put_word_u64 gas"
      "w6 = put_word_u128 fee" "w8 = put_word_u32 rev"
    and norm: "normalize_name name = Ok nm" "normalize_symbol symbol = Ok sy"
    and r: "\<lparr>cr_parent_domain_id = from_be_bytes w0, cr_name = nm, cr_symbol = sy,
      cr_evm_chain_id = chain, cr_owner = from_be_bytes (drop 12 w4), cr_gas_limit = gas,
      cr_initial_base_fee = fee, cr_initial_supply = from_be_bytes w7,
      cr_protocol_revision = rev\<rparr> = r"
    and valid: "validate_request r = Ok ()"
    using assms [unfolded decode_create_chain_call_def head(2) Let_def aw bind_res.simps if_Err_exact
        abi_simps bind_res_eq_Ok split_paired_Ex prod.case de_Morgan_disj not_not]
    by (elim exE conjE) (rule that; fastforce)
  have fields': "w0 = to_be_bytes (cr_parent_domain_id r)" "w3 = put_word_u64 (cr_evm_chain_id r)"
      "w4 = put_word_address (cr_owner r)" "w5 = put_word_u64 (cr_gas_limit r)"
      "w6 = put_word_u128 (cr_initial_base_fee r)" "w7 = to_be_bytes (cr_initial_supply r)"
      "w8 = put_word_u32 (cr_protocol_revision r)"
    using fields w by (simp_all add: r [symmetric] put_word_address_iff)
  obtain tail where rest: "rest = abi_bytes_tail name @ tail" and ne: "ne = 288 + length (abi_bytes_tail name)"
      and ln: "length name \<le> 64"
    using n decode_dynamic_bytes_Ok [of head 64 rest name ne] head w1 by auto
  have "length (head @ abi_bytes_tail name) mod 32 = 0"
    by (simp add: head length_abi_bytes_tail mod_add_eq [symmetric])
  then obtain tail' where tail: "tail = abi_bytes_tail symbol @ tail'" and ls: "length symbol \<le> 16"
      and se: "se = ne + length (abi_bytes_tail symbol)"
    using s n decode_dynamic_bytes_Ok [of "head @ abi_bytes_tail name" 16 tail symbol se] head rest ne
    by auto
  have "tail' = []"
    using s se ne head rest tail by simp
  then have "drop 4 input = create_call_head r name @ abi_bytes_tail name @ abi_bytes_tail symbol"
    using head rest tail w1 w2 n ne fields' by (simp add: head_def create_call_head_def)
  then have "input = create_call K r name symbol"
    unfolding create_call_def sel [symmetric] by (metis append_take_drop_id)
  then show thesis
    using that norm ln ls valid by (auto simp: call_spec_def r [symmetric])
qed

lemma create_call_exact:
  "decode_create_chain_call K input = Ok r \<longleftrightarrow>
     (\<exists>name symbol. input = create_call K r name symbol \<and> call_spec r name symbol)"
  using decode_create_chain_call_sound decode_create_chain_call_complete by metis

lemma encode_create_chain_call_Ok:
  "encode_create_chain_call K r = Ok bs \<longleftrightarrow>
     (\<exists>name symbol. normalize_name (cr_name r) = Ok name \<and> normalize_symbol (cr_symbol r) = Ok symbol
        \<and> validate_request (r\<lparr>cr_name := name, cr_symbol := symbol\<rparr>) = Ok ()
        \<and> bs = create_call K (r\<lparr>cr_name := name, cr_symbol := symbol\<rparr>) name symbol)"
  by (auto simp: encode_create_chain_call_def Let_def create_call_def create_call_head_def
      put_word_address_def)

lemma validate_request_metadata [simp]:
  "validate_request (r\<lparr>cr_name := n, cr_symbol := s\<rparr>) = validate_request r"
  by (simp add: validate_request_def)

lemma normalize_name_length: "normalize_name bs = Ok n \<Longrightarrow> 0 < length n \<and> length n \<le> 64 \<and> utf8_valid n"
  by (auto simp: normalize_name_def Let_def utf8_valid_name split: if_splits)

lemma normalize_symbol_length: "normalize_symbol bs = Ok n \<Longrightarrow> 0 < length n \<and> length n \<le> 16 \<and> utf8_valid n"
  by (auto simp: normalize_symbol_def Let_def utf8_valid_alphanumeric split: if_splits)

lemma domain_id_call_exact:
  "length sel = 4 \<Longrightarrow> decode_domain_id_call input sel = Some d \<longleftrightarrow> input = encode_domain_id_call sel d"
proof
  assume sel: "length sel = 4" and "decode_domain_id_call input sel = Some d"
  then have "length input = 36" "take 4 input = sel" "d = from_be_bytes (drop 4 input)"
    by (auto simp: decode_domain_id_call_def split: if_splits)
  then show "input = encode_domain_id_call sel d"
    using append_take_drop_id [of 4 input] by (simp add: encode_domain_id_call_def)
qed (simp add: decode_domain_id_call_def encode_domain_id_call_def)

section \<open>Registry slots do not collide\<close>

definition slot_preimages :: "DomainId \<Rightarrow> u64 \<Rightarrow> bytes list" where
  "slot_preimages d chain_id =
     [REGISTRY_DESCRIPTOR_TAG @ to_be_bytes d, REGISTRY_CHAIN_ID_TAG @ to_be_bytes chain_id,
      REGISTRY_CREATION_HEIGHT_TAG @ to_be_bytes d, REGISTRY_DEPOSIT_TAG @ to_be_bytes d,
      REGISTRY_DEPOSIT_UNLOCK_TAG @ to_be_bytes d, REGISTRY_OWNER_TAG @ to_be_bytes d,
      REGISTRY_DEPOSIT_STATUS_TAG @ to_be_bytes d]"

lemma creation_slots:
  "map fst (creation_storage_writes K p)
     = map K (slot_preimages (dd_domain_id (pc_descriptor p)) (dd_evm_chain_id (pc_descriptor p)))"
  by (simp add: creation_storage_writes_def slot_preimages_def registry_slots Let_def)

lemma slot_preimages_distinct:
  assumes "d \<noteq> e" and "c \<noteq> b"
  shows "distinct (slot_preimages d c @ slot_preimages e b)"
  using assms by (simp add: slot_preimages_def registry_tags ascii_def to_be_bytes_inject)

lemma root_preimages:
  "REGISTRY_DESCRIPTOR_TAG @ to_be_bytes root \<in> set (slot_preimages root root_chain)"
  "REGISTRY_CHAIN_ID_TAG @ to_be_bytes root_chain \<in> set (slot_preimages root root_chain)"
  by (simp_all add: slot_preimages_def)

section \<open>Creation always encodes\<close>

lemma encode_domain_genesis_fits:
  assumes "length (dg_name g) \<le> 64" and "length (dg_symbol g) \<le> 16" and "dg_evm_chain_id g \<noteq> 0"
  shows "\<exists>bs. encode_domain_genesis g = Ok bs"
  using assms by (simp add: encode_domain_genesis_def check_limit_def encoder_finish_def w_bytes_def
      encoder_tagged_def DOMAIN_GENESIS_TAG_def ascii_def w_count_def MAX_CANONICAL_OBJECT_BYTES_def)

lemma encode_domain_descriptor_fits:
  assumes "length (dd_name g) \<le> 64" and "length (dd_symbol g) \<le> 16" and "dd_evm_chain_id g \<noteq> 0"
  shows "\<exists>bs. encode_domain_descriptor g = Ok bs"
  using assms by (simp add: encode_domain_descriptor_def check_limit_def encoder_finish_def w_bytes_def
      encoder_tagged_def DOMAIN_DESCRIPTOR_TAG_def ascii_def w_count_def
      MAX_CANONICAL_OBJECT_BYTES_def)

lemma validate_request_Ok:
  "validate_request r = Ok () \<longleftrightarrow>
     cr_parent_domain_id r \<noteq> 0 \<and> cr_evm_chain_id r \<noteq> 0 \<and> cr_owner r \<noteq> 0
     \<and> 0 < cr_gas_limit r \<and> cr_gas_limit r \<le> 30000000
     \<and> unat (cr_initial_base_fee r) < 2 ^ 64 \<and> cr_protocol_revision r = 1"
proof -
  have "cr_initial_base_fee r > ucast (- 1 :: u64) \<longleftrightarrow> \<not> unat (cr_initial_base_fee r) < 2 ^ 64"
    by (simp add: word_less_nat_alt unat_ucast_power) linarith
  then show ?thesis
    by (auto simp: validate_request_def word_neq_0_conv)
qed

text \<open>The genesis and the descriptor of the domain a valid request creates.\<close>

definition created_genesis :: "hash_fn \<Rightarrow> CreateChainRequest \<Rightarrow> bytes \<Rightarrow> bytes \<Rightarrow> NetworkId \<Rightarrow> b256 \<Rightarrow> b256 \<Rightarrow> b256 \<Rightarrow> DomainGenesis" where
  "created_genesis K r name symbol net tx joint root =
     \<lparr>dg_domain_id = derive_domain_id K net (cr_parent_domain_id r) tx, dg_parent_domain_id = cr_parent_domain_id r,
      dg_joint_domain_block_hash = joint, dg_create_tx_hash = tx, dg_name = name, dg_symbol = symbol,
      dg_evm_chain_id = cr_evm_chain_id r, dg_owner = cr_owner r,
      dg_protocol_revision = cr_protocol_revision r, dg_gas_limit = cr_gas_limit r,
      dg_initial_base_fee = cr_initial_base_fee r, dg_initial_supply = cr_initial_supply r,
      dg_initial_state_root = root\<rparr>"

definition created_descriptor :: "hash_fn \<Rightarrow> CreateChainRequest \<Rightarrow> bytes \<Rightarrow> bytes \<Rightarrow> NetworkId \<Rightarrow> b256 \<Rightarrow> b256 \<Rightarrow> u256 \<Rightarrow> b256 \<Rightarrow> DomainDescriptor" where
  "created_descriptor K r name symbol net tx joint deposit origin =
     \<lparr>dd_domain_id = derive_domain_id K net (cr_parent_domain_id r) tx, dd_parent_domain_id = cr_parent_domain_id r,
      dd_joint_domain_block_hash = joint, dd_create_tx_hash = tx, dd_origin_hash = origin,
      dd_name = name, dd_symbol = symbol, dd_evm_chain_id = cr_evm_chain_id r, dd_owner = cr_owner r,
      dd_protocol_revision = cr_protocol_revision r, dd_gas_limit = cr_gas_limit r,
      dd_initial_base_fee = cr_initial_base_fee r, dd_initial_supply = cr_initial_supply r,
      dd_creation_deposit = deposit, dd_status = Active\<rparr>"

lemma prepare_chain_creation_run:
  assumes "normalize_name (cr_name r) = Ok name" and "normalize_symbol (cr_symbol r) = Ok symbol"
    and "validate_request r = Ok ()"
  shows "\<exists>gbs dbs. encode_domain_genesis (created_genesis K r name symbol net tx joint root) = Ok gbs
    \<and> encode_domain_descriptor (created_descriptor K r name symbol net tx joint deposit (K gbs)) = Ok dbs
    \<and> prepare_chain_creation K r net tx joint root deposit height =
       (if deposit < MIN_CREATION_DEPOSIT then Err (InsufficientDeposit MIN_CREATION_DEPOSIT deposit)
        else bind_res (ok_or HeightOverflow (checked_add height CREATION_DEPOSIT_LOCK_BLOCKS)) (\<lambda>u.
          Ok \<lparr>pc_request = r\<lparr>cr_name := name, cr_symbol := symbol\<rparr>,
              pc_descriptor = created_descriptor K r name symbol net tx joint deposit (K gbs),
              pc_descriptor_hash = K dbs, pc_creation_height = height, pc_deposit_unlock_height = u\<rparr>))"
proof -
  have fits: "length name \<le> 64" "length symbol \<le> 16" "cr_evm_chain_id r \<noteq> 0"
    using assms normalize_name_length normalize_symbol_length by (auto simp: validate_request_Ok)
  obtain gbs where g: "encode_domain_genesis (created_genesis K r name symbol net tx joint root) = Ok gbs"
    using fits encode_domain_genesis_fits [of "created_genesis K r name symbol net tx joint root"]
    by (auto simp: created_genesis_def)
  moreover obtain dbs where "encode_domain_descriptor (created_descriptor K r name symbol net tx joint deposit (K gbs)) = Ok dbs"
    using fits encode_domain_descriptor_fits [of "created_descriptor K r name symbol net tx joint deposit (K gbs)"]
    by (auto simp: created_descriptor_def)
  ultimately show ?thesis
    using assms
    by (simp add: prepare_chain_creation_def domain_genesis_hash_def hash_encoding_def created_genesis_def created_descriptor_def)
qed

section \<open>Properties\<close>

text \<open>
  (C16) \<open>decode_create_chain_call\<close> accepts exactly the canonical ABI encodings: the selector, nine
  head words with zero padding and the two offsets that follow from the name's length, and the two
  zero-padded tails with nothing after them, of a name of at most 64 and a symbol of at most 16
  bytes that normalise, with fields in range. Every other byte string is refused.
\<close>

theorem create_chain_calldata_exact:
  "decode_create_chain_call K input = Ok r \<longleftrightarrow>
     (\<exists>name symbol. input = create_call K r name symbol
        \<and> length name \<le> 64 \<and> length symbol \<le> 16
        \<and> normalize_name name = Ok (cr_name r) \<and> normalize_symbol symbol = Ok (cr_symbol r)
        \<and> cr_parent_domain_id r \<noteq> 0 \<and> cr_evm_chain_id r \<noteq> 0 \<and> cr_owner r \<noteq> 0
        \<and> 0 < cr_gas_limit r \<and> cr_gas_limit r \<le> 30000000
        \<and> unat (cr_initial_base_fee r) < 2 ^ 64 \<and> cr_protocol_revision r = 1)"
  unfolding create_call_exact call_spec_def validate_request_Ok ..

text \<open>
  A \<open>createChain\<close> call that encodes is decoded as the request with its metadata normalised, and
  encoding that request again gives the same bytes: normalisation is idempotent, so the calldata of
  a normalised request is canonical.
\<close>

theorem create_chain_call_roundtrip:
  assumes "encode_create_chain_call K r = Ok bs"
  shows "\<exists>name symbol. normalize_name (cr_name r) = Ok name \<and> normalize_symbol (cr_symbol r) = Ok symbol
    \<and> decode_create_chain_call K bs = Ok (r\<lparr>cr_name := name, cr_symbol := symbol\<rparr>)
    \<and> encode_create_chain_call K (r\<lparr>cr_name := name, cr_symbol := symbol\<rparr>) = Ok bs"
proof -
  obtain name symbol where n: "normalize_name (cr_name r) = Ok name" "normalize_symbol (cr_symbol r) = Ok symbol"
      and v: "validate_request r = Ok ()"
      and bs: "bs = create_call K (r\<lparr>cr_name := name, cr_symbol := symbol\<rparr>) name symbol"
    using assms by (auto simp: encode_create_chain_call_Ok)
  have idem: "normalize_name name = Ok name" "normalize_symbol symbol = Ok symbol"
    using n normalize_name_idem normalize_symbol_idem by blast+
  then have "call_spec (r\<lparr>cr_name := name, cr_symbol := symbol\<rparr>) name symbol"
    using n v normalize_name_length normalize_symbol_length by (simp add: call_spec_def)
  with n idem v bs show ?thesis
    by (auto simp: decode_create_chain_call_complete encode_create_chain_call_Ok)
qed

definition sample_hash :: hash_fn where
  "sample_hash bs = word_of_nat (length bs)"

definition sample_request :: CreateChainRequest where
  "sample_request =
     \<lparr>cr_parent_domain_id = 7, cr_name = ascii ''  Arbor   games'', cr_symbol = ascii '' agx'',
      cr_evm_chain_id = 4242, cr_owner = 9, cr_gas_limit = 30000000, cr_initial_base_fee = 5,
      cr_initial_supply = 0, cr_protocol_revision = 1\<rparr>"

lemma sample_request_metadata:
  "normalize_name (cr_name sample_request) = Ok (ascii ''Arbor games'')"
  "normalize_symbol (cr_symbol sample_request) = Ok (ascii ''AGX'')"
  "validate_request sample_request = Ok ()"
  by code_simp+

theorem create_chain_call_roundtrip_witness:
  "\<exists>bs. encode_create_chain_call sample_hash sample_request = Ok bs
     \<and> decode_create_chain_call sample_hash bs
       = Ok (sample_request\<lparr>cr_name := ascii ''Arbor games'', cr_symbol := ascii ''AGX''\<rparr>)"
proof -
  obtain bs where bs: "encode_create_chain_call sample_hash sample_request = Ok bs"
    using sample_request_metadata by (auto simp: encode_create_chain_call_def Let_def)
  with create_chain_call_roundtrip [OF bs] show ?thesis
    by (auto simp: sample_request_metadata)
qed



text \<open>
  (C18) The registry never writes one storage slot for two purposes: the seven slots of a creation and
  the seven of a creation with another domain id and another chain id are fourteen different slots,
  none of them one of the root's two, provided Keccak-256 does not collide on the tagged keys
  involved.
\<close>

theorem registry_slots_disjoint:
  assumes "dd_domain_id (pc_descriptor p) \<noteq> dd_domain_id (pc_descriptor q)"
    and "dd_evm_chain_id (pc_descriptor p) \<noteq> dd_evm_chain_id (pc_descriptor q)"
    and "root \<notin> {dd_domain_id (pc_descriptor p), dd_domain_id (pc_descriptor q)}"
    and "root_chain \<notin> {dd_evm_chain_id (pc_descriptor p), dd_evm_chain_id (pc_descriptor q)}"
    and "inj_on K (set (slot_preimages (dd_domain_id (pc_descriptor p)) (dd_evm_chain_id (pc_descriptor p)))
      \<union> set (slot_preimages (dd_domain_id (pc_descriptor q)) (dd_evm_chain_id (pc_descriptor q)))
      \<union> set (slot_preimages root root_chain))"
  shows "distinct (map fst (creation_storage_writes K p) @ map fst (creation_storage_writes K q)
    @ [descriptor_slot K root, chain_id_slot K root_chain])"
proof -
  let ?P = "slot_preimages (dd_domain_id (pc_descriptor p)) (dd_evm_chain_id (pc_descriptor p))"
  let ?Q = "slot_preimages (dd_domain_id (pc_descriptor q)) (dd_evm_chain_id (pc_descriptor q))"
  let ?R = "[REGISTRY_DESCRIPTOR_TAG @ to_be_bytes root, REGISTRY_CHAIN_ID_TAG @ to_be_bytes root_chain]"
  have R: "set ?R \<subseteq> set (slot_preimages root root_chain)"
    using root_preimages by simp
  have "distinct ?R"
    by (simp add: registry_tags ascii_def)
  moreover have "distinct (?P @ ?Q)" "distinct (?P @ slot_preimages root root_chain)"
    "distinct (?Q @ slot_preimages root root_chain)"
    using assms(1-4) by (auto intro!: slot_preimages_distinct simp del: distinct_append)
  ultimately have "distinct (?P @ ?Q @ ?R)"
    using R unfolding distinct_append set_append by blast
  moreover have "inj_on K (set (?P @ ?Q @ ?R))"
    using assms(5) by (rule inj_on_subset) (use R in auto)
  ultimately have "distinct (map K (?P @ ?Q @ ?R))"
    by (simp only: distinct_map)
  then show ?thesis
    by (simp only: creation_slots map_append list.map registry_slots)
qed

definition sample_prepared :: "DomainId \<Rightarrow> u64 \<Rightarrow> PreparedChainCreation" where
  "sample_prepared domain_id chain_id =
     \<lparr>pc_request = sample_request,
      pc_descriptor = \<lparr>dd_domain_id = domain_id, dd_parent_domain_id = 7, dd_joint_domain_block_hash = 3,
        dd_create_tx_hash = 2, dd_origin_hash = 5, dd_name = ascii ''Arbor games'',
        dd_symbol = ascii ''AGX'', dd_evm_chain_id = chain_id, dd_owner = 9,
        dd_protocol_revision = 1, dd_gas_limit = 30000000, dd_initial_base_fee = 5,
        dd_initial_supply = 0, dd_creation_deposit = MIN_CREATION_DEPOSIT, dd_status = Active\<rparr>,
      pc_descriptor_hash = 6, pc_creation_height = 10, pc_deposit_unlock_height = 110\<rparr>"

definition sample_slot_hash :: hash_fn where
  "sample_slot_hash bs = word_of_nat (length bs + 100 * unat (bs ! (length bs - 36)) + 1000000 * unat (last bs))"

lemma last_be_of_nat: "0 < n \<Longrightarrow> last (be_of_nat n k) = word_of_nat (k mod 256)"
  by (cases n) simp_all

lemma last_to_be_bytes:
  "last (to_be_bytes (w :: 256 word)) = word_of_nat (unat w mod 256)"
  "last (to_be_bytes (v :: 64 word)) = word_of_nat (unat v mod 256)"
  by (simp_all add: to_be_bytes_def last_be_of_nat)

lemma slot_key_nonempty: "to_be_bytes (w :: 256 word) \<noteq> []" "to_be_bytes (v :: 64 word) \<noteq> []"
  by (simp_all flip: length_0_conv)

lemma sample_slot_hash_distinct:
  "distinct (map sample_slot_hash (slot_preimages 11 1 @ slot_preimages 12 2 @ slot_preimages 13 3))"
  by (simp add: slot_preimages_def sample_slot_hash_def registry_tags ascii_def last_to_be_bytes
      slot_key_nonempty)

theorem registry_slots_disjoint_witness:
  "distinct (map fst (creation_storage_writes sample_slot_hash (sample_prepared 11 1))
    @ map fst (creation_storage_writes sample_slot_hash (sample_prepared 12 2))
    @ [descriptor_slot sample_slot_hash 13, chain_id_slot sample_slot_hash 3])"
proof (rule registry_slots_disjoint)
  show "inj_on sample_slot_hash
     (set (slot_preimages (dd_domain_id (pc_descriptor (sample_prepared 11 1)))
        (dd_evm_chain_id (pc_descriptor (sample_prepared 11 1))))
      \<union> set (slot_preimages (dd_domain_id (pc_descriptor (sample_prepared 12 2)))
        (dd_evm_chain_id (pc_descriptor (sample_prepared 12 2))))
      \<union> set (slot_preimages 13 3))"
    using sample_slot_hash_distinct [unfolded distinct_map, THEN conjunct2]
    by (simp add: sample_prepared_def Un_assoc)
qed (simp_all add: sample_prepared_def)

end
