(* ===== verification/State_Trie.thy ===== *)
theory State_Trie
  imports Domain_Heads Ethereum_Codec
begin

text \<open>
  \<open>arbor-state/src/mpt.rs\<close>: the secure Merkle-Patricia trie. A snapshot is built from sorted leaves,
  read back from a content-addressed node store, and asked for proofs. Keccak-256 is the parameter
  \<open>K\<close> and the \<open>alloy_rlp\<close> encoders are the parameter \<open>R\<close>, whose documented output format is
  \<open>rlp_format\<close>; the RLP reader is the crate's own. A \<open>NodeStore\<close> is a function, a \<open>usize\<close> is a natural
  number with the overflow of 64 bits written out.
\<close>

unbundle bit_operations_syntax

section \<open>Data\<close>

definition SECURE_KEY_NIBBLES :: nat where
  "SECURE_KEY_NIBBLES = 64"

type_synonym node_map = "(b256, bytes) btree_map"
type_synonym leaf_map = "(b256, bytes) btree_map"
type_synonym node_store = "b256 \<Rightarrow> (bytes option, StateError) result"

record TrieSnapshot =
  ts_root :: b256
  ts_nodes :: node_map
  ts_leaves :: leaf_map

record StateProof =
  sp_root :: b256
  sp_key :: b256
  sp_value :: "bytes option"
  sp_nodes :: "bytes list"

record BuiltNode =
  bn_encoded :: bytes
  bn_hash :: b256

datatype EncodedItem = EBytes bytes | ERaw bytes

datatype RlpKind = RlpBytes | RlpList

record RlpItem =
  item_raw :: bytes
  item_payload :: bytes
  item_kind :: RlpKind

datatype ChildReference = HashRef b256 | Embedded bytes

datatype DecodedNode =
    DLeaf bytes bytes
  | DExtension bytes ChildReference
  | DBranch "ChildReference option list"

definition memory_store :: "node_map \<Rightarrow> node_store" where
  "memory_store nodes hash = Ok (bt_get nodes hash)"

text \<open>
  \<open>EMPTY_ROOT_HASH\<close> and \<open>KECCAK_EMPTY\<close> of \<open>alloy_trie\<close>: the hashes of the RLP empty string and of no
  bytes.
\<close>

definition EMPTY_ROOT_HASH :: "hash_fn \<Rightarrow> b256" where
  "EMPTY_ROOT_HASH K = K [0x80]"

definition KECCAK_EMPTY :: "hash_fn \<Rightarrow> b256" where
  "KECCAK_EMPTY K = K []"

definition secure_account_key :: "hash_fn \<Rightarrow> address \<Rightarrow> b256" where
  "secure_account_key K a = K (to_be_bytes a)"

definition secure_storage_key :: "hash_fn \<Rightarrow> u256 \<Rightarrow> b256" where
  "secure_storage_key K slot = K (to_be_bytes slot)"

section \<open>Nibble paths\<close>

fun nibbles_of :: "bytes \<Rightarrow> bytes" where
  "nibbles_of [] = []"
| "nibbles_of (b # bs) = drop_bit 4 b # (b AND 0x0F) # nibbles_of bs"

definition unpack_nibbles :: "b256 \<Rightarrow> bytes" where
  "unpack_nibbles key = nibbles_of (to_be_bytes key)"

fun pack_pairs :: "bytes \<Rightarrow> bytes" where
  "pack_pairs (a # b # r) = (push_bit 4 a OR b) # pack_pairs r"
| "pack_pairs _ = []"

definition pack_nibbles :: "bytes \<Rightarrow> (b256, StateError) result" where
  "pack_nibbles path =
     (if length path \<noteq> SECURE_KEY_NIBBLES then Err (InvalidPath ''leaf is not a full secure key'')
      else Ok (from_be_bytes (pack_pairs path)))"

definition compact_encode :: "bytes \<Rightarrow> bool \<Rightarrow> bytes" where
  "compact_encode path leaf =
     (let flag = (if leaf then 2 else 0) in
      if odd (length path) then (push_bit 4 (flag OR 1) OR hd path) # pack_pairs (tl path)
      else push_bit 4 flag # pack_pairs path)"

definition compact_decode :: "bytes \<Rightarrow> (bytes \<times> bool, StateError) result" where
  "compact_decode bs =
     (case bs of
        [] \<Rightarrow> Err (InvalidPath ''empty compact path'')
      | first # rest \<Rightarrow>
          let flag = drop_bit 4 first in
          if flag > 3 then Err (InvalidPath ''compact flag'')
          else let odd = flag AND 1 = 1 in
          if \<not> odd \<and> first AND 0x0F \<noteq> 0 then Err (InvalidPath ''non-canonical compact padding'')
          else Ok ((if odd then [first AND 0x0F] else []) @ nibbles_of rest, flag AND 2 = 2))"

section \<open>RLP items\<close>

definition encode_list :: "rlp \<Rightarrow> EncodedItem list \<Rightarrow> bytes" where
  "encode_list R items =
     (let payload = concat (map (\<lambda>i. case i of EBytes bs \<Rightarrow> rlp_bytes R bs | ERaw raw \<Rightarrow> raw) items) in
      rlp_list_header R (length payload) @ payload)"

fun rlp_length_fold :: "nat \<Rightarrow> bytes \<Rightarrow> (nat, StateError) result" where
  "rlp_length_fold len [] = Ok len"
| "rlp_length_fold len (b # bs) =
     (if len * 256 + unat b < 2 ^ 64 then rlp_length_fold (len * 256 + unat b) bs
      else Err (MalformedRlp ''length overflow''))"

definition decode_rlp_length :: "bytes \<Rightarrow> nat \<Rightarrow> (nat, StateError) result" where
  "decode_rlp_length input length_bytes =
     (if length input < 1 + length_bytes then Err (MalformedRlp ''truncated length'')
      else let bs = take length_bytes (drop 1 input) in
        if (bs \<noteq> [] \<and> hd bs = 0) \<or> length_bytes > 8 then Err (MalformedRlp ''non-canonical length'')
        else rlp_length_fold 0 bs)"

definition rlp_layout :: "bytes \<Rightarrow> u8 \<Rightarrow> (RlpKind \<times> nat \<times> nat, StateError) result" where
  "rlp_layout input first =
     (if first \<le> 0x7F then Ok (RlpBytes, 0, 1)
      else if first \<le> 0xB7 then Ok (RlpBytes, 1, unat (first - 0x80))
      else if first \<le> 0xBF then
        let length_bytes = unat (first - 0xB7) in
        bind_res (decode_rlp_length input length_bytes) (\<lambda>len.
        if len < 56 then Err (MalformedRlp ''non-minimal long string'')
        else Ok (RlpBytes, 1 + length_bytes, len))
      else if first \<le> 0xF7 then Ok (RlpList, 1, unat (first - 0xC0))
      else
        let length_bytes = unat (first - 0xF7) in
        bind_res (decode_rlp_length input length_bytes) (\<lambda>len.
        if len < 56 then Err (MalformedRlp ''non-minimal long list'')
        else Ok (RlpList, 1 + length_bytes, len)))"

definition decode_rlp_item :: "bytes \<Rightarrow> (RlpItem, StateError) result" where
  "decode_rlp_item input =
     (case input of
        [] \<Rightarrow> Err (MalformedRlp ''truncated item'')
      | first # _ \<Rightarrow>
          bind_res (rlp_layout input first) (\<lambda>(kind, offset, len).
          let end_pos = offset + len in
          if end_pos \<ge> 2 ^ 64 then Err (MalformedRlp ''length overflow'')
          else if length input < end_pos then Err (MalformedRlp ''truncated payload'')
          else let raw = take end_pos input; payload = drop offset raw in
            if first = 0x81 \<and> payload \<noteq> [] \<and> hd payload < 0x80
            then Err (MalformedRlp ''non-minimal single byte'')
            else Ok \<lparr>item_raw = raw, item_payload = payload, item_kind = kind\<rparr>))"

lemma rlp_layout_pos: "rlp_layout input first = Ok (kind, offset, len) \<Longrightarrow> 0 < offset + len"
  by (auto simp: rlp_layout_def Let_def split: if_splits)

lemma decode_rlp_item_Ok:
  assumes "decode_rlp_item input = Ok item"
  shows "item_raw item \<noteq> []" and "\<exists>rest. input = item_raw item @ rest"
    and "length (item_payload item) \<le> length (item_raw item)"
proof -
  obtain kind offset len where item: "rlp_layout input (hd input) = Ok (kind, offset, len)"
      "item = \<lparr>item_raw = take (offset + len) input,
        item_payload = drop offset (take (offset + len) input), item_kind = kind\<rparr>" "input \<noteq> []"
    using assms by (auto simp: decode_rlp_item_def Let_def split: list.splits if_splits)
  then show "item_raw item \<noteq> []"
    using rlp_layout_pos [OF item(1)] by simp
  show "\<exists>rest. input = item_raw item @ rest"
    unfolding item(2) by (metis RlpItem.select_convs(1) append_take_drop_id)
  show "length (item_payload item) \<le> length (item_raw item)"
    unfolding item(2) by simp linarith
qed

function decode_rlp_items :: "bytes \<Rightarrow> (RlpItem list, StateError) result" where
  "decode_rlp_items remaining =
     (if remaining = [] then Ok []
      else bind_res (decode_rlp_item remaining) (\<lambda>item.
        bind_res (decode_rlp_items (drop (length (item_raw item)) remaining)) (\<lambda>rest.
        Ok (item # rest))))"
  by pat_completeness auto
termination
  by (relation "measure length") (auto dest!: decode_rlp_item_Ok(1))

declare decode_rlp_items.simps [simp del]

definition decode_rlp_list :: "bytes \<Rightarrow> (RlpItem list, StateError) result" where
  "decode_rlp_list input =
     bind_res (decode_rlp_item input) (\<lambda>top.
     if item_kind top \<noteq> RlpList \<or> length (item_raw top) \<noteq> length input
     then Err (MalformedRlp ''expected one exact list'')
     else decode_rlp_items (item_payload top))"

section \<open>Nodes\<close>

definition decode_child :: "RlpItem \<Rightarrow> (ChildReference option, StateError) result" where
  "decode_child item =
     (case item_kind item of
        RlpList \<Rightarrow>
          if length (item_raw item) \<ge> 32 then Err (InvalidPath ''oversized embedded node'')
          else Ok (Some (Embedded (item_raw item)))
      | RlpBytes \<Rightarrow>
          if item_payload item = [] then Ok None
          else if length (item_payload item) = 32
          then Ok (Some (HashRef (from_be_bytes (item_payload item))))
          else Err (InvalidPath ''invalid child reference''))"

definition decode_node :: "bytes \<Rightarrow> (DecodedNode, StateError) result" where
  "decode_node encoded =
     bind_res (decode_rlp_list encoded) (\<lambda>fs.
     if length fs = 2 then
       if item_kind (fs ! 0) \<noteq> RlpBytes then Err (MalformedRlp ''compact path type'')
       else bind_res (compact_decode (item_payload (fs ! 0))) (\<lambda>(path, leaf).
         if path = [] then Err (InvalidPath ''empty leaf/extension path'')
         else if leaf then
           if item_kind (fs ! 1) \<noteq> RlpBytes then Err (MalformedRlp ''leaf value type'')
           else Ok (DLeaf path (item_payload (fs ! 1)))
         else bind_res (decode_child (fs ! 1)) (\<lambda>child.
           bind_res (ok_or (InvalidPath ''empty extension'') child) (\<lambda>child.
           Ok (DExtension path child))))
     else if length fs = 17 then
       if item_kind (fs ! 16) \<noteq> RlpBytes \<or> item_payload (fs ! 16) \<noteq> []
       then Err (InvalidPath ''secure branch value must be empty'')
       else bind_res (collect_res decode_child (take 16 fs)) (\<lambda>children. Ok (DBranch children))
     else Err (MalformedRlp ''node arity''))"

definition load_hashed :: "hash_fn \<Rightarrow> node_store \<Rightarrow> b256 \<Rightarrow> (bytes, StateError) result" where
  "load_hashed K store expected =
     bind_res (store expected) (\<lambda>found.
     bind_res (ok_or (MissingNode expected) found) (\<lambda>encoded.
     let actual = K encoded in
     if actual \<noteq> expected then Err (NodeHashMismatch expected actual) else Ok encoded))"

definition resolve_child :: "hash_fn \<Rightarrow> node_store \<Rightarrow> ChildReference \<Rightarrow> (bytes, StateError) result" where
  "resolve_child K store child =
     (case child of HashRef h \<Rightarrow> load_hashed K store h | Embedded encoded \<Rightarrow> Ok encoded)"

section \<open>Building\<close>

definition common_prefix :: "(bytes \<times> bytes) list \<Rightarrow> nat \<Rightarrow> nat" where
  "common_prefix entries depth =
     length (takeWhile (\<lambda>(l, r). l = r)
       (zip (drop depth (fst (hd entries))) (drop depth (fst (last entries)))))"

definition child_item :: "BuiltNode \<Rightarrow> EncodedItem" where
  "child_item child =
     (if length (bn_encoded child) < 32 then ERaw (bn_encoded child)
      else EBytes (to_be_bytes (bn_hash child)))"

definition nibble_range :: "(bytes \<times> bytes) list \<Rightarrow> nat \<Rightarrow> u8 \<Rightarrow> (bytes \<times> bytes) list" where
  "nibble_range entries depth nibble =
     (let start = partition_point (\<lambda>e. fst e ! depth < nibble) entries;
          end_pos = partition_point (\<lambda>e. fst e ! depth \<le> nibble) entries in
      take (end_pos - start) (drop start entries))"

text \<open>
  \<open>build_items\<close> is the loop over the sixteen nibbles. A node that has been encoded is added to \<open>nodes\<close>
  under its hash.
\<close>

function build_node :: "hash_fn \<Rightarrow> rlp \<Rightarrow> (bytes \<times> bytes) list \<Rightarrow> nat \<Rightarrow> node_map
    \<Rightarrow> (BuiltNode \<times> node_map, StateError) result"
  and build_items :: "hash_fn \<Rightarrow> rlp \<Rightarrow> (bytes \<times> bytes) list \<Rightarrow> nat \<Rightarrow> nat list \<Rightarrow> node_map
    \<Rightarrow> (EncodedItem list \<times> node_map, StateError) result" where
  "build_node K R entries depth nodes =
     (if entries = [] \<or> depth > SECURE_KEY_NIBBLES
      then Err (InvalidPath ''invalid recursive trie range'')
      else bind_res
        (if length entries = 1 then
           if depth \<le> length (fst (hd entries)) then
             Ok (encode_list R [EBytes (compact_encode (drop depth (fst (hd entries))) True),
               EBytes (snd (hd entries))], nodes)
           else Err (InvalidPath ''leaf depth'')
         else let common = common_prefix entries depth in
           if common > 0 then
             bind_res (build_node K R entries (depth + common) nodes) (\<lambda>(child, nodes).
             Ok (encode_list R
               [EBytes (compact_encode (take common (drop depth (fst (hd entries)))) False),
                child_item child], nodes))
           else if depth \<ge> SECURE_KEY_NIBBLES then Err (InvalidPath ''duplicate secure key'')
           else bind_res (build_items K R entries depth [0..<16] nodes) (\<lambda>(items, nodes).
             Ok (encode_list R (items @ [EBytes []]), nodes)))
        (\<lambda>(encoded, nodes).
          Ok (\<lparr>bn_encoded = encoded, bn_hash = K encoded\<rparr>, bt_insert (K encoded) encoded nodes)))"
| "build_items K R entries depth [] nodes = Ok ([], nodes)"
| "build_items K R entries depth (nibble # nibbles) nodes =
     (let rng = nibble_range entries depth (word_of_nat nibble) in
      bind_res
        (if rng = [] then Ok (EBytes [], nodes)
         else bind_res (build_node K R rng (depth + 1) nodes) (\<lambda>(child, nodes).
           Ok (child_item child, nodes)))
        (\<lambda>(item, nodes).
          bind_res (build_items K R entries depth nibbles nodes) (\<lambda>(items, nodes).
          Ok (item # items, nodes))))"
  by pat_completeness auto
termination
  by (relation "measure (\<lambda>x. case x of
        Inl (_, _, _, depth, _) \<Rightarrow> if depth > SECURE_KEY_NIBBLES then 0 else (65 - depth) * 18 + 17
      | Inr (_, _, _, depth, nibbles, _) \<Rightarrow> (65 - depth) * 18 + length nibbles)")
    (auto simp: SECURE_KEY_NIBBLES_def)

declare build_node.simps [simp del]

definition trie_build :: "hash_fn \<Rightarrow> rlp \<Rightarrow> leaf_map \<Rightarrow> (TrieSnapshot, StateError) result" where
  "trie_build K R leaves =
     (if leaves = [] then Ok \<lparr>ts_root = EMPTY_ROOT_HASH K, ts_nodes = [], ts_leaves = []\<rparr>
      else if length leaves > 2 ^ 32 - 1 then Err (StateLimitExceeded ''secure trie leaves'')
      else let entries = map (\<lambda>(key, value). (unpack_nibbles key, value)) leaves in
        bind_res (build_node K R entries 0 []) (\<lambda>(root, nodes).
        Ok \<lparr>ts_root = bn_hash root, ts_nodes = nodes, ts_leaves = leaves\<rparr>))"

fun extend_nodes :: "hash_fn \<Rightarrow> (b256 \<times> bytes) list \<Rightarrow> TrieSnapshot \<Rightarrow> (TrieSnapshot, StateError) result" where
  "extend_nodes K [] s = Ok s"
| "extend_nodes K ((hash, bs) # nodes) s =
     (if K bs \<noteq> hash then Err (NodeHashMismatch hash (K bs))
      else if (case bt_get (ts_nodes s) hash of Some existing \<Rightarrow> existing \<noteq> bs | None \<Rightarrow> False)
      then Err (ProofFailed ''content hash collision'')
      else extend_nodes K nodes (s\<lparr>ts_nodes := bt_insert hash bs (ts_nodes s)\<rparr>))"

section \<open>What a decoded node looks like\<close>

lemma decode_rlp_list_item_less:
  assumes "decode_rlp_list input = Ok items" and "item \<in> set items"
  shows "length (item_raw item) < length input"
proof -
  have bound: "length (item_raw item) \<le> length bs"
    if "decode_rlp_items bs = Ok items" "item \<in> set items" for bs items item
    using that
  proof (induction bs arbitrary: items rule: decode_rlp_items.induct)
    case (1 bs)
    show ?case
    proof (cases "bs = []")
      case True
      with 1 show ?thesis by (simp add: decode_rlp_items.simps)
    next
      case False
      with 1(2) obtain x xs where x: "decode_rlp_item bs = Ok x"
          "decode_rlp_items (drop (length (item_raw x)) bs) = Ok xs" "items = x # xs"
        by (subst (asm) decode_rlp_items.simps) auto
      with 1 False decode_rlp_item_Ok(2) [OF x(1)] show ?thesis
        by fastforce
    qed
  qed
  obtain top where top: "decode_rlp_item input = Ok top" "item_kind top = RlpList"
      "decode_rlp_items (item_payload top) = Ok items"
    using assms(1) by (auto simp: decode_rlp_list_def split: if_splits)
  have "length (item_payload top) < length input"
    using top(1,2) by (auto simp: decode_rlp_item_def rlp_layout_def Let_def split: list.splits if_splits)
  with bound [OF top(3) assms(2)] show ?thesis
    by simp
qed

lemma take_eq_length: "take (length p) xs = p \<Longrightarrow> length p \<le> length xs"
  by (metis length_take min.cobounded1)

lemma decode_child_Embedded: "decode_child item = Ok (Some (Embedded e)) \<Longrightarrow> e = item_raw item"
  by (auto simp: decode_child_def split: RlpKind.splits if_splits)

lemma decode_node_extension:
  assumes "decode_node encoded = Ok (DExtension path child)"
  shows "path \<noteq> []" and "child = Embedded e \<Longrightarrow> length e < length encoded"
proof -
  obtain fs where fs: "decode_rlp_list encoded = Ok fs" "length fs = 2" "path \<noteq> []"
      "decode_child (fs ! 1) = Ok (Some child)"
    using assms by (auto simp: decode_node_def split: if_splits)
  then show "path \<noteq> []" and "child = Embedded e \<Longrightarrow> length e < length encoded"
    using decode_rlp_list_item_less [OF fs(1), of "fs ! 1"] decode_child_Embedded by auto
qed

lemma decode_node_branch:
  assumes "decode_node encoded = Ok (DBranch children)"
  shows "length children = 16" and "Some (Embedded e) \<in> set children \<Longrightarrow> length e < length encoded"
proof -
  obtain fs where fs: "decode_rlp_list encoded = Ok fs" "length fs = 17"
      "collect_res decode_child (take 16 fs) = Ok children"
    using assms by (auto simp: decode_node_def split: if_splits)
  then show "length children = 16"
    using collect_res_length by fastforce
  show "length e < length encoded" if mem: "Some (Embedded e) \<in> set children"
  proof -
    obtain i where "i < 16" "children ! i = Some (Embedded e)"
      using mem unfolding in_set_conv_nth \<open>length children = 16\<close> by blast
    moreover have "\<forall>i < 16. decode_child (fs ! i) = Ok (children ! i)"
      using fs(2,3) by (simp add: collect_res_eq_Ok list_all2_conv_all_nth)
    ultimately have "fs ! i \<in> set fs" "decode_child (fs ! i) = Ok (Some (Embedded e))"
      using fs(2) by (simp_all add: nth_mem)
    then show ?thesis
      using decode_rlp_list_item_less [OF fs(1)] decode_child_Embedded by auto
  qed
qed

section \<open>Proofs and traversal\<close>

text \<open>
  The loop of \<open>EthereumStateCommitment::proof\<close>. Every pass consumes at least one nibble, so it ends.
\<close>

function proof_loop :: "hash_fn \<Rightarrow> node_store \<Rightarrow> bytes \<Rightarrow> bytes \<Rightarrow> nat \<Rightarrow> bytes list
    \<Rightarrow> (bytes option \<times> bytes list, StateError) result" where
  "proof_loop K store target encoded depth nodes =
     (let nodes = nodes @ [encoded] in
      bind_res (decode_node encoded) (\<lambda>node.
      case node of
        DLeaf path value \<Rightarrow> Ok (if drop depth target = path then Some value else None, nodes)
      | DExtension path child \<Rightarrow>
          if take (length path) (drop depth target) \<noteq> path then Ok (None, nodes)
          else bind_res (resolve_child K store child) (\<lambda>encoded.
            proof_loop K store target encoded (depth + length path) nodes)
      | DBranch children \<Rightarrow>
          if depth \<ge> SECURE_KEY_NIBBLES then Err (InvalidPath ''branch beyond secure key'')
          else case children ! unat (target ! depth) of
            None \<Rightarrow> Ok (None, nodes)
          | Some child \<Rightarrow> bind_res (resolve_child K store child) (\<lambda>encoded.
              proof_loop K store target encoded (depth + 1) nodes)))"
  by pat_completeness auto
termination
proof (relation "measure (\<lambda>(_, _, target, _, depth, _). max SECURE_KEY_NIBBLES (length target) - depth)",
    goal_cases)
  case (2 K store target encoded depth nodes nodes' node path child encoded')
  then have "path \<noteq> []" and "take (length path) (drop depth target) = path"
    using decode_node_extension(1) by auto
  then have "0 < length path" "length path \<le> length target - depth"
    using take_eq_length [of path "drop depth target"] by auto
  then show ?case
    unfolding in_measure prod.case max_def by (auto simp flip: length_greater_0_conv)
qed auto

declare proof_loop.simps [simp del]

definition trie_proof :: "hash_fn \<Rightarrow> (StateProof \<Rightarrow> bool) \<Rightarrow> b256 \<Rightarrow> b256 \<Rightarrow> node_store
    \<Rightarrow> (StateProof, StateError) result" where
  "trie_proof K verify_proof root key store =
     (if root = EMPTY_ROOT_HASH K
      then Ok \<lparr>sp_root = root, sp_key = key, sp_value = None, sp_nodes = []\<rparr>
      else bind_res (load_hashed K store root) (\<lambda>encoded.
        bind_res (proof_loop K store (unpack_nibbles key) encoded 0 []) (\<lambda>(value, nodes).
        let p = \<lparr>sp_root = root, sp_key = key, sp_value = value, sp_nodes = nodes\<rparr> in
        if verify_proof p then Ok p else Err (ProofFailed ''proof mismatch''))))"

text \<open>
  The mutable path is the parameter \<open>path\<close>: every call restores it. \<open>leaves\<close> and \<open>visited\<close> are
  threaded. \<open>walk_children\<close> is the loop over the sixteen children of a branch.
\<close>

function walk_node :: "hash_fn \<Rightarrow> node_store \<Rightarrow> bytes \<Rightarrow> bytes \<Rightarrow> leaf_map \<Rightarrow> b256 set
    \<Rightarrow> (leaf_map \<times> b256 set, StateError) result"
  and walk_children :: "hash_fn \<Rightarrow> node_store \<Rightarrow> (nat \<times> ChildReference option) list \<Rightarrow> bytes \<Rightarrow> leaf_map
    \<Rightarrow> b256 set \<Rightarrow> (leaf_map \<times> b256 set, StateError) result"
  and walk_child :: "hash_fn \<Rightarrow> node_store \<Rightarrow> ChildReference \<Rightarrow> bytes \<Rightarrow> leaf_map \<Rightarrow> b256 set
    \<Rightarrow> (leaf_map \<times> b256 set, StateError) result" where
  "walk_node K store encoded path leaves visited =
     bind_res (decode_node encoded) (\<lambda>node.
     case node of
       DLeaf suffix value \<Rightarrow>
         bind_res (pack_nibbles (path @ suffix)) (\<lambda>key.
         if bt_contains leaves key then Err (InvalidPath ''duplicate leaf'')
         else Ok (bt_insert key value leaves, visited))
     | DExtension extension child \<Rightarrow> walk_child K store child (path @ extension) leaves visited
     | DBranch children \<Rightarrow>
         if length path \<ge> SECURE_KEY_NIBBLES then Err (InvalidPath ''branch depth'')
         else walk_children K store (enumerate 0 children) path leaves visited)"
| "walk_children K store [] path leaves visited = Ok (leaves, visited)"
| "walk_children K store ((nibble, child) # children) path leaves visited =
     (case child of
        None \<Rightarrow> walk_children K store children path leaves visited
      | Some c \<Rightarrow>
          bind_res (walk_child K store c (path @ [word_of_nat nibble]) leaves visited)
            (\<lambda>(leaves, visited). walk_children K store children path leaves visited))"
| "walk_child K store child path leaves visited =
     (case child of
        Embedded encoded \<Rightarrow> walk_node K store encoded path leaves visited
      | HashRef hash \<Rightarrow>
          if hash \<in> visited then Err (InvalidPath ''trie node cycle'')
          else bind_res (load_hashed K store hash) (\<lambda>encoded.
            walk_node K store encoded path leaves (insert hash visited)))"
  by pat_completeness auto

lemma walk_visited_mono:
  "walk_node_walk_children_walk_child_dom (Inl (K, store, encoded, path, leaves, visited)) \<Longrightarrow>
     walk_node K store encoded path leaves visited = Ok (ls, vs) \<Longrightarrow> visited \<subseteq> vs"
  "walk_node_walk_children_walk_child_dom (Inr (Inl (K, store, children, path, leaves, visited))) \<Longrightarrow>
     walk_children K store children path leaves visited = Ok (ls, vs) \<Longrightarrow> visited \<subseteq> vs"
  "walk_node_walk_children_walk_child_dom (Inr (Inr (K, store, child, path, leaves, visited))) \<Longrightarrow>
     walk_child K store child path leaves visited = Ok (ls, vs) \<Longrightarrow> visited \<subseteq> vs"
proof (induction K store encoded path leaves visited and K store children path leaves visited
    and K store child path leaves visited arbitrary: ls vs and ls vs and ls vs
    rule: walk_node_walk_children_walk_child.pinduct)
  case (1 K store encoded path leaves visited)
  then obtain node where node: "decode_node encoded = Ok node"
    by (auto simp: walk_node.psimps)
  with 1 show ?case
    by (cases node) (auto simp: walk_node.psimps split: if_splits)
next
  case (3 K store nibble child children path leaves visited)
  show ?case
  proof (cases child)
    case None
    with 3 show ?thesis
      by (simp add: walk_children.psimps)
  next
    case (Some c)
    with 3(1) "3.prems" obtain l v where step: "walk_child K store c (path @ [word_of_nat nibble]) leaves visited = Ok (l, v)"
        and rest: "walk_children K store children path l v = Ok (ls, vs)"
      by (auto simp: walk_children.psimps)
    have "visited \<subseteq> v" "v \<subseteq> vs"
      using "3.IH"(2) [OF Some step] "3.IH"(3) [OF Some step refl rest] by simp_all
    then show ?thesis
      by (rule subset_trans)
  qed
next
  case (4 K store child path leaves visited)
  show ?case
  proof (cases child)
    case (HashRef hash)
    with 4(1) "4.prems" obtain encoded where "hash \<notin> visited" "load_hashed K store hash = Ok encoded"
        "walk_node K store encoded path leaves (insert hash visited) = Ok (ls, vs)"
      by (auto simp: walk_child.psimps split: if_splits)
    with "4.IH"(1) [OF HashRef] show ?thesis
      by blast
  next
    case (Embedded encoded)
    with 4(1) "4.prems" have "walk_node K store encoded path leaves visited = Ok (ls, vs)"
      by (simp add: walk_child.psimps)
    then show ?thesis
      by (rule "4.IH"(2) [OF Embedded])
  qed
qed (auto simp: walk_children.psimps)

fun child_size :: "ChildReference option \<Rightarrow> nat" where
  "child_size (Some (Embedded e)) = length e"
| "child_size _ = 0"

definition children_size :: "(nat \<times> ChildReference option) list \<Rightarrow> nat" where
  "children_size cs = foldr max (map (child_size \<circ> snd) cs) 0"

lemma children_size_less: "0 < n \<Longrightarrow> \<forall>c \<in> snd ` set cs. child_size c < n \<Longrightarrow> children_size cs < n"
  by (induction cs) (auto simp: children_size_def)

lemma child_size_less: "0 < n \<Longrightarrow> (\<And>e. c = Some (Embedded e) \<Longrightarrow> length e < n) \<Longrightarrow> child_size c < n"
  by (cases c rule: child_size.cases) auto

lemma decode_node_sizes:
  "decode_node encoded = Ok (DExtension path child) \<Longrightarrow> child_size (Some child) < length encoded"
  "decode_node encoded = Ok (DBranch children) \<Longrightarrow> children_size (enumerate 0 children) < length encoded"
proof -
  assume a: "decode_node encoded = Ok (DExtension path child)"
  then have "encoded \<noteq> []"
    by (auto simp: decode_node_def decode_rlp_list_def decode_rlp_item_def)
  with decode_node_extension(2) [OF a] show "child_size (Some child) < length encoded"
    by (cases child) auto
next
  assume a: "decode_node encoded = Ok (DBranch children)"
  then have "encoded \<noteq> []"
    by (auto simp: decode_node_def decode_rlp_list_def decode_rlp_item_def)
  with decode_node_branch(2) [OF a] show "children_size (enumerate 0 children) < length encoded"
    by (intro children_size_less) (auto simp: enumerate_eq_zip dest!: set_zip_rightD intro: child_size_less)
qed

definition walk_m1 where
  "walk_m1 x = (case x of
     Inl (_, _, _, _, _, visited) \<Rightarrow> card (- visited :: b256 set)
   | Inr (Inl (_, _, _, _, _, visited)) \<Rightarrow> card (- visited)
   | Inr (Inr (_, _, _, _, _, visited)) \<Rightarrow> card (- visited))"

definition walk_m2 where
  "walk_m2 x = (case x of
     Inl (_, _, encoded :: bytes, _, _, _) \<Rightarrow> 2 * length encoded + 1
   | Inr (Inl (_, _, children, _, _, _)) \<Rightarrow> 2 * children_size children + 3
   | Inr (Inr (_, _, child, _, _, _)) \<Rightarrow> 2 * child_size (Some child) + 2)"

definition walk_m3 where
  "walk_m3 x = (case x of
     Inl _ \<Rightarrow> 17
   | Inr (Inl (_, _, children :: (nat \<times> ChildReference option) list, _, _, _)) \<Rightarrow> length children
   | Inr (Inr _) \<Rightarrow> 0)"

lemmas walk_measures = walk_m1_def walk_m2_def walk_m3_def

lemma card_visited_insert: "h \<notin> visited \<Longrightarrow> card (- insert h visited) < card (- visited :: b256 set)"
  by (rule psubset_card_mono) auto

lemma card_visited_mono: "visited \<subseteq> vs \<Longrightarrow> card (- vs) \<le> card (- visited :: b256 set)"
  by (rule card_mono) auto

lemma children_size_Cons: "children_size ((i, c) # cs) = max (child_size c) (children_size cs)"
  by (simp add: children_size_def)

termination walk_node
proof (relation "walk_m1 <*mlex*> walk_m2 <*mlex*> walk_m3 <*mlex*> {}", goal_cases)
  case (2 K store encoded path leaves visited node extension child)
  then show ?case
    using decode_node_sizes(1) by (fastforce simp: mlex_iff walk_measures)
next
  case (3 K store encoded path leaves visited node children)
  then have "children_size (enumerate 0 children) < length encoded" "length children = 16"
    using decode_node_sizes(2) decode_node_branch(1) by auto
  then show ?case
    by (auto simp: mlex_iff walk_measures)
next
  case (6 K store nibble child children path leaves visited c result leaves' visited')
  then have "card (- visited') \<le> card (- visited)"
    using walk_visited_mono(3) card_visited_mono by metis
  then show ?case
    by (auto simp: mlex_iff walk_measures children_size_Cons)
next
  case (7 K store child path leaves visited hash encoded)
  then show ?case
    using card_visited_insert by (simp add: mlex_iff walk_measures)
qed (auto simp: mlex_iff walk_measures children_size_Cons wf_mlex)

declare walk_node.simps [simp del] walk_children.simps [simp del] walk_child.simps [simp del]

definition collect_leaves :: "hash_fn \<Rightarrow> b256 \<Rightarrow> node_store \<Rightarrow> (leaf_map, StateError) result" where
  "collect_leaves K root store =
     (if root = EMPTY_ROOT_HASH K then Ok []
      else bind_res (load_hashed K store root) (\<lambda>encoded.
        bind_res (walk_node K store encoded [] [] {root}) (\<lambda>(leaves, visited). Ok leaves)))"

definition snapshot_proof :: "hash_fn \<Rightarrow> (StateProof \<Rightarrow> bool) \<Rightarrow> TrieSnapshot \<Rightarrow> b256
    \<Rightarrow> (StateProof, StateError) result" where
  "snapshot_proof K verify_proof s key =
     trie_proof K verify_proof (ts_root s) key (memory_store (ts_nodes s))"

end
