(* ===== verification/Trie_Correct.thy ===== *)
theory Trie_Correct
  imports State_Trie
begin

text \<open>
  Correctness of the secure trie of \<open>State_Trie\<close>. An abstract trie (\<open>trie\<close>) with its entries, its
  encoding and its set of nodes specifies what \<open>build_node\<close> constructs; reading, looking up and
  hashing are then proved by induction on it.
\<close>

unbundle bit_operations_syntax

section \<open>The format of the RLP encoders\<close>

fun be_min :: "nat \<Rightarrow> bytes" where
  "be_min n = (if n = 0 then [] else be_min (n div 256) @ [word_of_nat (n mod 256)])"

declare be_min.simps [simp del]

definition rlp_prefix :: "nat \<Rightarrow> nat \<Rightarrow> bytes" where
  "rlp_prefix base n =
     (if n < 56 then [word_of_nat (base + n)]
      else word_of_nat (base + 55 + length (be_min n)) # be_min n)"

definition rlp_string :: "bytes \<Rightarrow> bytes" where
  "rlp_string v =
     (if length v = 1 \<and> hd v < 0x80 then v else rlp_prefix 0x80 (length v) @ v)"

text \<open>
  The documented output of \<open><[u8]>::encode\<close> and \<open>Header::encode\<close>, for lengths a \<open>usize\<close> holds.
\<close>

definition rlp_format :: "rlp \<Rightarrow> bool" where
  "rlp_format R \<longleftrightarrow>
     (\<forall>v. length v < 2 ^ 63 \<longrightarrow> rlp_bytes R v = rlp_string v)
     \<and> (\<forall>n < 2 ^ 63. rlp_list_header R n = rlp_prefix 0xC0 n)"

lemma be_min_nonempty: "0 < n \<Longrightarrow> be_min n \<noteq> []"
  by (subst be_min.simps) simp

lemma hd_be_min: "0 < n \<Longrightarrow> hd (be_min n) \<noteq> 0"
proof (induction n rule: be_min.induct)
  case (1 n)
  show ?case
  proof (cases "n div 256 = 0")
    case True
    then have "n < 256"
      by simp
    have "word_of_nat (n mod 256) \<noteq> (0 :: 8 word)"
      using \<open>n < 256\<close> 1(2) by (simp add: word_of_nat_eq_0_iff)  (auto dest: nat_dvd_not_less)
    then show ?thesis
      using 1(2) True by (subst be_min.simps) (simp add: be_min.simps)
  next
    case False
    then show ?thesis
      using 1 be_min_nonempty [of "n div 256"] by (subst be_min.simps) (simp add: hd_append)
  qed
qed

lemma length_be_min: "n < 256 ^ k \<Longrightarrow> length (be_min n) \<le> k"
proof (induction k arbitrary: n)
  case 0
  then show ?case by (simp add: be_min.simps)
next
  case (Suc k)
  then have "length (be_min (n div 256)) \<le> k"
    by (intro Suc.IH) (simp add: less_mult_imp_div_less mult.commute)
  then show ?case
    by (subst be_min.simps) simp
qed

lemma rlp_length_fold_append:
  "rlp_length_fold a (xs @ ys) = bind_res (rlp_length_fold a xs) (\<lambda>b. rlp_length_fold b ys)"
  by (induction xs arbitrary: a) auto

lemma rlp_length_fold_be_min: "n < 2 ^ 64 \<Longrightarrow> rlp_length_fold 0 (be_min n) = Ok n"
proof (induction n rule: be_min.induct)
  case (1 n)
  show ?case
  proof (cases "n = 0")
    case False
    have "unat (word_of_nat (n mod 256) :: 8 word) = n mod 256"
      by (simp add: unat_of_nat)
    moreover have "rlp_length_fold 0 (be_min (n div 256)) = Ok (n div 256)"
      using 1 False by (meson div_le_dividend le_less_trans)
    ultimately show ?thesis
      using False 1(2) by (subst be_min.simps) (simp add: rlp_length_fold_append)
  qed (simp add: be_min.simps)
qed

lemma decode_rlp_length_be_min:
  assumes "0 < n" and "n < 2 ^ 64"
  shows "decode_rlp_length (b # be_min n @ rest) (length (be_min n)) = Ok n"
  using assms hd_be_min [OF assms(1)] length_be_min [of n 8] rlp_length_fold_be_min [OF assms(2)]
  by (simp add: decode_rlp_length_def Let_def)

lemma rlp_layout_unat:
  "rlp_layout input b =
     (if unat b \<le> 127 then Ok (RlpBytes, 0, 1)
      else if unat b \<le> 183 then Ok (RlpBytes, 1, unat b - 128)
      else if unat b \<le> 191 then
        bind_res (decode_rlp_length input (unat b - 183)) (\<lambda>len.
        if len < 56 then Err (MalformedRlp ''non-minimal long string'')
        else Ok (RlpBytes, 1 + (unat b - 183), len))
      else if unat b \<le> 247 then Ok (RlpList, 1, unat b - 192)
      else
        bind_res (decode_rlp_length input (unat b - 247)) (\<lambda>len.
        if len < 56 then Err (MalformedRlp ''non-minimal long list'')
        else Ok (RlpList, 1 + (unat b - 247), len)))"
  by (simp add: rlp_layout_def word_le_nat_alt unat_sub Let_def)

lemma unat_hd_prefix:
  assumes "n < 2 ^ 63" and "base \<le> 192"
  shows "unat (hd (rlp_prefix base n)) = (if n < 56 then base + n else base + 55 + length (be_min n))"
proof -
  have "length (be_min n) \<le> 8"
    using length_be_min [of n 8] assms by simp
  then show ?thesis
    using assms by (simp add: rlp_prefix_def unat_of_nat del: of_nat_add)
qed

lemma rlp_layout_prefix:
  assumes "n < 2 ^ 63"
  shows "rlp_layout (rlp_prefix 128 n @ rest) (hd (rlp_prefix 128 n)) = Ok (RlpBytes, length (rlp_prefix 128 n), n)"
    and "rlp_layout (rlp_prefix 192 n @ rest) (hd (rlp_prefix 192 n)) = Ok (RlpList, length (rlp_prefix 192 n), n)"
proof -
  have k: "length (be_min n) \<le> 8" "56 \<le> n \<Longrightarrow> 0 < length (be_min n)"
    using length_be_min [of n 8] assms be_min_nonempty [of n] by auto
  have long: "decode_rlp_length (rlp_prefix base n @ rest) (length (be_min n)) = Ok n" if "56 \<le> n" for base
    using that assms by (simp add: rlp_prefix_def decode_rlp_length_be_min)
  show "rlp_layout (rlp_prefix 128 n @ rest) (hd (rlp_prefix 128 n)) = Ok (RlpBytes, length (rlp_prefix 128 n), n)"
    using k long [of 128] unfolding rlp_layout_unat unat_hd_prefix [OF assms, of 128, simplified]
    by (cases "n < 56") (simp_all add: rlp_prefix_def)
  show "rlp_layout (rlp_prefix 192 n @ rest) (hd (rlp_prefix 192 n)) = Ok (RlpList, length (rlp_prefix 192 n), n)"
    using k long [of 192] unfolding rlp_layout_unat unat_hd_prefix [OF assms, of 192, simplified]
    by (cases "n < 56") (simp_all add: rlp_prefix_def)
qed

lemma rlp_prefix_nonempty [simp]: "rlp_prefix base n \<noteq> []"
  by (simp add: rlp_prefix_def)

lemma length_rlp_prefix: "n < 2 ^ 63 \<Longrightarrow> length (rlp_prefix base n) \<le> 9"
  using length_be_min [of n 8] by (simp add: rlp_prefix_def)

lemma decode_rlp_item_prefix:
  assumes "length v < 2 ^ 63"
  shows "\<not> (length v = 1 \<and> hd v < 0x80) \<Longrightarrow> decode_rlp_item (rlp_prefix 128 (length v) @ v @ rest) =
      Ok \<lparr>item_raw = rlp_prefix 128 (length v) @ v, item_payload = v, item_kind = RlpBytes\<rparr>"
    and "decode_rlp_item (rlp_prefix 192 (length v) @ v @ rest) =
      Ok \<lparr>item_raw = rlp_prefix 192 (length v) @ v, item_payload = v, item_kind = RlpList\<rparr>"
proof -
  have run: "decode_rlp_item (rlp_prefix base (length v) @ v @ rest) =
      Ok \<lparr>item_raw = rlp_prefix base (length v) @ v, item_payload = v, item_kind = kind\<rparr>"
    if "rlp_layout (rlp_prefix base (length v) @ v @ rest) (hd (rlp_prefix base (length v)))
        = Ok (kind, length (rlp_prefix base (length v)), length v)"
      and "\<not> (hd (rlp_prefix base (length v)) = 0x81 \<and> v \<noteq> [] \<and> hd v < 0x80)" for base kind
  proof -
    obtain b bs where "rlp_prefix base (length v) = b # bs"
      by (cases "rlp_prefix base (length v)") auto
    moreover have "length (rlp_prefix base (length v)) + length v < 2 ^ 64"
      using length_rlp_prefix [OF assms, of base] assms by simp
    ultimately show ?thesis
      using that by (simp add: decode_rlp_item_def Let_def)
  qed
  show "decode_rlp_item (rlp_prefix 192 (length v) @ v @ rest) =
      Ok \<lparr>item_raw = rlp_prefix 192 (length v) @ v, item_payload = v, item_kind = RlpList\<rparr>"
  proof (rule run [OF rlp_layout_prefix(2) [OF assms]])
    have "unat (hd (rlp_prefix 192 (length v))) \<noteq> unat (0x81 :: u8)"
      using unat_hd_prefix [OF assms, of 192] by simp
    then show "\<not> (hd (rlp_prefix 192 (length v)) = 0x81 \<and> v \<noteq> [] \<and> hd v < 0x80)"
      by metis
  qed
  show "decode_rlp_item (rlp_prefix 128 (length v) @ v @ rest) =
      Ok \<lparr>item_raw = rlp_prefix 128 (length v) @ v, item_payload = v, item_kind = RlpBytes\<rparr>"
    if "\<not> (length v = 1 \<and> hd v < 0x80)"
  proof (rule run [OF rlp_layout_prefix(1) [OF assms]])
    have "hd (rlp_prefix 128 (length v)) = 0x81 \<Longrightarrow> unat (hd (rlp_prefix 128 (length v))) = 129"
      by simp
    then have "hd (rlp_prefix 128 (length v)) = 0x81 \<Longrightarrow> length v = 1"
      using unat_hd_prefix [OF assms, of 128] by (simp split: if_splits)
    with that show "\<not> (hd (rlp_prefix 128 (length v)) = 0x81 \<and> v \<noteq> [] \<and> hd v < 0x80)"
      by blast
  qed
qed

lemma decode_rlp_item_string:
  assumes "length v < 2 ^ 63"
  shows "decode_rlp_item (rlp_string v @ rest) =
    Ok \<lparr>item_raw = rlp_string v, item_payload = v, item_kind = RlpBytes\<rparr>"
proof (cases "length v = 1 \<and> hd v < 0x80")
  case True
  then obtain b where b: "v = [b]" "unat b \<le> 127"
    by (cases v) (auto simp: word_less_nat_alt)
  then show ?thesis
    using True by (simp add: rlp_string_def decode_rlp_item_def rlp_layout_unat Let_def) (auto simp: word_less_nat_alt)
next
  case False
  then show ?thesis
    using decode_rlp_item_prefix(1) [OF assms, of rest] by (auto simp: rlp_string_def)
qed

section \<open>Items and lists\<close>

definition list_encoding :: "bytes \<Rightarrow> bool" where
  "list_encoding raw \<longleftrightarrow> (\<exists>p. raw = rlp_prefix 192 (length p) @ p \<and> length p < 2 ^ 63)"

fun item_ok :: "EncodedItem \<Rightarrow> bool" where
  "item_ok (EBytes v) \<longleftrightarrow> length v < 2 ^ 63"
| "item_ok (ERaw raw) \<longleftrightarrow> list_encoding raw"

fun item_bytes :: "EncodedItem \<Rightarrow> bytes" where
  "item_bytes (EBytes v) = rlp_string v"
| "item_bytes (ERaw raw) = raw"

text \<open>The item the reader returns for an encoded item; the payload of a raw list is not looked at.\<close>

fun reads_as :: "EncodedItem \<Rightarrow> RlpItem \<Rightarrow> bool" where
  "reads_as (EBytes v) i \<longleftrightarrow> item_kind i = RlpBytes \<and> item_payload i = v"
| "reads_as (ERaw raw) i \<longleftrightarrow> item_kind i = RlpList \<and> item_raw i = raw"

lemma decode_rlp_item_encoded:
  assumes "item_ok e"
  shows "\<exists>i. decode_rlp_item (item_bytes e @ rest) = Ok i \<and> item_raw i = item_bytes e \<and> reads_as e i"
proof (cases e)
  case (EBytes v)
  with assms show ?thesis
    using decode_rlp_item_string [of v rest] by simp
next
  case (ERaw raw)
  with assms show ?thesis
    using decode_rlp_item_prefix(2) [of _ rest] by (auto simp: list_encoding_def)
qed

lemma item_bytes_nonempty: "item_ok e \<Longrightarrow> item_bytes e \<noteq> []"
  by (cases e) (auto simp: list_encoding_def rlp_string_def)

lemma decode_rlp_items_encoded:
  "\<forall>e \<in> set es. item_ok e \<Longrightarrow>
    \<exists>items. decode_rlp_items (concat (map item_bytes es)) = Ok items \<and> list_all2 reads_as es items"
proof (induction es)
  case Nil
  show ?case by (simp add: decode_rlp_items.simps)
next
  case (Cons e es)
  obtain i where i: "decode_rlp_item (item_bytes e @ concat (map item_bytes es)) = Ok i"
      "item_raw i = item_bytes e" "reads_as e i"
    using Cons.prems decode_rlp_item_encoded by fastforce
  obtain items where "decode_rlp_items (concat (map item_bytes es)) = Ok items" "list_all2 reads_as es items"
    using Cons by auto
  with i show ?case
    using item_bytes_nonempty [of e] Cons.prems
    by (subst decode_rlp_items.simps) simp
qed

lemma encode_list_format:
  assumes "rlp_format R" and "\<forall>e \<in> set es. item_ok e" and "length (concat (map item_bytes es)) < 2 ^ 63"
  shows "encode_list R es = rlp_prefix 192 (length (concat (map item_bytes es))) @ concat (map item_bytes es)"
proof -
  have "(case e of EBytes bs \<Rightarrow> rlp_bytes R bs | ERaw raw \<Rightarrow> raw) = item_bytes e" if "e \<in> set es" for e
    using assms(1,2) that by (cases e) (auto simp: rlp_format_def)
  then have eq: "map (\<lambda>i. case i of EBytes bs \<Rightarrow> rlp_bytes R bs | ERaw raw \<Rightarrow> raw) es = map item_bytes es"
    by simp
  then show ?thesis
    using assms(1,3) unfolding encode_list_def Let_def eq by (simp add: rlp_format_def)
qed

lemma list_encoding_encode_list:
  assumes "rlp_format R" and "\<forall>e \<in> set es. item_ok e" and "length (concat (map item_bytes es)) < 2 ^ 63"
  shows "list_encoding (encode_list R es)"
  using assms(3) unfolding list_encoding_def encode_list_format [OF assms] by blast

lemma decode_encode_list:
  assumes "rlp_format R" and "\<forall>e \<in> set es. item_ok e" and "length (concat (map item_bytes es)) < 2 ^ 63"
  shows "\<exists>items. decode_rlp_list (encode_list R es) = Ok items \<and> list_all2 reads_as es items"
  using decode_rlp_items_encoded [OF assms(2)] decode_rlp_item_prefix(2) [OF assms(3), of "[]"]
  unfolding encode_list_format [OF assms] by (simp add: decode_rlp_list_def)

section \<open>Nibbles\<close>

definition nibbles_ok :: "bytes \<Rightarrow> bool" where
  "nibbles_ok ns \<longleftrightarrow> (\<forall>n \<in> set ns. n < 16)"

lemma and_15: "b AND 0x0F = take_bit 4 (b :: u8)"
  by (simp add: take_bit_eq_mask mask_eq_exp_minus_1)

lemma unat_nibbles: "unat (drop_bit 4 (b :: u8)) = unat b div 16" "unat (b AND 0x0F) = unat b mod 16"
  unfolding and_15 by (simp_all add: drop_bit_eq_div take_bit_eq_mod unat_div_distrib unat_mod_distrib)

lemma nibble_parts: "drop_bit 4 b < (16 :: u8)" "b AND 0x0F < (16 :: u8)"
  using unat_byte_less [of b] unfolding word_less_nat_alt unat_nibbles by (simp_all add: less_mult_imp_div_less)

lemma take_bit_nibble: "(n :: u8) < 16 \<Longrightarrow> take_bit 4 n = n"
  by (simp add: word_unat_eq_iff take_bit_eq_mod word_less_nat_alt unat_mod_distrib)

lemma bit_nibble: "(n :: u8) < 16 \<Longrightarrow> bit n i \<Longrightarrow> i < 4"
  by (metis bit_take_bit_iff take_bit_nibble)

lemma nibble_high: "n < 16 \<Longrightarrow> m < 16 \<Longrightarrow> drop_bit 4 (push_bit 4 n OR m) = (n :: u8)"
  by (rule bit_word_eqI) (auto simp: bit_drop_bit_eq bit_or_iff bit_push_bit_iff dest: bit_nibble)

lemma nibble_low: "n < 16 \<Longrightarrow> m < 16 \<Longrightarrow> (push_bit 4 n OR m) AND 0x0F = (m :: u8)"
  unfolding and_15
  by (rule bit_word_eqI) (auto simp: bit_take_bit_iff bit_or_iff bit_push_bit_iff dest: bit_nibble)

lemma nibble_join: "push_bit 4 (drop_bit 4 b) OR (b AND 0x0F) = (b :: u8)"
  unfolding and_15
  by (rule bit_word_eqI) (auto simp: bit_take_bit_iff bit_or_iff bit_push_bit_iff bit_drop_bit_eq)

lemma nibbles_ok_simps [simp]:
  "nibbles_ok []" "nibbles_ok (n # ns) \<longleftrightarrow> n < 16 \<and> nibbles_ok ns"
  "nibbles_ok (ns @ ms) \<longleftrightarrow> nibbles_ok ns \<and> nibbles_ok ms"
  by (auto simp: nibbles_ok_def)

lemma nibbles_ok_sub: "nibbles_ok ns \<Longrightarrow> nibbles_ok (take i ns)" "nibbles_ok ns \<Longrightarrow> nibbles_ok (drop i ns)"
  by (auto simp: nibbles_ok_def dest: in_set_takeD in_set_dropD)

lemma nibbles_of_ok [simp]: "nibbles_ok (nibbles_of bs)"
  by (induction bs) (auto simp: nibble_parts)

lemma length_nibbles_of [simp]: "length (nibbles_of bs) = 2 * length bs"
  by (induction bs) auto

lemma pack_nibbles_of: "pack_pairs (nibbles_of bs) = bs"
  by (induction bs) (auto simp: nibble_join)

lemma nibbles_of_pack: "nibbles_ok ns \<Longrightarrow> even (length ns) \<Longrightarrow> nibbles_of (pack_pairs ns) = ns"
  by (induction ns rule: pack_pairs.induct) (auto simp: nibble_high nibble_low simp del: drop_bit_or)

lemma length_pack_pairs: "length (pack_pairs ns) = length ns div 2"
  by (induction ns rule: pack_pairs.induct) auto

lemma length_unpack_nibbles [simp]: "length (unpack_nibbles key) = 64"
  by (simp add: unpack_nibbles_def)

lemma unpack_nibbles_ok [simp]: "nibbles_ok (unpack_nibbles key)"
  by (simp add: unpack_nibbles_def)

lemma pack_unpack_nibbles: "pack_nibbles (unpack_nibbles key) = Ok key"
  by (simp add: pack_nibbles_def SECURE_KEY_NIBBLES_def unpack_nibbles_def pack_nibbles_of)

lemma unpack_nibbles_inject: "unpack_nibbles a = unpack_nibbles b \<longleftrightarrow> a = b"
  by (metis pack_unpack_nibbles result.inject(1))

lemma length_compact_encode: "length (compact_encode p leaf) = length p div 2 + 1"
  by (cases p) (auto simp: compact_encode_def Let_def length_pack_pairs)

lemma compact_decode_encode:
  assumes "nibbles_ok p"
  shows "compact_decode (compact_encode p leaf) = Ok (p, leaf)"
proof (cases "odd (length p)")
  case True
  then obtain n ns where p: "p = n # ns" "even (length ns)"
    by (cases p) auto
  with assms have n: "n < 16" "nibbles_ok ns"
    by simp_all
  define flag :: u8 where "flag = (if leaf then 2 else 0)"
  have flag: "flag OR 1 < 16" "\<not> flag OR 1 > 3" "(flag OR 1) AND 1 = 1" "(flag OR 1) AND 2 = 2 \<longleftrightarrow> leaf"
    by (auto simp: flag_def)
  have "compact_encode p leaf = (push_bit 4 (flag OR 1) OR n) # pack_pairs ns"
    using True p by (simp add: compact_encode_def flag_def)
  then show ?thesis
    using n p nibble_high [OF flag(1) n(1)] nibble_low [OF flag(1) n(1)] flag
    by (simp add: compact_decode_def nibbles_of_pack Let_def)
next
  case False
  define flag :: u8 where "flag = (if leaf then 2 else 0)"
  have flag: "flag < 16" "\<not> flag > 3" "flag AND 1 \<noteq> 1" "flag AND 2 = 2 \<longleftrightarrow> leaf"
    by (auto simp: flag_def)
  have "compact_encode p leaf = (push_bit 4 flag OR 0) # pack_pairs p"
    using False by (simp add: compact_encode_def flag_def)
  then show ?thesis
    using False assms nibble_high [OF flag(1), of 0] nibble_low [OF flag(1), of 0] flag
    by (simp add: compact_decode_def nibbles_of_pack Let_def)
qed

section \<open>Keys in order\<close>

text \<open>\<open>prefix_value d k\<close> is the number spelled by the first \<open>d\<close> nibbles of the key \<open>k\<close>.\<close>

definition prefix_value :: "nat \<Rightarrow> b256 \<Rightarrow> nat" where
  "prefix_value d k = unat k div 16 ^ (64 - d)"

lemma nibbles_of_nth:
  "j < length bs \<Longrightarrow> nibbles_of bs ! (2 * j) = drop_bit 4 (bs ! j)"
  "j < length bs \<Longrightarrow> nibbles_of bs ! (2 * j + 1) = bs ! j AND 0x0F"
  by (induction bs arbitrary: j) (auto simp: nth_Cons' less_Suc_eq_0_disj)

lemma unpack_nibbles_nth:
  assumes "i < 64"
  shows "unat (unpack_nibbles k ! i) = unat k div 16 ^ (63 - i) mod 16"
proof -
  define j where "j = i div 2"
  have j: "j < 32" "i = 2 * j \<or> i = 2 * j + 1"
    using assms by (auto simp: j_def)
  have byte: "unat (to_be_bytes k ! j) = unat k div 256 ^ (31 - j) mod 256"
    using j(1) by (simp add: to_be_bytes_def be_of_nat_nth unat_of_nat)
  have pow: "(256::nat) ^ (31 - j) = 16 ^ (62 - 2 * j)"
  proof -
    have "(256::nat) ^ (31 - j) = (16 ^ 2) ^ (31 - j)" by simp
    also have "\<dots> = 16 ^ (2 * (31 - j))" by (simp only: power_mult)
    finally show ?thesis by (simp add: diff_mult_distrib2)
  qed
  have high: "x mod 256 div 16 = x div 16 mod 16" and low: "x mod 256 mod 16 = x mod 16" for x :: nat
    using mod_mult2_eq [of x 16 16] by (simp_all add: mod_mod_cancel)
  show ?thesis
    using j(2)
  proof
    assume i: "i = 2 * j"
    have "unat k div 16 ^ (62 - 2 * j) div 16 = unat k div 16 ^ Suc (62 - 2 * j)"
      by (simp only: power_Suc2 div_mult2_eq)
    moreover have "Suc (62 - 2 * j) = 63 - i"
      using j(1) i by simp
    ultimately show ?thesis
      using j(1) byte pow by (simp add: i unpack_nibbles_def nibbles_of_nth unat_nibbles high)
  next
    assume i: "i = 2 * j + 1"
    then show ?thesis
      using j(1) byte pow by (simp add: unpack_nibbles_def nibbles_of_nth(2) [simplified] unat_nibbles low)
  qed
qed

lemma prefix_value_Suc: "d < 64 \<Longrightarrow> prefix_value (Suc d) k = 16 * prefix_value d k + unat (unpack_nibbles k ! d)"
proof -
  assume d: "d < 64"
  have "unat k div 16 ^ (64 - d) = unat k div 16 ^ (63 - d) div 16"
    using d by (simp add: div_mult2_eq [symmetric] power_Suc2 [symmetric] Suc_diff_Suc [symmetric])
  then show ?thesis
    using d by (simp add: prefix_value_def unpack_nibbles_nth)
qed

lemma prefix_value_mono: "k \<le> k' \<Longrightarrow> prefix_value d k \<le> prefix_value d k'"
  by (simp add: prefix_value_def div_le_mono word_le_nat_alt)

lemma prefix_value_0 [simp]: "prefix_value 0 k = 0"
proof -
  have "unat k < 2 ^ 256"
    using unat_less_exp [of k] by simp
  moreover have "(2::nat) ^ 256 = 16 ^ 64"
    by simp
  ultimately show ?thesis
    by (simp add: prefix_value_def)
qed

lemma take_prefix_value:
  "d \<le> 64 \<Longrightarrow> take d (unpack_nibbles k) = take d (unpack_nibbles k') \<longleftrightarrow> prefix_value d k = prefix_value d k'"
proof (induction d)
  case (Suc d)
  have lt: "unat (unpack_nibbles x ! d) < 16" for x
    using Suc.prems by (simp add: unpack_nibbles_nth)
  have "16 * a + b = 16 * a' + b' \<longleftrightarrow> a = a' \<and> b = b'" if "b < 16" "b' < 16" for a a' b b' :: nat
  proof
    assume eq: "16 * a + b = 16 * a' + b'"
    have "(16 * a + b) div 16 = a" "(16 * a' + b') div 16 = a'"
      using that by simp_all
    with eq show "a = a' \<and> b = b'"
      by simp
  qed simp
  from this [OF lt lt] show ?case
    using Suc by (simp add: take_Suc_conv_app_nth prefix_value_Suc word_unat_eq_iff)
qed simp

lemma nibble_mono:
  assumes "d < 64" and "k \<le> k'" and "prefix_value d k = prefix_value d k'"
  shows "unpack_nibbles k ! d \<le> unpack_nibbles k' ! d"
  using prefix_value_mono [OF assms(2), of "Suc d"] assms
  by (simp add: prefix_value_Suc word_le_nat_alt)

section \<open>Abstract tries\<close>

datatype trie =
    TLeaf bytes bytes
  | TExt bytes trie
  | TBranch "trie option list"

primrec trie_entries :: "trie \<Rightarrow> (bytes \<times> bytes) list" where
  "trie_entries (TLeaf p v) = [(p, v)]"
| "trie_entries (TExt p t) = map (\<lambda>(k, v). (p @ k, v)) (trie_entries t)"
| "trie_entries (TBranch ts) =
     concat (map (\<lambda>(i, es). map (\<lambda>(k, v). (word_of_nat i # k, v)) (case_option [] id es))
       (enumerate 0 (map (map_option trie_entries) ts)))"

definition enc_item :: "hash_fn \<Rightarrow> bytes option \<Rightarrow> EncodedItem" where
  "enc_item K e =
     (case e of None \<Rightarrow> EBytes [] | Some b \<Rightarrow> child_item \<lparr>bn_encoded = b, bn_hash = K b\<rparr>)"

primrec trie_enc :: "hash_fn \<Rightarrow> rlp \<Rightarrow> trie \<Rightarrow> bytes" where
  "trie_enc K R (TLeaf p v) = encode_list R [EBytes (compact_encode p True), EBytes v]"
| "trie_enc K R (TExt p t) =
     encode_list R [EBytes (compact_encode p False), enc_item K (Some (trie_enc K R t))]"
| "trie_enc K R (TBranch ts) =
     encode_list R (map (enc_item K) (map (map_option (trie_enc K R)) ts) @ [EBytes []])"

text \<open>The encodings of all nodes, in the order in which they are stored.\<close>

primrec trie_nodes :: "hash_fn \<Rightarrow> rlp \<Rightarrow> trie \<Rightarrow> bytes list" where
  "trie_nodes K R (TLeaf p v) = [trie_enc K R (TLeaf p v)]"
| "trie_nodes K R (TExt p t) = trie_nodes K R t @ [trie_enc K R (TExt p t)]"
| "trie_nodes K R (TBranch ts) =
     concat (map (case_option [] id) (map (map_option (trie_nodes K R)) ts)) @ [trie_enc K R (TBranch ts)]"

definition store_nodes :: "hash_fn \<Rightarrow> bytes list \<Rightarrow> node_map \<Rightarrow> node_map" where
  "store_nodes K ns nodes = fold (\<lambda>e. bt_insert (K e) e) ns nodes"

text \<open>A trie with \<open>n\<close> nibbles below every path.\<close>

primrec trie_wf :: "trie \<Rightarrow> nat \<Rightarrow> bool" where
  "trie_wf (TLeaf p v) n \<longleftrightarrow> length p = n \<and> nibbles_ok p \<and> length v < 2 ^ 62"
| "trie_wf (TExt p t) n \<longleftrightarrow>
     p \<noteq> [] \<and> length p \<le> n \<and> nibbles_ok p \<and> trie_wf t (n - length p)"
| "trie_wf (TBranch ts) n \<longleftrightarrow>
     length ts = 16 \<and> 0 < n \<and> list_all (case_option True (\<lambda>w. w (n - 1))) (map (map_option trie_wf) ts)"

lemma trie_wf_branch:
  "trie_wf (TBranch ts) n \<longleftrightarrow> length ts = 16 \<and> 0 < n \<and> (\<forall>t. Some t \<in> set ts \<longrightarrow> trie_wf t (n - 1))"
  by (auto simp: list_all_iff split: option.splits)

lemma store_nodes_append: "store_nodes K (xs @ ys) m = store_nodes K ys (store_nodes K xs m)"
  by (simp add: store_nodes_def)

section \<open>Slices of sorted leaves\<close>

text \<open>
  The entries below one node: sorted leaves that share their first \<open>d\<close> nibbles.
\<close>

definition trie_slice :: "nat \<Rightarrow> leaf_map \<Rightarrow> bool" where
  "trie_slice d ls \<longleftrightarrow>
     ls \<noteq> [] \<and> d \<le> 64 \<and> sorted_wrt (\<lambda>x y. fst x < fst y) ls
     \<and> (\<forall>x \<in> set ls. \<forall>y \<in> set ls. prefix_value d (fst x) = prefix_value d (fst y))"

abbreviation nibble_entry :: "b256 \<times> bytes \<Rightarrow> bytes \<times> bytes" where
  "nibble_entry \<equiv> \<lambda>(key, value). (unpack_nibbles key, value)"

abbreviation nibble_entries :: "leaf_map \<Rightarrow> (bytes \<times> bytes) list" where
  "nibble_entries ls \<equiv> map nibble_entry ls"

lemma trie_slice_nonempty: "trie_slice d ls \<Longrightarrow> 0 < length ls"
  unfolding trie_slice_def by blast

lemma partition_point_filter:
  assumes "partitioned P xs"
  shows "take (partition_point P xs) xs = filter P xs" and "drop (partition_point P xs) xs = filter (\<lambda>x. \<not> P x) xs"
proof -
  let ?k = "partition_point P xs"
  have "\<forall>x \<in> set (take ?k xs). P x" "\<forall>x \<in> set (drop ?k xs). \<not> P x"
    using partition_point_spec [OF assms] by simp_all
  then have "filter P (take ?k xs @ drop ?k xs) = take ?k xs"
      "filter (\<lambda>x. \<not> P x) (take ?k xs @ drop ?k xs) = drop ?k xs"
    unfolding filter_append by (simp_all add: filter_id_conv filter_empty_conv)
  then show "take ?k xs = filter P xs" "drop ?k xs = filter (\<lambda>x. \<not> P x) xs"
    by simp_all
qed

lemma trie_slice_sorted:
  assumes "trie_slice d ls" and "i \<le> j" and "j < length ls"
  shows "fst (ls ! i) \<le> fst (ls ! j)"
  using assms sorted_wrt_nth_less [of "\<lambda>x y. fst x < fst y" ls i j]
  by (cases "i = j") (auto simp: trie_slice_def)

lemma trie_slice_nibble_mono:
  assumes "trie_slice d ls" and "d < 64" and "i \<le> j" and "j < length ls"
  shows "unpack_nibbles (fst (ls ! i)) ! d \<le> unpack_nibbles (fst (ls ! j)) ! d"
proof (rule nibble_mono [OF assms(2) trie_slice_sorted [OF assms(1,3,4)]])
  show "prefix_value d (fst (ls ! i)) = prefix_value d (fst (ls ! j))"
    using assms unfolding trie_slice_def by (meson le_less_trans nth_mem)
qed

abbreviation at_nibble :: "nat \<Rightarrow> u8 \<Rightarrow> leaf_map \<Rightarrow> leaf_map" where
  "at_nibble d n ls \<equiv> filter (\<lambda>x. unpack_nibbles (fst x) ! d = n) ls"

lemma range_filter:
  assumes "\<forall>x \<in> set (take a xs). \<not> P x" and "\<forall>x \<in> set (drop b xs). \<not> P x"
    and "\<forall>x \<in> set (take (b - a) (drop a xs)). P x"
  shows "take (b - a) (drop a xs) = filter P xs"
proof (cases "a \<le> b")
  case True
  have "drop (b - a) (drop a xs) = drop b xs"
    using True by simp
  then have xs: "take a xs @ take (b - a) (drop a xs) @ drop b xs = xs"
    by (metis append_take_drop_id)
  have "filter P xs = filter P (take a xs) @ filter P (take (b - a) (drop a xs)) @ filter P (drop b xs)"
    unfolding filter_append [symmetric] xs ..
  also have "\<dots> = filter P (take (b - a) (drop a xs))"
    using assms(1,2) by (simp add: filter_empty_conv)
  finally have "filter P xs = filter P (take (b - a) (drop a xs))" .
  then show ?thesis
    using assms(3) by (simp add: filter_id_conv)
next
  case False
  have "filter P (take a xs @ drop a xs) = []"
    using assms(1,2) False set_drop_subset_set_drop [of b a xs]
    unfolding filter_append by (auto simp: filter_empty_conv)
  with False show ?thesis
    by simp
qed

lemma nibble_range_at_nibble:
  assumes "trie_slice d ls" and "d < 64"
  shows "nibble_range (nibble_entries ls) d n = nibble_entries (at_nibble d n ls)"
proof -
  let ?es = "nibble_entries ls"
  let ?lt = "\<lambda>e :: bytes \<times> bytes. fst e ! d < n" and ?le = "\<lambda>e :: bytes \<times> bytes. fst e ! d \<le> n"
  have "fst (?es ! i) ! d \<le> fst (?es ! j) ! d" if "i \<le> j" "j < length ?es" for i j
    using trie_slice_nibble_mono [OF assms] that by (simp add: split_beta)
  then have parts: "partitioned ?lt ?es" "partitioned ?le ?es"
    unfolding partitioned_def by (meson le_less_trans order_trans)+
  define a where "a = partition_point ?lt ?es"
  define b where "b = partition_point ?le ?es"
  note pa = partition_point_filter [OF parts(1), folded a_def]
  note pb = partition_point_filter [OF parts(2), folded b_def]
  let ?eq = "\<lambda>e :: bytes \<times> bytes. fst e ! d = n"
  let ?mid = "take (b - a) (drop a ?es)"
  have "?eq e" if "e \<in> set ?mid" for e
  proof -
    have "e \<in> set (drop a ?es)" "e \<in> set (take b ?es)"
      using that by (metis in_set_takeD, metis drop_take in_set_dropD)
    then show ?thesis
      unfolding pa pb by auto
  qed
  moreover have "\<forall>e \<in> set (take a ?es). \<not> ?eq e" "\<forall>e \<in> set (drop b ?es). \<not> ?eq e"
    unfolding pa pb by auto
  ultimately have "?mid = filter ?eq ?es"
    by (intro range_filter) blast+
  then show ?thesis
    unfolding nibble_range_def Let_def a_def [symmetric] b_def [symmetric]
    by (simp add: filter_map comp_def split_beta)
qed

lemma at_nibble_slice:
  assumes "trie_slice d ls" and "d < 64" and "at_nibble d n ls \<noteq> []"
  shows "trie_slice (Suc d) (at_nibble d n ls)"
  using assms by (auto simp: trie_slice_def sorted_wrt_filter prefix_value_Suc)

lemma filter_less_Suc:
  fixes f :: "'a \<Rightarrow> nat"
  assumes "sorted_wrt (\<lambda>x y. f x \<le> f y) xs"
  shows "filter (\<lambda>x. f x < m) xs @ filter (\<lambda>x. f x = m) xs = filter (\<lambda>x. f x < Suc m) xs"
  using assms
proof (induction xs)
  case (Cons x xs)
  have "filter (\<lambda>x. f x < m) xs = []" if "m \<le> f x"
    using Cons.prems that by (auto simp: filter_empty_conv)
  with Cons show ?case
    by (auto simp: less_Suc_eq filter_empty_conv)
qed simp

lemma trie_slice_sorted_nibbles:
  assumes "trie_slice d ls" and "d < 64"
  shows "sorted_wrt (\<lambda>x y. unat (unpack_nibbles (fst x) ! d) \<le> unat (unpack_nibbles (fst y) ! d)) ls"
  using trie_slice_nibble_mono [OF assms]
  by (simp add: sorted_wrt_iff_nth_less word_le_nat_alt)

lemma trie_slice_split:
  assumes "trie_slice d ls" and "d < 64" and "m \<le> 16"
  shows "concat (map (\<lambda>i. at_nibble d (word_of_nat i) ls) [0..<m])
    = filter (\<lambda>x. unat (unpack_nibbles (fst x) ! d) < m) ls"
  using assms(3)
proof (induction m)
  case (Suc m)
  then have "(w = word_of_nat m) = (unat w = m)" for w :: u8
    by (auto simp: unat_of_nat)
  then show ?case
    using Suc filter_less_Suc [OF trie_slice_sorted_nibbles [OF assms(1,2)], of m] by simp
qed simp

lemma trie_slice_split_all:
  assumes "trie_slice d ls" and "d < 64"
  shows "concat (map (\<lambda>i. at_nibble d (word_of_nat i) ls) [0..<16]) = ls"
proof -
  have "unat (unpack_nibbles k ! d) < 16" for k
    using assms(2) by (simp add: unpack_nibbles_nth)
  then show ?thesis
    using trie_slice_split [OF assms, of 16] by simp
qed

lemma common_length:
  fixes xs ys :: "'a list"
  assumes "length xs = length ys"
  defines "c \<equiv> length (takeWhile (\<lambda>(l, r). l = r) (zip xs ys))"
  shows "c \<le> length xs" and "take c xs = take c ys" and "c < length xs \<Longrightarrow> xs ! c \<noteq> ys ! c"
  using assms(1) unfolding c_def
  by (induction xs ys rule: list_induct2) (auto simp: nth_Cons' split: if_splits)

lemma common_prefix_spec:
  assumes "trie_slice d ls" and "c = common_prefix (nibble_entries ls) d"
  shows "trie_slice (d + c) ls"
    and "2 \<le> length ls \<Longrightarrow> d + c < 64"
    and "d + c < 64 \<Longrightarrow> unpack_nibbles (fst (hd ls)) ! (d + c) \<noteq> unpack_nibbles (fst (last ls)) ! (d + c)"
proof -
  let ?a = "fst (hd ls)" and ?z = "fst (last ls)"
  have ls: "ls \<noteq> []" "d \<le> 64"
    using assms(1) by (simp_all add: trie_slice_def)
  then have c: "c = length (takeWhile (\<lambda>(l, r). l = r) (zip (drop d (unpack_nibbles ?a)) (drop d (unpack_nibbles ?z))))"
    unfolding assms(2) common_prefix_def by (simp add: hd_map last_map split_beta)
  note common = common_length [of "drop d (unpack_nibbles ?a)" "drop d (unpack_nibbles ?z)", folded c]
  have le: "d + c \<le> 64"
    using common(1) ls by simp
  have "prefix_value d ?a = prefix_value d ?z"
    using assms(1) ls unfolding trie_slice_def by (meson hd_in_set last_in_set)
  then have "take d (unpack_nibbles ?a) = take d (unpack_nibbles ?z)"
    using ls by (simp add: take_prefix_value)
  then have same: "take (d + c) (unpack_nibbles ?a) = take (d + c) (unpack_nibbles ?z)"
    using common(2) by (simp add: take_add)
  have "prefix_value (d + c) (fst x) = prefix_value (d + c) ?a" if "x \<in> set ls" for x
  proof -
    obtain i where i: "i < length ls" "x = ls ! i"
      using \<open>x \<in> set ls\<close> by (metis in_set_conv_nth)
    have "?a \<le> fst x" "fst x \<le> ?z"
      using trie_slice_sorted [OF assms(1), of 0 i] trie_slice_sorted [OF assms(1), of i "length ls - 1"] i ls
      by (simp_all add: hd_conv_nth last_conv_nth)
    then show ?thesis
      using same le take_prefix_value [of "d + c" ?a ?z] prefix_value_mono [of ?a "fst x" "d + c"]
        prefix_value_mono [of "fst x" ?z "d + c"] by simp
  qed
  then have "\<forall>x \<in> set ls. \<forall>y \<in> set ls. prefix_value (d + c) (fst x) = prefix_value (d + c) (fst y)"
    by metis
  then show "trie_slice (d + c) ls"
    using assms(1) le unfolding trie_slice_def by blast
  show "d + c < 64" if two: "2 \<le> length ls"
  proof -
    have "?a < ?z"
      using assms(1) two ls sorted_wrt_nth_less [of "\<lambda>x y. fst x < fst y" ls 0 "length ls - 1"]
      by (simp add: trie_slice_def hd_conv_nth last_conv_nth)
    then have "unpack_nibbles ?a \<noteq> unpack_nibbles ?z"
      by (simp add: unpack_nibbles_inject)
    with same le show ?thesis
      by (cases "d + c = 64") auto
  qed
  show "unpack_nibbles ?a ! (d + c) \<noteq> unpack_nibbles ?z ! (d + c)" if "d + c < 64"
    using common(3) that ls by simp
qed

section \<open>Building refines the abstract trie\<close>

text \<open>Every inner node covers at least two entries.\<close>

definition two_keys :: "(bytes \<times> bytes) list \<Rightarrow> bool" where
  "two_keys es \<longleftrightarrow> (\<exists>x \<in> fst ` set es. \<exists>y \<in> fst ` set es. x \<noteq> y)"

lemma slice_two_keys:
  assumes "trie_slice d ls" and "2 \<le> length ls"
  shows "two_keys (map (\<lambda>(k, v). (drop d (unpack_nibbles k), v)) ls)"
proof -
  obtain a b ms where ls: "ls = a # b # ms"
    using assms(2) by (cases ls rule: remdups_adj.cases) auto
  have "a \<in> set ls" "b \<in> set ls" "sorted_wrt (\<lambda>x y. fst x < fst y) (a # b # ms)"
    using assms(1) unfolding ls trie_slice_def by simp_all
  then have "fst a < fst b" "prefix_value d (fst a) = prefix_value d (fst b)" "d \<le> 64"
    using assms(1) unfolding trie_slice_def by (simp, blast, blast)
  then have "take d (unpack_nibbles (fst a)) = take d (unpack_nibbles (fst b))" "fst a \<noteq> fst b"
    by (auto simp: take_prefix_value)
  then have "drop d (unpack_nibbles (fst a)) \<noteq> drop d (unpack_nibbles (fst b))"
    by (metis append_take_drop_id unpack_nibbles_inject)
  then show ?thesis
    by (auto simp: ls two_keys_def split_beta)
qed

primrec trie_multi :: "trie \<Rightarrow> bool" where
  "trie_multi (TLeaf p v) \<longleftrightarrow> True"
| "trie_multi (TExt p t) \<longleftrightarrow> two_keys (trie_entries t) \<and> trie_multi t"
| "trie_multi (TBranch ts) \<longleftrightarrow> two_keys (trie_entries (TBranch ts))
     \<and> list_all (case_option True id) (map (map_option trie_multi) ts)"

lemma trie_multi_branch:
  "trie_multi (TBranch ts) \<longleftrightarrow>
     two_keys (trie_entries (TBranch ts)) \<and> (\<forall>t. Some t \<in> set ts \<longrightarrow> trie_multi t)"
  by (auto simp: list_all_iff split: option.splits)

definition built :: "hash_fn \<Rightarrow> rlp \<Rightarrow> trie \<Rightarrow> node_map \<Rightarrow> BuiltNode \<times> node_map" where
  "built K R t nodes =
     (\<lparr>bn_encoded = trie_enc K R t, bn_hash = K (trie_enc K R t)\<rparr>, store_nodes K (trie_nodes K R t) nodes)"

definition builds :: "hash_fn \<Rightarrow> rlp \<Rightarrow> nat \<Rightarrow> leaf_map \<Rightarrow> trie \<Rightarrow> bool" where
  "builds K R d ls t \<longleftrightarrow>
     (\<forall>nodes. build_node K R (nibble_entries ls) d nodes = Ok (built K R t nodes))
     \<and> trie_entries t = map (\<lambda>(k, v). (drop d (unpack_nibbles k), v)) ls \<and> trie_wf t (64 - d) \<and> trie_multi t"

lemma build_items_refines:
  assumes "trie_slice d ls" and "d < 64"
    and "\<forall>i \<in> set is. at_nibble d (word_of_nat i) ls \<noteq> [] \<longrightarrow>
      builds K R (d + 1) (at_nibble d (word_of_nat i) ls) (t i)"
  defines "c \<equiv> \<lambda>i. if at_nibble d (word_of_nat i) ls = [] then None else Some (t i)"
  shows "build_items K R (nibble_entries ls) d is nodes =
    Ok (map (enc_item K) (map (map_option (trie_enc K R)) (map c is)),
      store_nodes K (concat (map (case_option [] id) (map (map_option (trie_nodes K R)) (map c is)))) nodes)"
  using assms(3)
proof (induction "is" arbitrary: nodes)
  case Nil
  show ?case by (simp add: store_nodes_def)
next
  case (Cons i "is")
  show ?case
  proof (cases "at_nibble d (word_of_nat i) ls = []")
    case True
    then show ?thesis
      using Cons by (simp add: nibble_range_at_nibble [OF assms(1,2)] c_def enc_item_def)
  next
    case False
    with Cons.prems have "builds K R (d + 1) (at_nibble d (word_of_nat i) ls) (t i)"
      by simp
    with False show ?thesis
      using Cons by (simp add: nibble_range_at_nibble [OF assms(1,2)] c_def enc_item_def builds_def built_def
          store_nodes_append)
  qed
qed

lemma branch_entries:
  assumes "trie_slice d ls" and "d < 64"
    and "\<forall>i < 16. at_nibble d (word_of_nat i) ls \<noteq> [] \<longrightarrow>
      builds K R (d + 1) (at_nibble d (word_of_nat i) ls) (t i)"
  defines "c \<equiv> \<lambda>i. if at_nibble d (word_of_nat i) ls = [] then None else Some (t i)"
  shows "trie_entries (TBranch (map c [0..<16])) = map (\<lambda>(k, v). (drop d (unpack_nibbles k), v)) ls"
proof -
  let ?f = "\<lambda>(k, v). (drop d (unpack_nibbles k), v)"
  have "map (\<lambda>(k, v). (word_of_nat i # k, v)) (case_option [] id (map_option trie_entries (c i)))
      = map ?f (at_nibble d (word_of_nat i) ls)" if "i < 16" for i
  proof (cases "at_nibble d (word_of_nat i) ls = []")
    case False
    then have "trie_entries (t i) = map (\<lambda>(k, v). (drop (d + 1) (unpack_nibbles k), v)) (at_nibble d (word_of_nat i) ls)"
      using assms(3) that by (simp add: builds_def)
    moreover have "word_of_nat i # drop (Suc d) (unpack_nibbles k) = drop d (unpack_nibbles k)"
      if "unpack_nibbles k ! d = word_of_nat i" for k
      using Cons_nth_drop_Suc [of d "unpack_nibbles k"] assms(2) that by simp
    ultimately show ?thesis
      using False by (auto simp: c_def)
  qed (simp add: c_def)
  then have part: "map (\<lambda>i. map (\<lambda>(k, v). (word_of_nat i # k, v))
        (case_option [] id (map_option trie_entries (c i)))) [0..<16]
      = map (\<lambda>i. map ?f (at_nibble d (word_of_nat i) ls)) [0..<16]"
    by (intro map_cong refl) simp
  have "trie_entries (TBranch (map c [0..<16])) =
      concat (map (\<lambda>i. map (\<lambda>(k, v). (word_of_nat i # k, v))
        (case_option [] id (map_option trie_entries (c i)))) [0..<16])"
    by (simp add: enumerate_eq_zip zip_map2 comp_def zip_same_conv_map del: upt_rec_numeral)
  also have "\<dots> = concat (map (\<lambda>i. map ?f (at_nibble d (word_of_nat i) ls)) [0..<16])"
    unfolding part ..
  also have "\<dots> = map ?f (concat (map (\<lambda>i. at_nibble d (word_of_nat i) ls) [0..<16]))"
    by (simp add: map_concat comp_def)
  also have "\<dots> = map ?f ls"
    unfolding trie_slice_split_all [OF assms(1,2)] ..
  finally show ?thesis .
qed

lemma build_leaf:
  assumes "d \<le> 64" and "length v < 2 ^ 62"
  shows "builds K R d [(k, v)] (TLeaf (drop d (unpack_nibbles k)) v)"
  using assms unfolding builds_def
  by (subst build_node.simps) (simp add: SECURE_KEY_NIBBLES_def built_def store_nodes_def nibbles_ok_sub)

lemma build_extension:
  assumes "trie_slice d ls" and "2 \<le> length ls" and "c = common_prefix (nibble_entries ls) d"
    and "0 < c" and "builds K R (d + c) ls t"
  shows "builds K R d ls (TExt (take c (drop d (unpack_nibbles (fst (hd ls))))) t)"
proof -
  let ?p = "take c (drop d (unpack_nibbles (fst (hd ls))))"
  have c: "d + c < 64" "trie_slice (d + c) ls" "ls \<noteq> []"
    using common_prefix_spec(1,2) [OF assms(1,3)] assms(2) by auto
  have child: "build_node K R (nibble_entries ls) (d + c) nodes = Ok (built K R t nodes)" for nodes
    using assms(5) by (simp add: builds_def)
  have run: "build_node K R (nibble_entries ls) d nodes = Ok (built K R (TExt ?p t) nodes)" for nodes
    using assms(2-4) c(1,3) child
    by (subst build_node.simps)
      (simp add: SECURE_KEY_NIBBLES_def built_def hd_map split_beta enc_item_def
        store_nodes_append Let_def, simp add: store_nodes_def)
  have "?p @ drop (d + c) (unpack_nibbles k) = drop d (unpack_nibbles k)" if "(k, v) \<in> set ls" for k v
  proof -
    have "prefix_value (d + c) (fst (hd ls)) = prefix_value (d + c) k"
      using c that unfolding trie_slice_def by (metis fst_conv hd_in_set)
    then have "take (d + c) (unpack_nibbles (fst (hd ls))) = take (d + c) (unpack_nibbles k)"
      using c(1) by (simp add: take_prefix_value)
    then have "?p = take c (drop d (unpack_nibbles k))"
      by (metis add_diff_cancel_left' drop_take)
    then show ?thesis
      by (metis append_take_drop_id drop_drop add.commute)
  qed
  then have "map (\<lambda>(k, v). (?p @ k, v)) (map (\<lambda>(k, v). (drop (d + c) (unpack_nibbles k), v)) ls)
      = map (\<lambda>(k, v). (drop d (unpack_nibbles k), v)) ls"
    by auto
  moreover have "trie_wf (TExt ?p t) (64 - d)"
    using assms(4,5) c by (auto simp: builds_def nibbles_ok_sub)
  ultimately show ?thesis
    using run assms(5) slice_two_keys [OF c(2) assms(2)] by (simp add: builds_def)
qed

lemma build_branch:
  assumes "trie_slice d ls" and "2 \<le> length ls" and "common_prefix (nibble_entries ls) d = 0"
    and "\<forall>i < 16. at_nibble d (word_of_nat i) ls \<noteq> [] \<longrightarrow>
      builds K R (d + 1) (at_nibble d (word_of_nat i) ls) (t i)"
  defines "c \<equiv> \<lambda>i. if at_nibble d (word_of_nat i) ls = [] then None else Some (t i)"
  shows "builds K R d ls (TBranch (map c [0..<16]))"
proof -
  have d: "d < 64"
    using common_prefix_spec(2) [OF assms(1) refl assms(2)] assms(3) by simp
  have run: "build_node K R (nibble_entries ls) d nodes = Ok (built K R (TBranch (map c [0..<16])) nodes)" for nodes
    using assms(1-3) d build_items_refines [OF assms(1) d, of "[0..<16]" K R t nodes] assms(4)
    by (subst build_node.simps)
      (simp add: SECURE_KEY_NIBBLES_def trie_slice_def built_def c_def store_nodes_append Let_def
        del: upt_rec_numeral, simp add: store_nodes_def)
  have "trie_wf (TBranch (map c [0..<16])) (64 - d)"
    using assms(4) d by (auto simp: trie_wf_branch builds_def c_def simp del: trie_wf.simps upt_rec_numeral split: if_splits)
  moreover have entries: "trie_entries (TBranch (map c [0..<16])) = map (\<lambda>(k, v). (drop d (unpack_nibbles k), v)) ls"
    using branch_entries [OF assms(1) d assms(4)] by (simp only: c_def)
  moreover have "trie_multi (TBranch (map c [0..<16]))"
    using assms(4) slice_two_keys [OF assms(1,2)] entries
    by (auto simp: trie_multi_branch builds_def c_def simp del: trie_multi.simps trie_entries.simps upt_rec_numeral
        split: if_splits)
  ultimately show ?thesis
    using run unfolding builds_def by blast
qed

text \<open>The trie of sorted leaves below depth \<open>d\<close>; the second leaf case is never reached.\<close>

function trie_of :: "nat \<Rightarrow> leaf_map \<Rightarrow> trie" where
  "trie_of d ls =
     (let c = common_prefix (nibble_entries ls) d in
      if length ls \<le> 1 then TLeaf (drop d (unpack_nibbles (fst (hd ls)))) (snd (hd ls))
      else if 64 \<le> d + c then TLeaf [] []
      else if 0 < c then TExt (take c (drop d (unpack_nibbles (fst (hd ls))))) (trie_of (d + c) ls)
      else TBranch (map (\<lambda>i. if at_nibble d (word_of_nat i) ls = [] then None
        else Some (trie_of (d + 1) (at_nibble d (word_of_nat i) ls))) [0..<16]))"
  by pat_completeness auto
termination
  by (relation "measure (\<lambda>(d, ls). 64 - d)") auto

declare trie_of.simps [simp del]

lemma build_node_refines:
  assumes "trie_slice d ls" and "\<forall>(k, v) \<in> set ls. length v < 2 ^ 62"
  shows "builds K R d ls (trie_of d ls)"
  using assms
proof (induction "64 - d" arbitrary: d ls rule: less_induct)
  case less
  show ?case
  proof (cases "length ls = 1")
    case True
    then obtain k v where ls: "ls = [(k, v)]"
      by (auto simp: length_Suc_conv)
    have "d \<le> 64"
      using less.prems(1) unfolding trie_slice_def by blast
    then show ?thesis
      using less.prems(2) build_leaf [of d v K R k] by (subst trie_of.simps) (auto simp: ls)
  next
    case False
    then have two: "2 \<le> length ls"
      using trie_slice_nonempty [OF less.prems(1)] by linarith
    define c where "c = common_prefix (nibble_entries ls) d"
    have c: "d + c < 64" "trie_slice (d + c) ls"
      using common_prefix_spec [OF less.prems(1) c_def] two by simp_all
    show ?thesis
    proof (cases "0 < c")
      case True
      with c have "64 - (d + c) < 64 - d"
        by linarith
      then have "builds K R (d + c) ls (trie_of (d + c) ls)"
        using less.hyps [OF _ c(2) less.prems(2)] by blast
      then have "builds K R d ls (TExt (take c (drop d (unpack_nibbles (fst (hd ls))))) (trie_of (d + c) ls))"
        using build_extension [OF less.prems(1) two c_def True] by blast
      then show ?thesis
        using two c(1) True by (subst trie_of.simps) (simp add: c_def Let_def)
    next
      case False
      have "builds K R (d + 1) (at_nibble d (word_of_nat i) ls) (trie_of (d + 1) (at_nibble d (word_of_nat i) ls))"
        if ne: "at_nibble d (word_of_nat i) ls \<noteq> []" for i
      proof (rule less.hyps)
        show "64 - (d + 1) < 64 - d" using c by linarith
        show "trie_slice (d + 1) (at_nibble d (word_of_nat i) ls)"
          using at_nibble_slice [OF less.prems(1) _ ne] c by simp
      qed (use less.prems(2) in auto)
      then have "builds K R d ls (TBranch (map (\<lambda>i. if at_nibble d (word_of_nat i) ls = [] then None
          else Some (trie_of (d + 1) (at_nibble d (word_of_nat i) ls))) [0..<16]))"
        using build_branch [OF less.prems(1) two, of K R "\<lambda>i. trie_of (d + 1) (at_nibble d (word_of_nat i) ls)"] False
        by (simp add: c_def del: upt_rec_numeral)
      then show ?thesis
        using two c(1) False by (subst trie_of.simps) (simp add: c_def Let_def del: upt_rec_numeral)
    qed
  qed
qed

section \<open>Decoding an encoded node\<close>

definition child_ref :: "hash_fn \<Rightarrow> bytes \<Rightarrow> ChildReference" where
  "child_ref K e = (if length e < 32 then Embedded e else HashRef (K e))"

lemma length_rlp_string: "length v < 2 ^ 63 \<Longrightarrow> length (rlp_string v) \<le> 9 + length v"
  using length_rlp_prefix [of "length v" 128] by (simp add: rlp_string_def)

lemma enc_item_ok:
  assumes "\<And>b. e = Some b \<Longrightarrow> list_encoding b"
  shows "item_ok (enc_item K e)" and "length (item_bytes (enc_item K e)) \<le> 33"
  using assms length_rlp_string [of "[]"]
  by (auto simp: enc_item_def child_item_def rlp_string_def rlp_prefix_def split: option.splits)

lemma decode_child_enc_item:
  assumes "reads_as (enc_item K e) i"
  shows "decode_child i = Ok (map_option (child_ref K) e)"
proof (cases e)
  case None
  with assms show ?thesis
    by (simp add: enc_item_def decode_child_def)
next
  case (Some b)
  have "to_be_bytes (K b) \<noteq> []"
    by (simp flip: length_0_conv)
  with Some assms show ?thesis
    by (cases "length b < 32") (auto simp: enc_item_def child_item_def decode_child_def child_ref_def)
qed

lemma Some_in_map_option: "Some b \<in> set (map (map_option f) ts) \<longleftrightarrow> (\<exists>t. Some t \<in> set ts \<and> b = f t)"
  by (induction ts) (auto simp: eq_commute [of "Some b"])

lemma length_compact_path: "length p \<le> 64 \<Longrightarrow> length (compact_encode p l) \<le> 33"
  by (simp add: length_compact_encode)

lemma leaf_items_ok:
  assumes "length p \<le> 64" and "length v < 2 ^ 62"
  defines "es \<equiv> [EBytes (compact_encode p True), EBytes v]"
  shows "\<forall>e \<in> set es. item_ok e" and "length (concat (map item_bytes es)) < 2 ^ 63"
  using assms(1,2) length_compact_path [of p True] length_rlp_string [of "compact_encode p True"]
    length_rlp_string [of v] by (simp_all add: es_def)

lemma ext_items_ok:
  fixes K :: hash_fn
  assumes "length p \<le> 64" and "list_encoding b"
  defines "es \<equiv> [EBytes (compact_encode p False), enc_item K (Some b)]"
  shows "\<forall>e \<in> set es. item_ok e" and "length (concat (map item_bytes es)) < 2 ^ 63"
  using assms(1,2) length_compact_path [of p False] length_rlp_string [of "compact_encode p False"]
    enc_item_ok [of "Some b" K] by (simp_all add: es_def)

lemma sum_list_bounded: "\<forall>x \<in> set xs. f x \<le> (k :: nat) \<Longrightarrow> sum_list (map f xs) \<le> length xs * k"
  by (induction xs) auto

lemma branch_items_ok:
  fixes K :: hash_fn
  assumes "length bs = 16" and "\<forall>b. Some b \<in> set bs \<longrightarrow> list_encoding b"
  defines "es \<equiv> map (enc_item K) bs @ [EBytes []]"
  shows "\<forall>e \<in> set es. item_ok e" and "length (concat (map item_bytes es)) < 2 ^ 63"
proof -
  have b: "item_ok (enc_item K b)" "length (item_bytes (enc_item K b)) \<le> 33" if "b \<in> set bs" for b
    using enc_item_ok [of b K] assms(2) that by auto
  then show "\<forall>e \<in> set es. item_ok e"
    by (auto simp: es_def)
  have "length (concat (map item_bytes (map (enc_item K) bs))) \<le> 16 * 33"
    using sum_list_bounded [of bs "\<lambda>b. length (item_bytes (enc_item K b))" 33] b(2) assms(1)
    by (simp add: length_concat comp_def)
  then show "length (concat (map item_bytes es)) < 2 ^ 63"
    by (simp add: es_def rlp_string_def rlp_prefix_def)
qed

lemma trie_enc_list:
  "rlp_format R \<Longrightarrow> trie_wf t n \<Longrightarrow> n \<le> 64 \<Longrightarrow> list_encoding (trie_enc K R t)"
proof (induction t arbitrary: n)
  case (TLeaf p v)
  then have "length p \<le> 64" "length v < 2 ^ 62"
    by auto
  from leaf_items_ok [OF this] TLeaf.prems(1) show ?case
    unfolding trie_enc.simps by (intro list_encoding_encode_list)
next
  case (TExt p t)
  then have "length p \<le> 64" "list_encoding (trie_enc K R t)"
    by auto
  from ext_items_ok [OF this, of K] TExt.prems(1) show ?case
    unfolding trie_enc.simps by (intro list_encoding_encode_list)
next
  case (TBranch ts)
  then have ts: "length ts = 16" "\<forall>t. Some t \<in> set ts \<longrightarrow> trie_wf t (n - 1)"
    unfolding trie_wf_branch by blast+
  have "list_encoding (trie_enc K R t)" if "Some t \<in> set ts" for t
    using TBranch.IH [OF that, of t "n - 1"] TBranch.prems ts that by auto
  then have "\<forall>b. Some b \<in> set (map (map_option (trie_enc K R)) ts) \<longrightarrow> list_encoding b"
    unfolding Some_in_map_option by blast
  then show ?case
    unfolding trie_enc.simps using TBranch.prems(1) ts(1)
    by (intro list_encoding_encode_list branch_items_ok) simp_all
qed

lemma decode_leaf:
  assumes "rlp_format R" and "trie_wf (TLeaf p v) n" and "n \<le> 64" and "p \<noteq> []"
  shows "decode_node (trie_enc K R (TLeaf p v)) = Ok (DLeaf p v)"
proof -
  have ok: "length p \<le> 64" "length v < 2 ^ 62" "nibbles_ok p"
    using assms by auto
  obtain i j where "decode_rlp_list (trie_enc K R (TLeaf p v)) = Ok [i, j]"
      "reads_as (EBytes (compact_encode p True)) i" "reads_as (EBytes v) j"
    using decode_encode_list [OF assms(1) leaf_items_ok [OF ok(1,2)]]
    by (auto simp: list_all2_Cons1)
  with assms(4) ok(3) show ?thesis
    by (simp add: decode_node_def compact_decode_encode)
qed

lemma decode_extension:
  assumes "rlp_format R" and "trie_wf (TExt p t) n" and "n \<le> 64"
  shows "decode_node (trie_enc K R (TExt p t)) = Ok (DExtension p (child_ref K (trie_enc K R t)))"
proof -
  have ok: "length p \<le> 64" "nibbles_ok p" "p \<noteq> []" and child: "list_encoding (trie_enc K R t)"
    using assms trie_enc_list [OF assms(1), of t] by auto
  obtain i j where "decode_rlp_list (trie_enc K R (TExt p t)) = Ok [i, j]"
      "reads_as (EBytes (compact_encode p False)) i" "reads_as (enc_item K (Some (trie_enc K R t))) j"
    using decode_encode_list [OF assms(1) ext_items_ok [OF ok(1) child, of K]]
    by (auto simp: list_all2_Cons1)
  with ok show ?thesis
    by (simp add: decode_node_def compact_decode_encode decode_child_enc_item)
qed

lemma decode_branch:
  assumes "rlp_format R" and "trie_wf (TBranch ts) n" and "n \<le> 64"
  shows "decode_node (trie_enc K R (TBranch ts)) =
    Ok (DBranch (map (map_option (\<lambda>t. child_ref K (trie_enc K R t))) ts))"
proof -
  let ?bs = "map (map_option (trie_enc K R)) ts"
  have ts: "length ts = 16" "\<forall>t. Some t \<in> set ts \<longrightarrow> trie_wf t (n - 1)"
    using assms(2) unfolding trie_wf_branch by blast+
  have bs: "length ?bs = 16" "\<forall>b. Some b \<in> set ?bs \<longrightarrow> list_encoding b"
    using ts trie_enc_list [OF assms(1), of _ "n - 1" K] assms(3) unfolding Some_in_map_option by auto
  obtain fs j where dec: "decode_rlp_list (trie_enc K R (TBranch ts)) = Ok (fs @ [j])"
      and fs: "list_all2 reads_as (map (enc_item K) ?bs) fs" and j: "reads_as (EBytes []) j"
    using decode_encode_list [OF assms(1) branch_items_ok [OF bs, of K]]
    by (auto simp: list_all2_append1 list_all2_Cons1)
  have "length fs = 16"
    using list_all2_lengthD [OF fs] ts(1) by simp
  moreover have "collect_res decode_child fs = Ok (map (map_option (child_ref K)) ?bs)"
    using fs by (simp add: collect_res_eq_Ok list_all2_conv_all_nth decode_child_enc_item)
  ultimately show ?thesis
    using dec j by (simp add: decode_node_def nth_append option.map_comp comp_def)
qed

section \<open>Lookup\<close>

primrec leaf_paths :: "trie \<Rightarrow> bool" where
  "leaf_paths (TLeaf p v) \<longleftrightarrow> p \<noteq> []"
| "leaf_paths (TExt p t) \<longleftrightarrow> leaf_paths t"
| "leaf_paths (TBranch ts) \<longleftrightarrow> list_all (case_option True id) (map (map_option leaf_paths) ts)"

lemma leaf_paths_branch: "leaf_paths (TBranch ts) \<longleftrightarrow> (\<forall>t. Some t \<in> set ts \<longrightarrow> leaf_paths t)"
  by (auto simp: list_all_iff split: option.splits)

definition stores :: "hash_fn \<Rightarrow> rlp \<Rightarrow> node_store \<Rightarrow> trie \<Rightarrow> bool" where
  "stores K R store t \<longleftrightarrow> (\<forall>e \<in> set (trie_nodes K R t). load_hashed K store (K e) = Ok e)"

lemma enc_in_nodes: "trie_enc K R t \<in> set (trie_nodes K R t)"
  by (cases t) auto

lemma nodes_branch: "Some t \<in> set ts \<Longrightarrow> set (trie_nodes K R t) \<subseteq> set (trie_nodes K R (TBranch ts))"
  by (force simp: image_iff)

lemma stores_sub:
  "stores K R store (TExt p t) \<Longrightarrow> stores K R store t"
  "stores K R store (TBranch ts) \<Longrightarrow> Some t \<in> set ts \<Longrightarrow> stores K R store t"
  using nodes_branch unfolding stores_def by (simp, blast)

lemma resolve_child_ref: "stores K R store t \<Longrightarrow> resolve_child K store (child_ref K (trie_enc K R t)) = Ok (trie_enc K R t)"
  using enc_in_nodes by (auto simp: resolve_child_def child_ref_def stores_def)

lemma map_of_prefix:
  "map_of (map (\<lambda>(k, v). (p @ k, v)) es) x = (if take (length p) x = p then map_of es (drop (length p) x) else None)"
proof (induction es)
  case (Cons e es)
  have "p @ fst e = x \<longleftrightarrow> take (length p) x = p \<and> drop (length p) x = fst e"
    by (metis append_eq_conv_conj append_take_drop_id)
  with Cons show ?case
    by (cases e) auto
qed simp

lemma map_of_branch:
  fixes cs :: "(bytes \<times> bytes) list option list"
  assumes "n + length cs \<le> 256" and "n \<le> unat w" and "unat w < n + length cs"
  shows "map_of (concat (map (\<lambda>(i, es). map (\<lambda>(k, v). (word_of_nat i # k, v)) (case_option [] id es))
      (enumerate n cs))) ((w :: u8) # y) = (case cs ! (unat w - n) of None \<Rightarrow> None | Some es \<Rightarrow> map_of es y)"
  using assms
proof (induction cs arbitrary: n)
  case (Cons c cs)
  have here: "map_of (map (\<lambda>(k, v). (word_of_nat n # k, v)) es) (w # y) =
      (if w = word_of_nat n then map_of es y else None)" for es :: "(bytes \<times> bytes) list"
    using map_of_prefix [of "[word_of_nat n]" es "w # y"] by auto
  have other: "map_of (concat (map (\<lambda>(i, es). map (\<lambda>(k, v). (word_of_nat i # k, v)) (case_option [] id es))
      (enumerate m cs))) (w # y) = None" if "unat w < m" "m + length cs \<le> 256" for m cs
    using that
  proof (induction cs arbitrary: m)
    case (Cons d ds)
    have "w \<noteq> word_of_nat m"
      using Cons.prems by (auto simp: unat_of_nat)
    then show ?case
      using Cons map_of_prefix [of "[word_of_nat m]" _ "w # y"] by (auto simp: map_add_def split: option.splits)
  qed simp
  show ?case
  proof (cases "unat w = n")
    case True
    then have "w = word_of_nat n"
      by (simp flip: True)
    then show ?thesis
      using True Cons.prems here other [of "Suc n" cs] by (auto simp: map_add_def split: option.splits)
  next
    case False
    then have "w \<noteq> word_of_nat n"
      using Cons.prems by (auto simp: unat_of_nat)
    moreover have "unat w - n = Suc (unat w - Suc n)"
      using False Cons.prems by linarith
    ultimately show ?thesis
      using False Cons.prems here Cons.IH [of "Suc n"] by (auto simp: map_add_def split: option.splits)
  qed
qed simp

lemma proof_loop_lookup:
  assumes "rlp_format R" and "length target = 64" and "nibbles_ok target"
    and "trie_wf t (64 - d)" and "d \<le> 64" and "leaf_paths t" and "stores K R store t"
  shows "\<exists>ns'. proof_loop K store target (trie_enc K R t) d ns = Ok (map_of (trie_entries t) (drop d target), ns')"
  using assms(4-)
proof (induction t arbitrary: d ns)
  case (TLeaf p v)
  then have "decode_node (trie_enc K R (TLeaf p v)) = Ok (DLeaf p v)"
    by (intro decode_leaf [OF assms(1), where n = "64 - d"]) simp_all
  then show ?case
    by (subst proof_loop.simps) (auto simp: Let_def)
next
  case (TExt p t)
  have dec: "decode_node (trie_enc K R (TExt p t)) = Ok (DExtension p (child_ref K (trie_enc K R t)))"
    using TExt.prems by (intro decode_extension [OF assms(1), where n = "64 - d"]) simp_all
  have st: "stores K R store t"
    using TExt.prems by (blast dest: stores_sub)
  have wf: "trie_wf t (64 - (d + length p))" "d + length p \<le> 64"
    using TExt.prems by (auto simp: diff_diff_eq)
  have "\<exists>ns'. proof_loop K store target (trie_enc K R t) (d + length p) (ns @ [trie_enc K R (TExt p t)]) =
      Ok (map_of (trie_entries t) (drop (d + length p) target), ns')"
    using TExt.IH wf st TExt.prems by simp
  then show ?case
    using dec resolve_child_ref [OF st]
    by (subst proof_loop.simps) (auto simp: Let_def map_of_prefix add.commute)
next
  case (TBranch ts)
  let ?w = "target ! d"
  have dec: "decode_node (trie_enc K R (TBranch ts)) =
      Ok (DBranch (map (map_option (\<lambda>t. child_ref K (trie_enc K R t))) ts))"
    using TBranch.prems by (intro decode_branch [OF assms(1), where n = "64 - d"]) simp_all
  have ts: "length ts = 16" "d < 64" "\<forall>t. Some t \<in> set ts \<longrightarrow> trie_wf t (64 - (d + 1))"
    using TBranch.prems unfolding trie_wf_branch by auto
  have w: "unat ?w < 16" "drop d target = ?w # drop (d + 1) target"
    using assms(2,3) ts(2) nth_mem [of d target] by (auto simp: nibbles_ok_def Cons_nth_drop_Suc word_less_nat_alt)
  have look: "map_of (trie_entries (TBranch ts)) (drop d target) =
      (case ts ! unat ?w of None \<Rightarrow> None | Some t \<Rightarrow> map_of (trie_entries t) (drop (d + 1) target))"
    using w(1) ts(1) unfolding w(2) trie_entries.simps
    by (subst map_of_branch) (auto split: option.splits)
  show ?case
  proof (cases "ts ! unat ?w")
    case None
    then show ?thesis
      using dec look w(1) ts by (subst proof_loop.simps) (auto simp: Let_def SECURE_KEY_NIBBLES_def)
  next
    case (Some t)
    then have t: "Some t \<in> set ts"
      using w(1) ts(1) nth_mem [of "unat ?w" ts] by simp
    have st: "stores K R store t"
      using TBranch.prems t by (blast dest: stores_sub)
    have "leaf_paths t"
      using TBranch.prems(3) t unfolding leaf_paths_branch by blast
    then have "\<exists>ns'. proof_loop K store target (trie_enc K R t) (d + 1) (ns @ [trie_enc K R (TBranch ts)]) =
        Ok (map_of (trie_entries t) (drop (d + 1) target), ns')"
      using TBranch.IH [OF t, of t "d + 1"] ts t st by simp
    then show ?thesis
      using dec look Some w(1) ts resolve_child_ref [OF st]
      by (subst proof_loop.simps) (auto simp: Let_def SECURE_KEY_NIBBLES_def)
  qed
qed

end
