(* ===== verification/Trie_Walk.thy ===== *)
theory Trie_Walk
  imports Trie_Correct
begin

text \<open>
  What the readers of a trie return on the nodes \<open>trie_build\<close> stored (\<open>arbor-state/src/mpt.rs\<close>):
  the lookup of a proof, the walk over all leaves, and the injectivity of the node encoding that
  makes a state root bind the leaves. The abstract tries are those of \<open>Trie_Correct\<close>.
\<close>

section \<open>Sub-tries\<close>

primrec subtries :: "trie \<Rightarrow> trie list" where
  "subtries (TLeaf p v) = []"
| "subtries (TExt p t) = t # subtries t"
| "subtries (TBranch ts) =
     concat (map (case_option [] (\<lambda>(s, ss). s # ss)) (map (map_option (\<lambda>t. (t, subtries t))) ts))"

definition trie_keys :: "trie \<Rightarrow> bytes set" where
  "trie_keys t = fst ` set (trie_entries t)"

lemma trie_keys_leaf [simp]: "trie_keys (TLeaf p v) = {p}"
  by (simp add: trie_keys_def)

lemma trie_keys_ext [simp]: "trie_keys (TExt p t) = (\<lambda>k. p @ k) ` trie_keys t"
  by (force simp: trie_keys_def)

lemma trie_keys_branch:
  "x \<in> trie_keys (TBranch ts) \<longleftrightarrow>
     (\<exists>i < length ts. \<exists>t. ts ! i = Some t \<and> (\<exists>k \<in> trie_keys t. x = word_of_nat i # k))"
proof -
  have "x \<in> trie_keys (TBranch ts) \<longleftrightarrow> (\<exists>i < length ts. x \<in> fst ` set
      (map (\<lambda>(k, v). (word_of_nat i # k, v)) (case_option [] id (map_option trie_entries (ts ! i)))))"
    by (force simp: trie_keys_def in_set_enumerate_eq)
  also have "\<dots> \<longleftrightarrow> (\<exists>i < length ts. \<exists>t. ts ! i = Some t \<and> (\<exists>k \<in> trie_keys t. x = word_of_nat i # k))"
    by (intro ex_cong1 conj_cong refl) (force simp: trie_keys_def split: option.splits)
  finally show ?thesis .
qed

lemma subtries_branch:
  "set (subtries (TBranch ts)) = {s. \<exists>t. Some t \<in> set ts \<and> s \<in> set (t # subtries t)}"
  by (auto split: option.splits)

lemma trie_wf_keys: "trie_wf t n \<Longrightarrow> k \<in> trie_keys t \<Longrightarrow> length k = n \<and> nibbles_ok k"
proof (induction t arbitrary: n k)
  case (TBranch ts)
  then obtain i t j where "i < 16" "ts ! i = Some t" "j \<in> trie_keys t" "k = word_of_nat i # j"
      and "0 < n" "trie_wf t (n - 1)" "Some t \<in> set ts"
    unfolding trie_keys_branch trie_wf_branch by (metis nth_mem)
  then show ?case
    using TBranch.IH [of "Some t" t "n - 1" j] by (auto simp: word_less_nat_alt unat_of_nat)
qed auto

lemma trie_multi_keys: "trie_multi t \<Longrightarrow> trie_wf t n \<Longrightarrow> trie_keys t \<noteq> {}"
  by (cases t) (auto simp: trie_keys_def two_keys_def trie_multi_branch simp del: trie_multi.simps(3) trie_entries.simps(3))

lemma two_keys_ext: "trie_multi (TExt p t) \<Longrightarrow> \<exists>x \<in> trie_keys t. \<exists>y \<in> trie_keys t. x \<noteq> y"
  by (simp add: two_keys_def trie_keys_def)

lemma two_keys_branch:
  "trie_multi (TBranch ts) \<Longrightarrow> \<exists>x \<in> trie_keys (TBranch ts). \<exists>y \<in> trie_keys (TBranch ts). x \<noteq> y"
  by (simp add: trie_multi_branch two_keys_def trie_keys_def del: trie_multi.simps)

section \<open>Keys that differ early and late\<close>

text \<open>
  \<open>differ_early m\<close> says that two different keys of a set differ in the nibbles before the last \<open>m\<close>,
  \<open>differ_late m\<close> that they differ in the last \<open>m\<close>; the keys have \<open>n\<close> nibbles.
\<close>

definition differ_early :: "nat \<Rightarrow> nat \<Rightarrow> bytes set \<Rightarrow> bool" where
  "differ_early m n ks \<longleftrightarrow> (\<forall>x \<in> ks. \<forall>y \<in> ks. take (n - m) x = take (n - m) y \<longrightarrow> x = y)"

definition differ_late :: "nat \<Rightarrow> nat \<Rightarrow> bytes set \<Rightarrow> bool" where
  "differ_late m n ks \<longleftrightarrow> (\<forall>x \<in> ks. \<forall>y \<in> ks. drop (n - m) x = drop (n - m) y \<longrightarrow> x = y)"

lemma differ_early_append:
  "differ_early m n ((\<lambda>k. p @ k) ` ks) \<Longrightarrow> differ_early m (n - length p) ks"
  by (auto simp: differ_early_def add.commute)

lemma differ_late_append:
  assumes "differ_late m n ((\<lambda>k. p @ k) ` ks)"
  shows "differ_late m (n - length p) ks"
  using assms by (auto simp: differ_late_def add.commute)

lemma differ_mono:
  "differ_early m n ks \<Longrightarrow> js \<subseteq> ks \<Longrightarrow> differ_early m n js"
  "differ_late m n ks \<Longrightarrow> js \<subseteq> ks \<Longrightarrow> differ_late m n js"
  unfolding differ_early_def differ_late_def by (meson subsetD)+

lemma child_keys: "i < length ts \<Longrightarrow> ts ! i = Some t \<Longrightarrow> (\<lambda>k. [word_of_nat i] @ k) ` trie_keys t \<subseteq> trie_keys (TBranch ts)"
  unfolding trie_keys_branch subset_iff by auto

lemma differ_child:
  assumes "Some t \<in> set ts"
  shows "differ_early m n (trie_keys (TBranch ts)) \<Longrightarrow> differ_early m (n - 1) (trie_keys t)"
    and "differ_late m n (trie_keys (TBranch ts)) \<Longrightarrow> differ_late m (n - 1) (trie_keys t)"
proof -
  obtain i where i: "i < length ts" "ts ! i = Some t"
    using assms by (metis in_set_conv_nth)
  show "differ_early m n (trie_keys (TBranch ts)) \<Longrightarrow> differ_early m (n - 1) (trie_keys t)"
    using differ_early_append [OF differ_mono(1) [OF _ child_keys [OF i]]] by simp
  show "differ_late m n (trie_keys (TBranch ts)) \<Longrightarrow> differ_late m (n - 1) (trie_keys t)"
    using differ_late_append [OF differ_mono(2) [OF _ child_keys [OF i]]] by simp
qed

lemma differ_early_inner:
  "differ_early m n ks \<Longrightarrow> x \<in> ks \<Longrightarrow> y \<in> ks \<Longrightarrow> x \<noteq> y \<Longrightarrow> m < n"
  by (rule ccontr) (simp add: differ_early_def)

lemma subtrie_at:
  assumes "trie_wf t n" and "trie_multi t" and "differ_early m n (trie_keys t)" and "s \<in> set (subtries t)"
  shows "\<exists>q. q \<noteq> [] \<and> (\<lambda>k. q @ k) ` trie_keys s \<subseteq> trie_keys t \<and> m + length q \<le> n
    \<and> trie_wf s (n - length q) \<and> trie_multi s"
  using assms
proof (induction t arbitrary: n)
  case (TExt p t)
  have n: "m + length p < n"
    using differ_early_inner [of m "n - length p" "trie_keys t"] two_keys_ext [OF TExt.prems(2)]
      differ_early_append TExt.prems(3) by fastforce
  show ?case
  proof (cases "s = t")
    case True
    then show ?thesis
      using n TExt.prems by (intro exI [of _ p]) auto
  next
    case False
    then obtain q where "q \<noteq> []" "(\<lambda>k. q @ k) ` trie_keys s \<subseteq> trie_keys t" "m + length q \<le> n - length p"
        "trie_wf s (n - length p - length q)" "trie_multi s"
      using TExt.IH [of "n - length p"] TExt.prems differ_early_append [of m n p "trie_keys t"] by auto
    then show ?thesis
      using n by (intro exI [of _ "p @ q"]) (auto simp: diff_diff_eq)
  qed
next
  case (TBranch ts)
  have n: "m < n"
    using differ_early_inner [OF TBranch.prems(3)] two_keys_branch [OF TBranch.prems(2)] by blast
  obtain i t where i: "i < length ts" "ts ! i = Some t" and s: "s = t \<or> s \<in> set (subtries t)"
    using TBranch.prems(4) unfolding subtries_branch by (auto simp: in_set_conv_nth)
  then have t: "Some t \<in> set ts"
    by (metis nth_mem)
  have wf: "trie_wf t (n - 1)" "trie_multi t"
    using TBranch.prems(1,2) t unfolding trie_wf_branch trie_multi_branch by auto
  note sub = child_keys [OF i]
  show ?case
    using s
  proof
    assume "s = t"
    then show ?thesis
      using sub n wf by (intro exI [of _ "[word_of_nat i]"]) auto
  next
    assume "s \<in> set (subtries t)"
    then obtain q where "q \<noteq> []" "(\<lambda>k. q @ k) ` trie_keys s \<subseteq> trie_keys t" "m + length q \<le> n - 1"
        "trie_wf s (n - 1 - length q)" "trie_multi s"
      using TBranch.IH [OF t, of t "n - 1"] wf differ_child(1) [OF t TBranch.prems(3)] by auto
    then show ?thesis
      using sub n by (intro exI [of _ "word_of_nat i # q"]) (auto simp: diff_diff_eq)
  qed
qed simp

lemma distinct_concat_nth:
  "(\<And>i. i < length xs \<Longrightarrow> distinct (xs ! i)) \<Longrightarrow>
   (\<And>i j. i < length xs \<Longrightarrow> j < length xs \<Longrightarrow> i \<noteq> j \<Longrightarrow> set (xs ! i) \<inter> set (xs ! j) = {}) \<Longrightarrow>
   distinct (concat xs)"
proof (induction xs)
  case (Cons x xs)
  have "distinct (concat xs)"
    using Cons.prems(1) [of "Suc _"] Cons.prems(2) [of "Suc _" "Suc _"] by (intro Cons.IH) auto
  moreover have "set x \<inter> set y = {}" if y: "y \<in> set xs" for y
  proof -
    obtain i where "i < length xs" "y = xs ! i"
      using y by (auto simp: in_set_conv_nth)
    then show ?thesis
      using Cons.prems(2) [of 0 "Suc i"] by simp
  qed
  ultimately show ?case
    using Cons.prems(1) [of 0] by auto
qed simp

lemma differ_late_child:
  assumes "differ_late m n (trie_keys (TBranch ts))" and "length ts = 16"
    and "i < length ts" "ts ! i = Some t" "q @ k \<in> trie_keys t"
    and "j < length ts" "ts ! j = Some u" "r @ k \<in> trie_keys u"
    and "length (q @ k) = n - 1" "length (r @ k) = n - 1" "m \<le> length k" "0 < n"
  shows "i = j"
proof -
  have x: "word_of_nat i # q @ k \<in> trie_keys (TBranch ts)" "word_of_nat j # r @ k \<in> trie_keys (TBranch ts)"
    using assms(3-8) unfolding trie_keys_branch by blast+
  have "drop (n - m) (word_of_nat i # q @ k) = drop (n - m) (word_of_nat j # r @ k)"
  proof -
    have "n - m = Suc (length q + (length k - m))" "length r = length q"
      using assms(9-12) by auto
    then show ?thesis
      by simp
  qed
  then have "(word_of_nat i :: u8) = word_of_nat j"
    using assms(1) x unfolding differ_late_def by blast
  moreover have "unat (word_of_nat i :: u8) = i" "unat (word_of_nat j :: u8) = j"
    using assms(2,3,6) by (simp_all add: unat_of_nat)
  ultimately show ?thesis
    by metis
qed

lemma subtries_or_self:
  assumes "trie_wf t n" and "trie_multi t" and "differ_early m n (trie_keys t)" and "m \<le> n"
    and "s \<in> set (t # subtries t)" and "k \<in> trie_keys s"
  shows "\<exists>q. q @ k \<in> trie_keys t \<and> length (q @ k) = n \<and> m \<le> length k"
proof (cases "s = t")
  case True
  then show ?thesis
    using assms trie_wf_keys [OF assms(1)] by (intro exI [of _ "[]"]) auto
next
  case False
  then obtain q where "(\<lambda>k. q @ k) ` trie_keys s \<subseteq> trie_keys t" "m + length q \<le> n" "trie_wf s (n - length q)"
    using subtrie_at [OF assms(1-3), of s] assms(5) by auto
  moreover from this have "length k = n - length q"
    using assms(6) trie_wf_keys by blast
  ultimately show ?thesis
    using assms(6) by (intro exI [of _ q]) auto
qed

lemma self_not_subtrie:
  assumes "trie_wf t n" and "trie_multi t" and "differ_early m n (trie_keys t)"
  shows "t \<notin> set (subtries t)"
proof
  assume "t \<in> set (subtries t)"
  then obtain q :: bytes where q: "q \<noteq> []" "m + length q \<le> n" "trie_wf t (n - length q)"
    using subtrie_at [OF assms, of t] by blast
  obtain k where k: "k \<in> trie_keys t"
    using trie_multi_keys [OF assms(2,1)] by blast
  have "length k = n" "length k = n - length q"
    using trie_wf_keys [OF assms(1) k] trie_wf_keys [OF q(3) k] by blast+
  moreover have "0 < length q"
    using q(1) by simp
  ultimately show False
    using q(2) by linarith
qed

lemma distinct_subtries:
  assumes "trie_wf t n" and "trie_multi t" and "differ_early m n (trie_keys t)" and "differ_late m n (trie_keys t)"
  shows "distinct (t # subtries t)"
  using assms
proof (induction t arbitrary: n)
  case (TExt p t)
  have "distinct (t # subtries t)"
    using TExt.prems differ_early_append [of m n p "trie_keys t"] differ_late_append [of m n p "trie_keys t"]
    by (intro TExt.IH [of "n - length p"]) simp_all
  then show ?case
    using self_not_subtrie [OF TExt.prems(1-3)] by simp
next
  case (TBranch ts)
  let ?g = "\<lambda>c. case_option [] (\<lambda>(s, ss). s # ss) (map_option (\<lambda>t. (t, subtries t)) c)"
  have ts: "length ts = 16" "0 < n" and child: "\<And>t. Some t \<in> set ts \<Longrightarrow> trie_wf t (n - 1)"
      "\<And>t. Some t \<in> set ts \<Longrightarrow> trie_multi t"
    using TBranch.prems(1,2) unfolding trie_wf_branch trie_multi_branch by auto
  have m: "m < n"
    using differ_early_inner [OF TBranch.prems(3)] two_keys_branch [OF TBranch.prems(2)] by blast
  then have m': "m \<le> n - 1"
    by simp
  have "distinct (concat (map ?g ts))"
  proof (rule distinct_concat_nth)
    fix i assume i: "i < length (map ?g ts)"
    show "distinct (map ?g ts ! i)"
    proof (cases "ts ! i")
      case (Some t)
      then have t: "Some t \<in> set ts"
        using i nth_mem [of i ts] by simp
      then have "distinct (t # subtries t)"
        by (intro TBranch.IH [OF t, of t "n - 1"] child differ_child [OF t] TBranch.prems(3,4)) simp_all
      then show ?thesis
        using i Some by simp
    qed (use i in simp)
  next
    fix i j assume ij: "i < length (map ?g ts)" "j < length (map ?g ts)" "i \<noteq> j"
    show "set (map ?g ts ! i) \<inter> set (map ?g ts ! j) = {}"
    proof (rule ccontr)
      assume "set (map ?g ts ! i) \<inter> set (map ?g ts ! j) \<noteq> {}"
      then obtain s where "s \<in> set (map ?g ts ! i)" "s \<in> set (map ?g ts ! j)"
        by blast
      with ij obtain t u where s: "ts ! i = Some t" "ts ! j = Some u" "s \<in> set (t # subtries t)" "s \<in> set (u # subtries u)"
        by (cases "ts ! i"; cases "ts ! j") auto
      then have tu: "Some t \<in> set ts" "Some u \<in> set ts"
        using ij nth_mem [of i ts] nth_mem [of j ts] by simp_all
      note prem = child(1) [OF tu(1)] child(2) [OF tu(1)] differ_child(1) [OF tu(1) TBranch.prems(3)]
      note prem' = child(1) [OF tu(2)] child(2) [OF tu(2)] differ_child(1) [OF tu(2) TBranch.prems(3)]
      have "trie_keys s \<noteq> {}"
        using s(3) trie_multi_keys prem(1,2) subtrie_at [OF prem, of s] by (cases "s = t") auto
      then obtain k where k: "k \<in> trie_keys s"
        by blast
      obtain q r where "q @ k \<in> trie_keys t" "length (q @ k) = n - 1" "m \<le> length k"
          "r @ k \<in> trie_keys u" "length (r @ k) = n - 1"
        using subtries_or_self [OF prem m' s(3) k] subtries_or_self [OF prem' m' s(4) k] by blast
      then have "i = j"
        using differ_late_child [OF TBranch.prems(4) ts(1), of i t q k j u r] ij s ts by simp
      with ij show False by simp
    qed
  qed
  then show ?case
    using self_not_subtrie [OF TBranch.prems(1-3)] by (simp add: comp_def)
qed simp

text \<open>Keys that differ before their last nibble leave a nibble for every leaf.\<close>

lemma differ_leaf_paths:
  assumes "trie_wf t n" and "trie_multi t" and "differ_early 1 n (trie_keys t)" and "0 < n"
  shows "leaf_paths t"
  using assms
proof (induction t arbitrary: n)
  case (TExt p t)
  have early: "differ_early 1 (n - length p) (trie_keys t)"
    using differ_early_append [of 1 n p "trie_keys t"] TExt.prems(3) by simp
  then have "1 < n - length p"
    using two_keys_ext [OF TExt.prems(2)] differ_early_inner by blast
  then show ?case
    using TExt.IH [OF _ _ early] TExt.prems by simp
next
  case (TBranch ts)
  have "1 < n"
    using differ_early_inner [OF TBranch.prems(3)] two_keys_branch [OF TBranch.prems(2)] by blast
  then show ?case
    unfolding leaf_paths_branch using TBranch.prems(1,2)
    by (auto simp: trie_wf_branch trie_multi_branch simp del: trie_wf.simps trie_multi.simps
        intro!: TBranch.IH [where n = "n - 1"] differ_child(1) [OF _ TBranch.prems(3)])
qed auto

section \<open>The encoding determines the trie\<close>

definition node_set :: "hash_fn \<Rightarrow> rlp \<Rightarrow> trie \<Rightarrow> bytes set" where
  "node_set K R t = set (trie_nodes K R t)"

lemma child_ref_inject:
  assumes "inj_on K S" and "a \<in> S" and "b \<in> S" and "child_ref K a = child_ref K b"
  shows "a = b"
  using assms by (auto simp: child_ref_def inj_on_def split: if_splits)

lemma node_set_sub:
  "node_set K R t \<subseteq> node_set K R (TExt p t)"
  "Some t \<in> set ts \<Longrightarrow> node_set K R t \<subseteq> node_set K R (TBranch ts)"
  unfolding node_set_def by (simp_all add: nodes_branch del: trie_nodes.simps(3)) auto

lemma enc_in_node_set: "trie_enc K R t \<in> node_set K R t"
  by (simp add: node_set_def enc_in_nodes)

lemma decode_trie:
  assumes "rlp_format R" and "trie_wf t n" and "n \<le> 64" and "leaf_paths t"
  shows "decode_node (trie_enc K R t) = Ok (case t of
      TLeaf p v \<Rightarrow> DLeaf p v
    | TExt p u \<Rightarrow> DExtension p (child_ref K (trie_enc K R u))
    | TBranch ts \<Rightarrow> DBranch (map (map_option (\<lambda>t. child_ref K (trie_enc K R t))) ts))"
  using assms decode_leaf [OF assms(1)] decode_extension [OF assms(1)] decode_branch [OF assms(1)]
  by (cases t) (simp_all del: trie_enc.simps trie_wf.simps add: leaf_paths.simps(1))

lemma child_ref_step:
  assumes "inj_on K S" and "node_set K R t \<subseteq> S" and "node_set K R u \<subseteq> S"
    and "child_ref K (trie_enc K R t) = child_ref K (trie_enc K R u)"
  shows "trie_enc K R t = trie_enc K R u" and "inj_on K (node_set K R t \<union> node_set K R u)"
  using child_ref_inject [OF assms(1) _ _ assms(4)] enc_in_node_set assms
  by (blast, blast intro: inj_on_subset)

lemma trie_enc_inject:
  assumes "rlp_format R" and "inj_on K (node_set K R t \<union> node_set K R u)"
    and "trie_wf t n" and "n \<le> 64" and "leaf_paths t" and "trie_wf u m" and "m \<le> 64" and "leaf_paths u"
    and "trie_enc K R t = trie_enc K R u"
  shows "t = u"
  using assms(2-)
proof (induction t arbitrary: u n m)
  case (TLeaf p v)
  then have "Ok (DLeaf p v) = decode_node (trie_enc K R u)"
    using decode_trie [OF assms(1) TLeaf.prems(2-4), of K] by simp
  then show ?case
    unfolding decode_trie [OF assms(1) TLeaf.prems(5-7)] by (simp split: trie.splits)
next
  case (TExt p t)
  then have dec: "Ok (DExtension p (child_ref K (trie_enc K R t))) = decode_node (trie_enc K R u)"
    using decode_trie [OF assms(1) TExt.prems(2-4), of K] by simp
  then obtain u' where u: "u = TExt p u'" and ref: "child_ref K (trie_enc K R t) = child_ref K (trie_enc K R u')"
    unfolding decode_trie [OF assms(1) TExt.prems(5-7)] by (auto split: trie.splits)
  have sub: "node_set K R t \<subseteq> node_set K R (TExt p t) \<union> node_set K R u"
      "node_set K R u' \<subseteq> node_set K R (TExt p t) \<union> node_set K R u"
    unfolding u using node_set_sub(1) by (simp_all add: le_supI1 le_supI2)
  have "t = u'"
    using TExt.prems(2-7) child_ref_step [OF TExt.prems(1) sub ref]
    by (intro TExt.IH [of u' "n - length p" "m - length p"]) (simp_all add: u)
  with u show ?case by simp
next
  case (TBranch ts)
  let ?ref = "\<lambda>t. child_ref K (trie_enc K R t)"
  have dec: "Ok (DBranch (map (map_option ?ref) ts)) = decode_node (trie_enc K R u)"
    using decode_trie [OF assms(1) TBranch.prems(2-4), of K] unfolding TBranch.prems(8) by simp
  then obtain us where u: "u = TBranch us" and refs: "map (map_option ?ref) ts = map (map_option ?ref) us"
    unfolding decode_trie [OF assms(1) TBranch.prems(5-7)] by (auto split: trie.splits)
  have "ts ! i = us ! i" if i: "i < length ts" for i
  proof -
    have len: "length us = length ts"
      using refs by (metis length_map)
    have ref: "map_option ?ref (ts ! i) = map_option ?ref (us ! i)"
      using arg_cong [OF refs, of "\<lambda>x. x ! i"] i len by simp
    show ?thesis
    proof (cases "ts ! i")
      case None
      then show ?thesis
        using ref by simp
    next
      case (Some t)
      then obtain u' where u': "us ! i = Some u'" and eq: "?ref t = ?ref u'"
        using ref by (cases "us ! i") auto
      have mem: "Some t \<in> set ts" "Some u' \<in> set us"
        using Some u' i len nth_mem by metis+
      then have sub: "node_set K R t \<subseteq> node_set K R (TBranch ts) \<union> node_set K R u"
          "node_set K R u' \<subseteq> node_set K R (TBranch ts) \<union> node_set K R u"
        unfolding u using node_set_sub(2) by (simp_all add: le_supI1 le_supI2)
      have "t = u'"
      proof (rule TBranch.IH [OF mem(1)])
        show "trie_wf t (n - 1)" "trie_wf u' (m - 1)" "leaf_paths t" "leaf_paths u'"
          using TBranch.prems(2,4,5,7) mem unfolding u trie_wf_branch leaf_paths_branch by blast+
      qed (use TBranch.prems(3,6) child_ref_step [OF TBranch.prems(1) sub eq] in simp_all)
      with Some u' show ?thesis by simp
    qed
  qed
  then show ?case
    using refs unfolding u by (metis length_map nth_equalityI)
qed

section \<open>Walking the stored nodes\<close>

definition hash_refs :: "hash_fn \<Rightarrow> rlp \<Rightarrow> trie list \<Rightarrow> b256 list" where
  "hash_refs K R ts = map K (filter (\<lambda>e. 32 \<le> length e) (map (trie_enc K R) ts))"

lemma hash_refs_simps [simp]:
  "hash_refs K R [] = []"
  "hash_refs K R (t # ts) = (if 32 \<le> length (trie_enc K R t) then [K (trie_enc K R t)] else []) @ hash_refs K R ts"
  "hash_refs K R (ts @ us) = hash_refs K R ts @ hash_refs K R us"
  by (simp_all add: hash_refs_def)

definition key_of :: "bytes \<Rightarrow> b256" where
  "key_of ns = from_be_bytes (pack_pairs ns)"

definition put_entries :: "bytes \<Rightarrow> (bytes \<times> bytes) list \<Rightarrow> leaf_map \<Rightarrow> leaf_map" where
  "put_entries path es leaves = fold (\<lambda>(k, v). bt_insert (key_of (path @ k)) v) es leaves"

definition fresh_entries :: "bytes \<Rightarrow> (bytes \<times> bytes) list \<Rightarrow> leaf_map \<Rightarrow> bool" where
  "fresh_entries path es leaves \<longleftrightarrow> bt_wf leaves \<and> distinct (map (\<lambda>e. key_of (path @ fst e)) es)
     \<and> (\<forall>e \<in> set es. bt_get leaves (key_of (path @ fst e)) = None)"

lemma put_entries_simps [simp]:
  "put_entries path [] leaves = leaves"
  "put_entries path ((k, v) # es) leaves = put_entries path es (bt_insert (key_of (path @ k)) v leaves)"
  "put_entries path (es @ fs) leaves = put_entries path fs (put_entries path es leaves)"
  by (simp_all add: put_entries_def)

lemma put_entries_prefix:
  "put_entries path (map (\<lambda>(k, v). (p @ k, v)) es) leaves = put_entries (path @ p) es leaves"
  by (induction es arbitrary: leaves) auto

lemma fresh_entries_prefix:
  "fresh_entries path (map (\<lambda>(k, v). (p @ k, v)) es) leaves \<longleftrightarrow> fresh_entries (path @ p) es leaves"
  by (auto simp: fresh_entries_def comp_def split_beta)

lemma bt_wf_put_entries: "bt_wf leaves \<Longrightarrow> bt_wf (put_entries path es leaves)"
  by (induction es arbitrary: leaves) (auto simp: bt_wf_insert)

lemma bt_get_put_entries:
  "bt_wf leaves \<Longrightarrow> j \<notin> (\<lambda>e. key_of (path @ fst e)) ` set es \<Longrightarrow>
     bt_get (put_entries path es leaves) j = bt_get leaves j"
  by (induction es arbitrary: leaves) (auto simp: bt_wf_insert btree.get_insert)

lemma fresh_entries_append:
  assumes "fresh_entries path (es @ fs) leaves"
  shows "fresh_entries path es leaves" and "fresh_entries path fs (put_entries path es leaves)"
proof -
  show "fresh_entries path es leaves"
    using assms by (auto simp: fresh_entries_def)
  have "bt_get (put_entries path es leaves) (key_of (path @ fst e)) = None" if "e \<in> set fs" for e
    using assms that by (subst bt_get_put_entries) (force simp: fresh_entries_def)+
  then show "fresh_entries path fs (put_entries path es leaves)"
    using assms by (auto simp: fresh_entries_def bt_wf_put_entries)
qed

definition walks_node :: "hash_fn \<Rightarrow> rlp \<Rightarrow> node_store \<Rightarrow> bytes \<Rightarrow> trie \<Rightarrow> bool" where
  "walks_node K R store path t \<longleftrightarrow> (\<forall>leaves visited.
     fresh_entries path (trie_entries t) leaves \<longrightarrow> distinct (hash_refs K R (subtries t)) \<longrightarrow>
     set (hash_refs K R (subtries t)) \<inter> visited = {} \<longrightarrow>
     walk_node K store (trie_enc K R t) path leaves visited =
       Ok (put_entries path (trie_entries t) leaves, visited \<union> set (hash_refs K R (subtries t))))"

definition walks_child :: "hash_fn \<Rightarrow> rlp \<Rightarrow> node_store \<Rightarrow> bytes \<Rightarrow> trie \<Rightarrow> bool" where
  "walks_child K R store path t \<longleftrightarrow> (\<forall>leaves visited.
     fresh_entries path (trie_entries t) leaves \<longrightarrow> distinct (hash_refs K R (t # subtries t)) \<longrightarrow>
     set (hash_refs K R (t # subtries t)) \<inter> visited = {} \<longrightarrow>
     walk_child K store (child_ref K (trie_enc K R t)) path leaves visited =
       Ok (put_entries path (trie_entries t) leaves, visited \<union> set (hash_refs K R (t # subtries t))))"

lemma walks_child_of_node:
  assumes "walks_node K R store path t" and "stores K R store t"
  shows "walks_child K R store path t"
proof -
  have "load_hashed K store (K (trie_enc K R t)) = Ok (trie_enc K R t)"
    using assms(2) enc_in_nodes by (simp add: stores_def)
  then show ?thesis
    using assms(1) unfolding walks_child_def walks_node_def
    by (auto simp: child_ref_def walk_child.simps)
qed

abbreviation branch_subtries :: "trie option list \<Rightarrow> trie list" where
  "branch_subtries ts \<equiv>
     concat (map (case_option [] (\<lambda>(s, ss). s # ss)) (map (map_option (\<lambda>t. (t, subtries t))) ts))"

abbreviation branch_list :: "nat \<Rightarrow> trie option list \<Rightarrow> (bytes \<times> bytes) list" where
  "branch_list n ts \<equiv>
     concat (map (\<lambda>(i, es). map (\<lambda>(k, v). (word_of_nat i # k, v)) (case_option [] id es))
       (enumerate n (map (map_option trie_entries) ts)))"

lemma walks_children:
  assumes "\<forall>i < length ts. \<forall>t. ts ! i = Some t \<longrightarrow> walks_child K R store (path @ [word_of_nat (n + i)]) t"
    and "fresh_entries path (branch_list n ts) leaves"
    and "distinct (hash_refs K R (branch_subtries ts))"
    and "set (hash_refs K R (branch_subtries ts)) \<inter> visited = {}"
  shows "walk_children K store (enumerate n (map (map_option (\<lambda>t. child_ref K (trie_enc K R t))) ts)) path leaves visited =
    Ok (put_entries path (branch_list n ts) leaves, visited \<union> set (hash_refs K R (branch_subtries ts)))"
  using assms
proof (induction ts arbitrary: n leaves visited)
  case (Cons c ts)
  have rest: "\<forall>i < length ts. \<forall>t. ts ! i = Some t \<longrightarrow> walks_child K R store (path @ [word_of_nat (Suc n + i)]) t"
    using Cons.prems(1) by (metis Suc_less_eq add_Suc_shift length_Cons nth_Cons_Suc)
  show ?case
  proof (cases c)
    case None
    with Cons.prems(2-) Cons.IH [OF rest] show ?thesis
      by (simp add: walk_children.simps)
  next
    case (Some t)
    let ?es = "map (\<lambda>(k, v). (word_of_nat n # k, v)) (trie_entries t)"
    have es: "branch_list n (c # ts) = ?es @ branch_list (Suc n) ts"
      by (simp add: Some)
    have fresh: "fresh_entries path ?es leaves" "fresh_entries path (branch_list (Suc n) ts) (put_entries path ?es leaves)"
      using fresh_entries_append [of path ?es "branch_list (Suc n) ts" leaves] Cons.prems(2) unfolding es by blast+
    have here: "fresh_entries (path @ [word_of_nat n]) (trie_entries t) leaves"
        "put_entries path ?es leaves = put_entries (path @ [word_of_nat n]) (trie_entries t) leaves"
      using fresh(1) fresh_entries_prefix [of path "[word_of_nat n]"] put_entries_prefix [of path "[word_of_nat n]"] by simp_all
    have refs: "hash_refs K R (branch_subtries (c # ts)) =
        hash_refs K R (t # subtries t) @ hash_refs K R (branch_subtries ts)"
      by (simp add: Some)
    have "walks_child K R store (path @ [word_of_nat n]) t"
      using Cons.prems(1) Some by force
    then have "walk_child K store (child_ref K (trie_enc K R t)) (path @ [word_of_nat n]) leaves visited =
        Ok (put_entries path ?es leaves, visited \<union> set (hash_refs K R (t # subtries t)))"
      using here Cons.prems(3,4) unfolding walks_child_def refs by (auto simp del: hash_refs_simps(2))
    moreover have "walk_children K store (enumerate (Suc n) (map (map_option (\<lambda>t. child_ref K (trie_enc K R t))) ts)) path
        (put_entries path ?es leaves) (visited \<union> set (hash_refs K R (t # subtries t))) =
        Ok (put_entries path (branch_list (Suc n) ts) (put_entries path ?es leaves),
          visited \<union> set (hash_refs K R (t # subtries t)) \<union> set (hash_refs K R (branch_subtries ts)))"
      using Cons.prems(3,4) unfolding refs
      by (intro Cons.IH [OF rest fresh(2)]) (auto simp del: hash_refs_simps(2))
    ultimately show ?thesis
      unfolding es refs by (simp add: Some walk_children.simps Un_assoc del: hash_refs_simps(2))
  qed
qed (simp add: walk_children.simps)

lemma walks_node:
  assumes "rlp_format R" and "trie_wf t (64 - length path)" and "length path \<le> 64"
    and "leaf_paths t" and "stores K R store t"
  shows "walks_node K R store path t"
  using assms(2-)
proof (induction t arbitrary: path)
  case (TLeaf p v)
  have "decode_node (trie_enc K R (TLeaf p v)) = Ok (DLeaf p v)"
    using TLeaf.prems by (intro decode_leaf [OF assms(1), where n = "64 - length path"]) simp_all
  moreover have "length (path @ p) = 64"
    using TLeaf.prems(1,2) by auto
  then have "pack_nibbles (path @ p) = Ok (key_of (path @ p))"
    by (simp only: pack_nibbles_def key_of_def SECURE_KEY_NIBBLES_def) simp
  ultimately show ?case
    by (simp add: walks_node_def walk_node.simps fresh_entries_def bt_contains_def del: trie_enc.simps)
next
  case (TExt p t)
  have dec: "decode_node (trie_enc K R (TExt p t)) = Ok (DExtension p (child_ref K (trie_enc K R t)))"
    using TExt.prems by (intro decode_extension [OF assms(1), where n = "64 - length path"]) simp_all
  have "stores K R store t" "length (path @ p) \<le> 64"
    using TExt.prems stores_sub(1) by auto
  then have "walks_child K R store (path @ p) t"
    using TExt.prems by (intro walks_child_of_node TExt.IH) (simp_all add: diff_diff_eq)
  then show ?case
    using dec unfolding walks_node_def walks_child_def
    by (subst walk_node.simps) (simp add: fresh_entries_prefix put_entries_prefix del: trie_enc.simps hash_refs_simps(2))
next
  case (TBranch ts)
  have dec: "decode_node (trie_enc K R (TBranch ts)) =
      Ok (DBranch (map (map_option (\<lambda>t. child_ref K (trie_enc K R t))) ts))"
    using TBranch.prems by (intro decode_branch [OF assms(1), where n = "64 - length path"]) simp_all
  have ts: "length path < 64" "\<forall>t. Some t \<in> set ts \<longrightarrow> trie_wf t (64 - Suc (length path)) \<and> leaf_paths t \<and> stores K R store t"
    using TBranch.prems stores_sub(2) [OF TBranch.prems(4)] unfolding trie_wf_branch leaf_paths_branch by auto
  have "walks_child K R store (path @ [word_of_nat i]) t" if "i < length ts" "ts ! i = Some t" for i t
  proof -
    have "Some t \<in> set ts"
      using that nth_mem by metis
    then show ?thesis
      using ts by (intro walks_child_of_node TBranch.IH [of "Some t" t]) simp_all
  qed
  then have "\<forall>i < length ts. \<forall>t. ts ! i = Some t \<longrightarrow> walks_child K R store (path @ [word_of_nat (0 + i)]) t"
    by simp
  from walks_children [OF this] show ?case
    using dec ts(1) unfolding walks_node_def
    by (subst walk_node.simps) (simp add: SECURE_KEY_NIBBLES_def del: trie_enc.simps)
qed

end
