(* ===== verification/State_Root.thy ===== *)
theory State_Root
  imports Trie_Walk
begin

text \<open>
  The properties of the secure trie as its callers see them (\<open>SecureTrie::build\<close>,
  \<open>TrieSnapshot::proof\<close> and \<open>collect_leaves\<close> of \<open>arbor-state/src/mpt.rs\<close>): building refines the
  abstract trie, a proof carries the value the leaves hold, walking the stored nodes gives the leaves
  back, and a root binds the leaves.
\<close>

section \<open>Snapshots of sorted leaves\<close>

definition leaves_ok :: "leaf_map \<Rightarrow> bool" where
  "leaves_ok ls \<longleftrightarrow> bt_wf ls \<and> length ls < 2 ^ 32 \<and> (\<forall>(k, v) \<in> set ls. length v < 2 ^ 62)"

text \<open>The bytes the hash function is applied to when the leaves are built and read.\<close>

definition hashed_nodes :: "hash_fn \<Rightarrow> rlp \<Rightarrow> leaf_map \<Rightarrow> bytes set" where
  "hashed_nodes K R ls = insert [0x80] (if ls = [] then {} else node_set K R (trie_of 0 ls))"

definition leaf_keys :: "leaf_map \<Rightarrow> b256 set" where
  "leaf_keys ls = fst ` set ls"

lemma trie_slice_0: "leaves_ok ls \<Longrightarrow> ls \<noteq> [] \<Longrightarrow> trie_slice 0 ls"
  by (simp add: leaves_ok_def trie_slice_def bt_wf_def sorted_wrt_map)

lemma builds_leaves: "leaves_ok ls \<Longrightarrow> ls \<noteq> [] \<Longrightarrow> builds K R 0 ls (trie_of 0 ls)"
  by (rule build_node_refines) (simp_all add: trie_slice_0, simp add: leaves_ok_def)

lemma trie_build_leaves:
  assumes "leaves_ok ls" and "ls \<noteq> []"
  shows "trie_build K R ls = Ok \<lparr>ts_root = K (trie_enc K R (trie_of 0 ls)),
    ts_nodes = store_nodes K (trie_nodes K R (trie_of 0 ls)) [], ts_leaves = ls\<rparr>"
  using assms builds_leaves [OF assms, of K R]
  by (simp add: trie_build_def builds_def built_def leaves_ok_def)

lemma trie_of_leaves:
  assumes "leaves_ok ls" and "ls \<noteq> []"
  shows "trie_entries (trie_of 0 ls) = nibble_entries ls" and "trie_wf (trie_of 0 ls) 64"
    and "trie_multi (trie_of 0 ls)" and "trie_keys (trie_of 0 ls) = unpack_nibbles ` leaf_keys ls"
  using builds_leaves [OF assms]
  by (simp_all add: builds_def trie_keys_def leaf_keys_def image_image split_beta)

lemma trie_of_leaf_paths:
  assumes "leaves_ok ls" and "ls \<noteq> []" and "inj_on (\<lambda>k. take 63 (unpack_nibbles k)) (leaf_keys ls)"
  shows "leaf_paths (trie_of 0 ls)"
  using trie_of_leaves [OF assms(1,2)] assms(3)
  by (intro differ_leaf_paths [where n = 64]) (auto simp: differ_early_def inj_on_def)

lemma store_nodes_get:
  "(\<And>x. x \<in> set ns \<Longrightarrow> K x = K e \<Longrightarrow> x = e) \<Longrightarrow> bt_wf m \<Longrightarrow> e \<in> set ns \<or> bt_get m (K e) = Some e \<Longrightarrow>
     bt_get (store_nodes K ns m) (K e) = Some e"
proof (induction ns arbitrary: m)
  case (Cons n ns)
  then show ?case
    by (auto simp: store_nodes_def btree.get_insert bt_wf_insert)
qed (simp add: store_nodes_def)

lemma bt_wf_store_nodes: "bt_wf m \<Longrightarrow> bt_wf (store_nodes K ns m)"
  by (induction ns arbitrary: m) (simp_all add: store_nodes_def bt_wf_insert)

lemma stores_built:
  assumes "inj_on K (node_set K R t)"
  shows "stores K R (memory_store (store_nodes K (trie_nodes K R t) [])) t"
  unfolding stores_def
proof
  fix e assume "e \<in> set (trie_nodes K R t)"
  then have "bt_get (store_nodes K (trie_nodes K R t) []) (K e) = Some e"
    using assms by (intro store_nodes_get) (auto simp: node_set_def inj_on_def)
  then show "load_hashed K (memory_store (store_nodes K (trie_nodes K R t) [])) (K e) = Ok e"
    by (simp add: load_hashed_def memory_store_def)
qed

lemma list_encoding_not_empty_string: "list_encoding e \<Longrightarrow> e \<noteq> [0x80]"
proof
  assume "list_encoding e" and e: "e = [0x80]"
  then obtain p where p: "[0x80] = rlp_prefix 192 (length p) @ p" "length p < 2 ^ 63"
    by (auto simp: list_encoding_def)
  moreover have "rlp_prefix 192 (length p) \<noteq> []"
    by (simp add: rlp_prefix_def)
  ultimately have "p = []" "rlp_prefix 192 (length p) = [0x80]"
    by (cases "rlp_prefix 192 (length p)"; simp)+
  then show False
    by (simp add: rlp_prefix_def)
qed

lemma root_not_empty:
  assumes "rlp_format R" and "leaves_ok ls" and "ls \<noteq> []" and "inj_on K (hashed_nodes K R ls)"
  shows "K (trie_enc K R (trie_of 0 ls)) \<noteq> EMPTY_ROOT_HASH K"
    and "inj_on K (node_set K R (trie_of 0 ls))"
proof -
  have "trie_enc K R (trie_of 0 ls) \<noteq> [0x80]"
    using trie_enc_list [OF assms(1) trie_of_leaves(2) [OF assms(2,3)]]
    by (intro list_encoding_not_empty_string) simp
  then show "K (trie_enc K R (trie_of 0 ls)) \<noteq> EMPTY_ROOT_HASH K"
    using assms(3,4) enc_in_node_set [of K R "trie_of 0 ls"]
    by (auto simp: EMPTY_ROOT_HASH_def hashed_nodes_def inj_on_def)
  show "inj_on K (node_set K R (trie_of 0 ls))"
    using assms(3,4) by (auto simp: hashed_nodes_def intro: inj_on_subset)
qed

lemma map_of_nibble_entries: "map_of (nibble_entries ls) (unpack_nibbles k) = bt_get ls k"
  by (induction ls) (auto simp: bt_get_def unpack_nibbles_inject)

section \<open>Walking a snapshot\<close>

lemma differ_early_weaken: "differ_early m n ks \<Longrightarrow> j \<le> m \<Longrightarrow> differ_early j n ks"
proof -
  assume a: "differ_early m n ks" and j: "j \<le> m"
  have "take (n - m) x = take (n - m) y" if "take (n - j) x = take (n - j) y" for x y :: bytes
    using arg_cong [OF that, of "take (n - m)"] j by (simp add: min_def split: if_splits)
  with a show ?thesis
    unfolding differ_early_def by blast
qed

lemma bt_insert_last: "\<forall>x \<in> set m. fst x < k \<Longrightarrow> bt_insert k v m = m @ [(k, v)]"
  by (induction k v m rule: bt_insert.induct) auto

lemma fold_bt_insert:
  "sorted_wrt (<) (map fst (m @ ls)) \<Longrightarrow> fold (\<lambda>(k, v). bt_insert k v) ls m = m @ ls"
proof (induction ls arbitrary: m)
  case (Cons x ls)
  then have "bt_insert (fst x) (snd x) m = m @ [x]"
    by (subst bt_insert_last) (auto simp: sorted_wrt_append)
  then show ?case
    using Cons by (simp add: split_beta)
qed simp

lemma key_of_unpack: "key_of (unpack_nibbles k) = k"
  using pack_unpack_nibbles [of k] by (simp add: pack_nibbles_def key_of_def SECURE_KEY_NIBBLES_def)

lemma put_nibble_entries: "bt_wf ls \<Longrightarrow> put_entries [] (nibble_entries ls) [] = ls"
  using fold_bt_insert [of "[]" ls, unfolded split_beta]
  by (simp add: put_entries_def fold_map comp_def split_beta key_of_unpack bt_wf_def)

lemma fresh_nibble_entries: "bt_wf ls \<Longrightarrow> fresh_entries [] (nibble_entries ls) []"
  using bt_wf_distinct [of ls] by (simp add: fresh_entries_def comp_def split_beta key_of_unpack)

lemma leaf_paths_subtries: "leaf_paths t \<Longrightarrow> s \<in> set (subtries t) \<Longrightarrow> leaf_paths s"
proof (induction t)
  case (TBranch ts)
  then obtain t where "Some t \<in> set ts" "s \<in> set (t # subtries t)"
    unfolding subtries_branch by blast
  with TBranch show ?case
    unfolding leaf_paths_branch by auto
qed auto

lemma node_set_subtries: "s \<in> set (subtries t) \<Longrightarrow> node_set K R s \<subseteq> node_set K R t"
proof (induction t)
  case (TExt p t)
  then show ?case
    using node_set_sub(1) by (metis set_ConsD subset_trans subtries.simps(2))
next
  case (TBranch ts)
  then obtain t where t: "Some t \<in> set ts" "s \<in> set (t # subtries t)"
    unfolding subtries_branch by blast
  then have "node_set K R s \<subseteq> node_set K R t"
    using TBranch.IH [OF t(1), of t] by auto
  then show ?case
    using node_set_sub(2) [OF t(1)] by (rule subset_trans)
qed simp

lemma distinct_encodings:
  assumes "rlp_format R" and "trie_wf t 64" and "trie_multi t" and "leaf_paths t"
    and "differ_early 32 64 (trie_keys t)" and "differ_late 32 64 (trie_keys t)"
    and "inj_on K (node_set K R t)"
  shows "distinct (map (trie_enc K R) (t # subtries t))"
  unfolding distinct_map
proof
  show "distinct (t # subtries t)"
    by (rule distinct_subtries [OF assms(2,3,5,6)])
  have ok: "(\<exists>n \<le> 64. trie_wf s n) \<and> leaf_paths s \<and> node_set K R s \<subseteq> node_set K R t"
    if "s \<in> set (t # subtries t)" for s
  proof (cases "s = t")
    case False
    then have "s \<in> set (subtries t)"
      using that by simp
    then show ?thesis
      using subtrie_at [OF assms(2,3,5)] leaf_paths_subtries [OF assms(4)] node_set_subtries
      by (metis diff_le_self)
  qed (use assms in auto)
  show "inj_on (trie_enc K R) (set (t # subtries t))"
  proof (rule inj_onI)
    fix x y
    assume xy: "x \<in> set (t # subtries t)" "y \<in> set (t # subtries t)" "trie_enc K R x = trie_enc K R y"
    obtain n m where "trie_wf x n" "n \<le> 64" "trie_wf y m" "m \<le> 64"
      using ok [OF xy(1)] ok [OF xy(2)] by blast
    moreover have "inj_on K (node_set K R x \<union> node_set K R y)"
      using ok [OF xy(1)] ok [OF xy(2)] by (intro inj_on_subset [OF assms(7)]) simp
    ultimately show "x = y"
      using trie_enc_inject [OF assms(1)] ok xy by blast
  qed
qed

lemma walk_snapshot:
  assumes "rlp_format R" and "trie_wf t 64" and "leaf_paths t"
    and "distinct (map (trie_enc K R) (t # subtries t))" and "inj_on K (node_set K R t)"
    and "stores K R store t" and "fresh_entries [] (trie_entries t) []"
  shows "\<exists>visited. walk_node K store (trie_enc K R t) [] [] {K (trie_enc K R t)} =
    Ok (put_entries [] (trie_entries t) [], visited)"
proof -
  have sub: "set (map (trie_enc K R) (t # subtries t)) \<subseteq> node_set K R t"
    using node_set_subtries enc_in_node_set by (auto, blast)
  let ?es = "filter (\<lambda>e. 32 \<le> length e) (map (trie_enc K R) (subtries t))"
  have "set ?es \<subseteq> node_set K R t" "distinct ?es"
    using sub assms(4) by auto
  then have "distinct (hash_refs K R (subtries t))"
    using assms(5) unfolding hash_refs_def distinct_map by (blast intro: inj_on_subset)
  moreover have "set (hash_refs K R (subtries t)) \<inter> {K (trie_enc K R t)} = {}"
    using assms(4,5) sub by (auto simp: hash_refs_def dest: inj_onD)
  moreover have "walks_node K R store [] t"
    using assms by (intro walks_node) simp_all
  ultimately show ?thesis
    using assms(7) unfolding walks_node_def by blast
qed

section \<open>A concrete snapshot\<close>

definition std_rlp :: rlp where
  "std_rlp = sample_rlp\<lparr>rlp_list_header := rlp_prefix 0xC0, rlp_bytes := rlp_string\<rparr>"

lemma std_rlp_format: "rlp_format std_rlp"
  by (simp add: rlp_format_def std_rlp_def)

definition high_key :: b256 where
  "high_key = 2 ^ 255 + 1"

definition sample_leaves :: leaf_map where
  "sample_leaves = [(0, [1]), (high_key, [2])]"

definition last_hash :: hash_fn where
  "last_hash e = (if length e = 1 then 0 else ucast (last e))"

lemma sample_nibbles:
  "unpack_nibbles 0 ! 0 = 0" "unpack_nibbles high_key ! 0 = 8"
  "unpack_nibbles 0 ! 63 = 0" "unpack_nibbles high_key ! 63 = 1"
  by (simp_all add: word_unat_eq_iff unpack_nibbles_nth high_key_def)

lemma sample_leaves_ok: "leaves_ok sample_leaves"
  by (simp add: leaves_ok_def bt_wf_def sample_leaves_def high_key_def)

lemma sample_common_prefix: "common_prefix (nibble_entries sample_leaves) 0 = 0"
proof -
  obtain as bs where "unpack_nibbles 0 = 0 # as" "unpack_nibbles high_key = 8 # bs"
    using Cons_nth_drop_Suc [of 0 "unpack_nibbles 0"] Cons_nth_drop_Suc [of 0 "unpack_nibbles high_key"]
    by (simp add: sample_nibbles) (metis drop0)
  then show ?thesis
    by (simp add: common_prefix_def sample_leaves_def)
qed

lemma last_hash_encode_list:
  assumes "rlp_string b \<noteq> []"
  shows "last_hash (encode_list std_rlp (xs @ [EBytes b])) = ucast (last (rlp_string b))"
  using assms by (auto simp: last_hash_def encode_list_def std_rlp_def Let_def rlp_prefix_def)

lemma sample_trie:
  "trie_of 0 sample_leaves = TBranch (Some (TLeaf (drop 1 (unpack_nibbles 0)) [1]) # replicate 7 None
    @ Some (TLeaf (drop 1 (unpack_nibbles high_key)) [2]) # replicate 7 None)"
proof -
  have leaf: "trie_of (0 + 1) [(k, v)] = TLeaf (drop 1 (unpack_nibbles k)) v" for k v
    by (subst trie_of.simps) simp
  have at: "at_nibble 0 (word_of_nat i) sample_leaves =
      (if i = 0 then [(0, [1])] else if i = 8 then [(high_key, [2])] else [])" if "i < 16" for i
    using that by (auto simp: sample_leaves_def sample_nibbles word_unat_eq_iff unat_of_nat)
  have kids: "map (\<lambda>i. if at_nibble 0 (word_of_nat i) sample_leaves = [] then None
      else Some (trie_of (0 + 1) (at_nibble 0 (word_of_nat i) sample_leaves))) [0..<16] =
    map (\<lambda>i. if i = 0 then Some (trie_of (0 + 1) [(0, [1])]) else if i = 8 then Some (trie_of (0 + 1) [(high_key, [2])]) else None) [0..<16]"
    by (rule map_cong [OF refl]) (simp only: at set_upt atLeastLessThan_iff split: if_splits, simp)
  show ?thesis
    by (subst trie_of.simps, unfold sample_common_prefix kids leaf)
      (simp add: Let_def sample_leaves_def numeral_eq_Suc)
qed

lemma sample_distinct: "inj_on last_hash (hashed_nodes last_hash std_rlp sample_leaves)"
proof -
  let ?t = "trie_of 0 sample_leaves" and ?K = last_hash
  let ?a = "TLeaf (drop 1 (unpack_nibbles 0)) [1]" and ?b = "TLeaf (drop 1 (unpack_nibbles high_key)) [2]"
  have nodes: "node_set ?K std_rlp ?t = {trie_enc ?K std_rlp ?a, trie_enc ?K std_rlp ?b, trie_enc ?K std_rlp ?t}"
    unfolding sample_trie node_set_def by (simp del: trie_enc.simps add: insert_commute)
  have "last_hash (trie_enc ?K std_rlp ?a) = 1" "last_hash (trie_enc ?K std_rlp ?b) = 2"
    using last_hash_encode_list [of "[1]" "[_]"] last_hash_encode_list [of "[2]" "[_]"]
    by (simp_all add: rlp_string_def)
  moreover have "last_hash (trie_enc ?K std_rlp ?t) = 128"
    unfolding sample_trie trie_enc.simps(3)
    by (subst last_hash_encode_list) (simp_all add: rlp_string_def rlp_prefix_def)
  moreover have "last_hash [0x80] = 0"
    by (simp add: last_hash_def)
  ultimately show ?thesis
    using nodes by (simp add: hashed_nodes_def sample_leaves_def inj_on_def)
qed

lemma sample_build: "\<exists>s. trie_build last_hash std_rlp sample_leaves = Ok s"
  using trie_build_leaves [OF sample_leaves_ok] by (simp add: sample_leaves_def)

lemma sample_keys:
  "inj_on (\<lambda>k. take 63 (unpack_nibbles k)) (leaf_keys sample_leaves)"
  "inj_on (\<lambda>k. take 32 (unpack_nibbles k)) (leaf_keys sample_leaves)"
  "inj_on (\<lambda>k. drop 32 (unpack_nibbles k)) (leaf_keys sample_leaves)"
proof -
  have "take n (unpack_nibbles high_key) \<noteq> take n (unpack_nibbles 0)" if "0 < n" for n
  proof
    assume "take n (unpack_nibbles high_key) = take n (unpack_nibbles 0)"
    from arg_cong [OF this, of "\<lambda>x. x ! 0"] show False
      using that by (simp add: sample_nibbles)
  qed
  moreover have "drop 32 (unpack_nibbles 0) \<noteq> drop 32 (unpack_nibbles high_key)"
  proof
    assume "drop 32 (unpack_nibbles 0) = drop 32 (unpack_nibbles high_key)"
    from arg_cong [OF this, of "\<lambda>x. x ! 31"] show False
      by (simp add: sample_nibbles)
  qed
  moreover note calculation(1) [THEN not_sym]
  ultimately show "inj_on (\<lambda>k. take 63 (unpack_nibbles k)) (leaf_keys sample_leaves)"
      "inj_on (\<lambda>k. take 32 (unpack_nibbles k)) (leaf_keys sample_leaves)"
      "inj_on (\<lambda>k. drop 32 (unpack_nibbles k)) (leaf_keys sample_leaves)"
    by (auto simp: inj_on_def leaf_keys_def sample_leaves_def)
qed

section \<open>Properties\<close>

text \<open>
  (C19) Building refines the abstract trie: on sorted leaves whose count fits a \<open>u32\<close>, \<open>trie_build\<close>
  never fails, the abstract trie has exactly the leaves as its entries, the root is the hash of its
  encoding, and the stored nodes are the encodings of its nodes under their hashes.
\<close>

theorem trie_build_refines:
  assumes "leaves_ok ls" and "ls \<noteq> []"
  shows "trie_build K R ls = Ok \<lparr>ts_root = K (trie_enc K R (trie_of 0 ls)),
      ts_nodes = store_nodes K (trie_nodes K R (trie_of 0 ls)) [], ts_leaves = ls\<rparr>
    \<and> trie_entries (trie_of 0 ls) = map (\<lambda>(k, v). (unpack_nibbles k, v)) ls
    \<and> trie_wf (trie_of 0 ls) 64"
  using trie_build_leaves [OF assms] trie_of_leaves [OF assms] by simp

theorem trie_build_refines_witness:
  "\<exists>s. trie_build last_hash std_rlp sample_leaves = Ok s \<and> ts_leaves s = sample_leaves
     \<and> trie_entries (trie_of 0 sample_leaves) = [(unpack_nibbles 0, [1]), (unpack_nibbles high_key, [2])]"
  using trie_build_refines [OF sample_leaves_ok, of last_hash std_rlp] by (simp add: sample_leaves_def)





text \<open>
  (C20) A root binds the leaves: the roots of two sets of leaves whose keys differ before their last
  nibble are equal exactly when the leaves are, when the hash function has no collision among the
  nodes of both.
\<close>

theorem state_root_binding:
  assumes "rlp_format R" and "leaves_ok ls" and "leaves_ok ms"
    and "inj_on (\<lambda>k. take 63 (unpack_nibbles k)) (leaf_keys ls)"
    and "inj_on (\<lambda>k. take 63 (unpack_nibbles k)) (leaf_keys ms)"
    and "inj_on K (hashed_nodes K R ls \<union> hashed_nodes K R ms)"
    and "trie_build K R ls = Ok s" and "trie_build K R ms = Ok s'"
  shows "ts_root s = ts_root s' \<longleftrightarrow> ls = ms"
proof
  assume eq: "ts_root s = ts_root s'"
  have inj: "inj_on K (hashed_nodes K R ls)" "inj_on K (hashed_nodes K R ms)"
    using assms(6) by (auto intro: inj_on_subset)
  have root: "ts_root s = (if ls = [] then EMPTY_ROOT_HASH K else K (trie_enc K R (trie_of 0 ls)))"
      "ts_root s' = (if ms = [] then EMPTY_ROOT_HASH K else K (trie_enc K R (trie_of 0 ms)))"
    using trie_build_leaves [OF assms(2), of K R] trie_build_leaves [OF assms(3), of K R] assms(7,8)
    by (auto simp: trie_build_def)
  show "ls = ms"
  proof (cases "ls = [] \<or> ms = []")
    case True
    then show ?thesis
      using root eq root_not_empty(1) [OF assms(1,2) _ inj(1)] root_not_empty(1) [OF assms(1,3) _ inj(2)]
      by (auto split: if_splits)
  next
    case False
    then have ne: "ls \<noteq> []" "ms \<noteq> []"
      by simp_all
    note t = trie_of_leaves [OF assms(2) ne(1)] and u = trie_of_leaves [OF assms(3) ne(2)]
    have nodes: "node_set K R (trie_of 0 ls) \<union> node_set K R (trie_of 0 ms) \<subseteq> hashed_nodes K R ls \<union> hashed_nodes K R ms"
      using ne by (auto simp: hashed_nodes_def)
    have "K (trie_enc K R (trie_of 0 ls)) = K (trie_enc K R (trie_of 0 ms))"
      using root eq ne by simp
    then have "trie_enc K R (trie_of 0 ls) = trie_enc K R (trie_of 0 ms)"
      using inj_onD [OF assms(6)] nodes enc_in_node_set by blast
    then have "trie_of 0 ls = trie_of 0 ms"
      using trie_enc_inject [OF assms(1) inj_on_subset [OF assms(6) nodes] t(2) _ _ u(2)]
        trie_of_leaf_paths [OF assms(2) ne(1) assms(4)] trie_of_leaf_paths [OF assms(3) ne(2) assms(5)] by simp
    then have "nibble_entries ls = nibble_entries ms"
      using t(1) u(1) by simp
    moreover have "inj nibble_entry"
      by (auto simp: inj_on_def unpack_nibbles_inject)
    ultimately show ?thesis
      by (simp add: inj_map_eq_map)
  qed
qed (use assms(7,8) in simp)

theorem state_root_binding_witness:
  "\<exists>s s'. trie_build last_hash std_rlp sample_leaves = Ok s \<and> trie_build last_hash std_rlp [] = Ok s'
     \<and> ts_root s \<noteq> ts_root s'"
proof -
  obtain s where s: "trie_build last_hash std_rlp sample_leaves = Ok s"
    using sample_build by blast
  obtain s' where s': "trie_build last_hash std_rlp [] = Ok s'"
    by (simp add: trie_build_def)
  have inj: "inj_on last_hash (hashed_nodes last_hash std_rlp sample_leaves \<union> hashed_nodes last_hash std_rlp [])"
    using sample_distinct by (simp add: hashed_nodes_def insert_absorb)
  have "leaves_ok []" "inj_on (\<lambda>k. take 63 (unpack_nibbles k)) (leaf_keys [])"
    by (simp_all add: leaves_ok_def leaf_keys_def)
  then have "ts_root s = ts_root s' \<longleftrightarrow> sample_leaves = []"
    by (rule state_root_binding [OF std_rlp_format sample_leaves_ok _ sample_keys(1) _ inj s s'])
  then show ?thesis
    using s s' by (auto simp: sample_leaves_def)
qed

section \<open>Keys that share all but their last nibble\<close>

definition adjacent_leaves :: leaf_map where
  "adjacent_leaves = [(0, [1]), (1, [2])]"

lemma adjacent_nibbles: "unpack_nibbles 0 = replicate 63 0 @ [0]" "unpack_nibbles 1 = replicate 63 0 @ [1]"
proof -
  have zero: "(1 :: nat) div 16 ^ Suc n = 0" for n
    by (intro div_less one_less_power) simp_all
  have "unpack_nibbles (of_bool b) ! i = (replicate 63 0 @ [of_bool b]) ! i" if "i < 64" for i b
  proof (cases "i < 63")
    case True
    then obtain n where "63 - i = Suc n"
      by (metis Suc_diff_Suc)
    then show ?thesis
      using True zero [of n] by (cases b) (simp_all add: word_unat_eq_iff unpack_nibbles_nth nth_append)
  next
    case False
    then have "i = 63" using that by simp
    then show ?thesis
      by (cases b) (simp_all add: word_unat_eq_iff unpack_nibbles_nth nth_append)
  qed
  from this [of _ False] this [of _ True] show "unpack_nibbles 0 = replicate 63 0 @ [0]" "unpack_nibbles 1 = replicate 63 0 @ [1]"
    by (auto intro!: nth_equalityI)
qed

lemma common_prefix_replicate:
  "common_prefix [(replicate n a @ [x], v), (replicate n a @ [y], w)] 0 = (if x = y then Suc n else n)"
  by (induction n) (auto simp: common_prefix_def)

lemma adjacent_trie:
  "trie_of 0 adjacent_leaves =
     TExt (replicate 63 0) (TBranch (Some (TLeaf [] [1]) # Some (TLeaf [] [2]) # replicate 14 None))"
proof -
  have leaf: "trie_of (63 + 1) [(k, v)] = TLeaf [] v" for k v
    by (subst trie_of.simps) simp
  have at: "at_nibble 63 (word_of_nat i) adjacent_leaves =
      (if i = 0 then [(0, [1])] else if i = 1 then [(1, [2])] else [])" if "i < 16" for i
    using that by (auto simp: adjacent_leaves_def adjacent_nibbles nth_append word_unat_eq_iff unat_of_nat)
  have kids: "map (\<lambda>i. if at_nibble 63 (word_of_nat i) adjacent_leaves = [] then None
      else Some (trie_of (63 + 1) (at_nibble 63 (word_of_nat i) adjacent_leaves))) [0..<16] =
    map (\<lambda>i. if i = 0 then Some (trie_of (63 + 1) [(0, [1])]) else if i = 1 then Some (trie_of (63 + 1) [(1, [2])]) else None) [0..<16]"
    by (rule map_cong [OF refl]) (simp only: at set_upt atLeastLessThan_iff split: if_splits, simp)
  have cp: "common_prefix (nibble_entries adjacent_leaves) 63 = 0"
    by (simp add: common_prefix_def adjacent_leaves_def adjacent_nibbles)
  have "trie_of 63 adjacent_leaves = TBranch (Some (TLeaf [] [1]) # Some (TLeaf [] [2]) # replicate 14 None)"
    by (subst trie_of.simps, unfold cp kids leaf) (simp add: Let_def adjacent_leaves_def numeral_eq_Suc)
  moreover have "common_prefix (nibble_entries adjacent_leaves) 0 = 63"
    by (simp add: adjacent_leaves_def adjacent_nibbles common_prefix_replicate)
  ultimately show ?thesis
    by (subst trie_of.simps) (simp add: Let_def adjacent_leaves_def adjacent_nibbles)
qed

lemma decode_empty_leaf:
  assumes "rlp_format R" and "length v < 56"
  shows "decode_node (trie_enc K R (TLeaf [] v)) = Err (InvalidPath ''empty leaf/extension path'')"
proof -
  obtain i j where "decode_rlp_list (trie_enc K R (TLeaf [] v)) = Ok [i, j]"
      "reads_as (EBytes (compact_encode [] True)) i" "reads_as (EBytes v) j"
    using decode_encode_list [OF assms(1) leaf_items_ok [of "[]" v]] assms(2)
    by (auto simp: list_all2_Cons1)
  then show ?thesis
    by (simp add: decode_node_def compact_decode_encode)
qed



end
