(* ===== verification/State_Account.thy ===== *)
theory State_Account
  imports State_Root
begin

text \<open>
  \<open>arbor-state/src/account.rs\<close> and \<open>overlay.rs\<close>: account and storage leaves, and the copy-on-write
  overlay a proposal executes on. Keccak-256 is \<open>K\<close> and the \<open>alloy_rlp\<close> encoders are \<open>R\<close>; the account
  reader is the crate's own. \<open>rlp_scalars\<close> states the documented encoding of integers and hashes.
\<close>

section \<open>Accounts\<close>

record Account =
  ac_nonce :: u64
  ac_balance :: u256
  ac_storage_root :: b256
  ac_code_hash :: b256

definition default_account :: "hash_fn \<Rightarrow> Account" where
  "default_account K =
     \<lparr>ac_nonce = 0, ac_balance = 0, ac_storage_root = EMPTY_ROOT_HASH K, ac_code_hash = KECCAK_EMPTY K\<rparr>"

definition account_is_empty :: "hash_fn \<Rightarrow> Account \<Rightarrow> bool" where
  "account_is_empty K a \<longleftrightarrow> ac_nonce a = 0 \<and> ac_balance a = 0 \<and> ac_code_hash a = KECCAK_EMPTY K"

definition encode_account :: "rlp \<Rightarrow> Account \<Rightarrow> bytes" where
  "encode_account R a =
     (let payload = rlp_u64 R (ac_nonce a) @ rlp_u256 R (ac_balance a)
        @ rlp_b256 R (ac_storage_root a) @ rlp_b256 R (ac_code_hash a) in
      rlp_list_header R (length payload) @ payload)"

definition reject_leading_zero :: "bytes \<Rightarrow> (unit, StateError) result" where
  "reject_leading_zero bs =
     (case bs of b # _ \<Rightarrow> if b = 0 then Err (MalformedRlp ''non-minimal integer'') else Ok () | [] \<Rightarrow> Ok ())"

definition decode_u64 :: "bytes \<Rightarrow> (u64, StateError) result" where
  "decode_u64 bs =
     bind_res (reject_leading_zero bs) (\<lambda>_.
     if length bs > 8 then Err (MalformedRlp ''u64 overflow'')
     else Ok (from_be_bytes (replicate (8 - length bs) 0 @ bs)))"

definition decode_u256 :: "bytes \<Rightarrow> (u256, StateError) result" where
  "decode_u256 bs =
     bind_res (reject_leading_zero bs) (\<lambda>_.
     if length bs > 32 then Err (MalformedRlp ''U256 overflow'') else Ok (from_be_bytes bs))"

text \<open>\<open>B256::try_from\<close> of a slice: its length must be 32.\<close>

definition b256_try_from :: "StateError \<Rightarrow> bytes \<Rightarrow> (b256, StateError) result" where
  "b256_try_from e bs = (if length bs \<noteq> 32 then Err e else Ok (from_be_bytes bs))"

definition decode_account :: "bytes \<Rightarrow> (Account, StateError) result" where
  "decode_account input =
     bind_res (decode_rlp_list input) (\<lambda>fields.
     if length fields \<noteq> 4 \<or> list_ex (\<lambda>field. item_kind field \<noteq> RlpBytes) fields
     then Err (MalformedRlp ''account field layout'')
     else
       bind_res (decode_u64 (item_payload (fields ! 0))) (\<lambda>nonce.
       bind_res (decode_u256 (item_payload (fields ! 1))) (\<lambda>balance.
       bind_res (b256_try_from (MalformedRlp ''account storage root'') (item_payload (fields ! 2))) (\<lambda>storage_root.
       bind_res (b256_try_from (MalformedRlp ''account code hash'') (item_payload (fields ! 3))) (\<lambda>code_hash.
       Ok \<lparr>ac_nonce = nonce, ac_balance = balance, ac_storage_root = storage_root, ac_code_hash = code_hash\<rparr>)))))"

definition storage_trie_value :: "rlp \<Rightarrow> u256 \<Rightarrow> bytes option" where
  "storage_trie_value R value = (if value = 0 then None else Some (rlp_u256 R value))"

definition decode_storage_trie_value :: "rlp \<Rightarrow> bytes \<Rightarrow> (u256, StateError) result" where
  "decode_storage_trie_value R input =
     bind_res (map_err (\<lambda>_. MalformedRlp ''storage value layout'') (rlp_u256_decode R input)) (\<lambda>(value, remaining).
     if remaining \<noteq> [] then Err (MalformedRlp ''storage value trailing bytes'')
     else if value = 0 then Err (MalformedRlp ''zero storage leaf'')
     else Ok value)"

section \<open>Overlay\<close>

record StateOverlay =
  ov_base :: leaf_map
  ov_writes :: "(b256, bytes option) btree_map"

definition overlay_new :: "leaf_map \<Rightarrow> StateOverlay" where
  "overlay_new base = \<lparr>ov_base = base, ov_writes = []\<rparr>"

definition overlay_from_snapshot :: "TrieSnapshot \<Rightarrow> StateOverlay" where
  "overlay_from_snapshot snapshot = overlay_new (ts_leaves snapshot)"

definition set_secure_leaf :: "b256 \<Rightarrow> bytes option \<Rightarrow> StateOverlay \<Rightarrow> StateOverlay" where
  "set_secure_leaf key value ov = ov\<lparr>ov_writes := bt_insert key value (ov_writes ov)\<rparr>"

definition set_account :: "hash_fn \<Rightarrow> rlp \<Rightarrow> address \<Rightarrow> Account \<Rightarrow> StateOverlay \<Rightarrow> StateOverlay" where
  "set_account K R a account ov =
     (let key = secure_account_key K a in
      if account_is_empty K account then ov\<lparr>ov_writes := bt_insert key None (ov_writes ov)\<rparr>
      else ov\<lparr>ov_writes := bt_insert key (Some (encode_account R account)) (ov_writes ov)\<rparr>)"

definition delete_account :: "hash_fn \<Rightarrow> address \<Rightarrow> StateOverlay \<Rightarrow> StateOverlay" where
  "delete_account K a ov = ov\<lparr>ov_writes := bt_insert (secure_account_key K a) None (ov_writes ov)\<rparr>"

definition changed_keys :: "StateOverlay \<Rightarrow> nat" where
  "changed_keys ov = length (ov_writes ov)"

fun apply_write :: "b256 \<times> bytes option \<Rightarrow> leaf_map \<Rightarrow> leaf_map" where
  "apply_write (key, Some value) base = bt_insert key value base"
| "apply_write (key, None) base = bt_remove key base"

definition overlay_commit :: "hash_fn \<Rightarrow> rlp \<Rightarrow> StateOverlay \<Rightarrow> (TrieSnapshot, StateError) result" where
  "overlay_commit K R ov = trie_build K R (fold apply_write (ov_writes ov) (ov_base ov))"

definition overlay_discard :: "StateOverlay \<Rightarrow> leaf_map" where
  "overlay_discard ov = ov_base ov"

definition secure_leaf :: "StateOverlay \<Rightarrow> b256 \<Rightarrow> bytes option" where
  "secure_leaf ov key =
     (case bt_get (ov_writes ov) key of
        Some (Some value) \<Rightarrow> Some value
      | Some None \<Rightarrow> None
      | None \<Rightarrow> bt_get (ov_base ov) key)"

definition overlay_account :: "hash_fn \<Rightarrow> StateOverlay \<Rightarrow> address \<Rightarrow> (Account option, StateError) result" where
  "overlay_account K ov a =
     (case secure_leaf ov (secure_account_key K a) of
        None \<Rightarrow> Ok None
      | Some bs \<Rightarrow> bind_res (decode_account bs) (\<lambda>account. Ok (Some account)))"

section \<open>Account leaves\<close>

text \<open>The documented \<open>alloy_rlp\<close> encoding of integers and of 32-byte hashes, and its exact reader.\<close>

definition rlp_scalars :: "rlp \<Rightarrow> bool" where
  "rlp_scalars R \<longleftrightarrow> rlp_format R
     \<and> (\<forall>n. rlp_u64 R n = rlp_string (be_min (unat n))) \<and> (\<forall>n. rlp_u256 R n = rlp_string (be_min (unat n)))
     \<and> (\<forall>h. rlp_b256 R h = rlp_string (to_be_bytes h))
     \<and> exact_reader (rlp_u256 R) (rlp_u256_decode R) (\<lambda>_. True)"

lemma be_to_nat_be_min: "be_to_nat (be_min n) = n"
proof (induction n rule: be_min.induct)
  case (1 n)
  then show ?case
    by (subst be_min.simps) (auto simp: unat_of_nat)
qed

lemma be_to_nat_zeros: "be_to_nat (replicate k 0 @ bs) = be_to_nat bs"
proof (induction bs rule: rev_induct)
  case Nil
  show ?case by (induction k) (simp_all add: replicate_append_same [symmetric])
next
  case (snoc b bs)
  then show ?case by (simp flip: append_assoc)
qed

lemma reject_leading_zero_be_min: "reject_leading_zero (be_min n) = Ok ()"
proof (cases "n = 0")
  case False
  then show ?thesis
    using hd_be_min [of n] be_min_nonempty [of n]
    by (cases "be_min n") (auto simp: reject_leading_zero_def)
qed (simp add: reject_leading_zero_def be_min.simps)

lemma decode_u64_be_min: "decode_u64 (be_min (unat n)) = Ok n"
  using length_be_min [of "unat n" 8] unat_less_exp [of n]
  by (simp add: decode_u64_def reject_leading_zero_be_min from_be_bytes_def be_to_nat_zeros be_to_nat_be_min)

lemma decode_u256_be_min: "decode_u256 (be_min (unat n)) = Ok n"
  using length_be_min [of "unat n" 32] unat_less_exp [of n]
  by (simp add: decode_u256_def reject_leading_zero_be_min from_be_bytes_def be_to_nat_be_min)

definition account_items :: "Account \<Rightarrow> EncodedItem list" where
  "account_items a = [EBytes (be_min (unat (ac_nonce a))), EBytes (be_min (unat (ac_balance a))),
     EBytes (to_be_bytes (ac_storage_root a)), EBytes (to_be_bytes (ac_code_hash a))]"

lemma account_items_ok:
  shows "\<forall>e \<in> set (account_items a). item_ok e" and "length (concat (map item_bytes (account_items a))) < 2 ^ 63"
proof -
  have small: "length (be_min (unat (ac_nonce a))) \<le> 8" "length (be_min (unat (ac_balance a))) \<le> 32"
    using length_be_min [of "unat (ac_nonce a)" 8] length_be_min [of "unat (ac_balance a)" 32]
      unat_less_exp [of "ac_nonce a"] unat_less_exp [of "ac_balance a"] by simp_all
  show "\<forall>e \<in> set (account_items a). item_ok e"
    using small by (auto simp: account_items_def)
  have bytes: "length (rlp_string v) \<le> 9 + length v" if "length v \<le> 32" for v
    using length_rlp_string [of v] that by simp
  show "length (concat (map item_bytes (account_items a))) < 2 ^ 63"
    using small bytes [of "be_min (unat (ac_nonce a))"] bytes [of "be_min (unat (ac_balance a))"]
      bytes [of "to_be_bytes (ac_storage_root a)"] bytes [of "to_be_bytes (ac_code_hash a)"]
    by (simp add: account_items_def)
qed

lemma decode_encode_account:
  assumes "rlp_scalars R"
  shows "decode_account (encode_account R a) = Ok a"
proof -
  have R: "rlp_format R"
    using assms by (simp add: rlp_scalars_def)
  have "encode_account R a = encode_list R (account_items a)"
    using assms account_items_ok(1) [of a]
    by (simp add: encode_account_def encode_list_def rlp_scalars_def rlp_format_def account_items_def)
  then obtain i j k l where "decode_rlp_list (encode_account R a) = Ok [i, j, k, l]"
      "reads_as (account_items a ! 0) i" "reads_as (account_items a ! 1) j"
      "reads_as (account_items a ! 2) k" "reads_as (account_items a ! 3) l"
    using decode_encode_list [OF R account_items_ok [of a]] by (auto simp: list_all2_Cons1 account_items_def)
  then show ?thesis
    by (simp add: decode_account_def decode_u64_be_min decode_u256_be_min b256_try_from_def account_items_def)
qed

section \<open>Canonicity of the reader\<close>

lemma be_min_be_to_nat: "bs = [] \<or> hd bs \<noteq> 0 \<Longrightarrow> be_min (be_to_nat bs) = bs"
proof (induction bs rule: rev_induct)
  case Nil
  show ?case by (simp add: be_min.simps)
next
  case (snoc b bs)
  have pos: "0 < be_to_nat bs * 256 + unat b"
  proof (cases "bs = []")
    case True
    then show ?thesis
      using snoc.prems by (simp add: unat_gt_0)
  next
    case False
    then have "be_min (be_to_nat bs) = bs"
      using snoc by (simp add: hd_append)
    then have "be_to_nat bs \<noteq> 0"
      using False by (metis be_min.simps)
    then show ?thesis by simp
  qed
  have "(be_to_nat bs * 256 + unat b) div 256 = be_to_nat bs" "(be_to_nat bs * 256 + unat b) mod 256 = unat b"
    using unat_byte_less [of b] by simp_all
  then show ?case
    using snoc pos be_to_nat_snoc [of "[]" b] by (subst be_min.simps) (cases "bs = []"; simp add: hd_append)
qed

lemma rlp_length_fold_Ok: "rlp_length_fold a bs = Ok n \<Longrightarrow> n = foldl (\<lambda>acc b. acc * 256 + unat b) a bs"
  by (induction bs arbitrary: a) (auto split: if_splits)

lemma decode_rlp_length_Ok:
  assumes "decode_rlp_length (b # bs) k = Ok n"
  shows "take k bs = be_min n" and "length (take k bs) = k" and "k \<le> 8"
proof -
  have a: "k \<le> length bs" "take k bs = [] \<or> hd (take k bs) \<noteq> 0" "k \<le> 8" "rlp_length_fold 0 (take k bs) = Ok n"
    using assms by (auto simp: decode_rlp_length_def Let_def split: if_splits)
  then have "n = be_to_nat (take k bs)"
    using rlp_length_fold_Ok by (auto simp: be_to_nat_def)
  then show "take k bs = be_min n" "length (take k bs) = k" "k \<le> 8"
    using a be_min_be_to_nat [of "take k bs"] by auto
qed

lemma rlp_layout_Ok:
  assumes "rlp_layout (b # bs) b = Ok (kind, offset, len)"
  shows "(offset = 0 \<and> kind = RlpBytes \<and> len = 1 \<and> b < 0x80) \<or>
    (0x80 \<le> b \<and> offset \<le> Suc (length bs)
      \<and> take offset (b # bs) = rlp_prefix (case kind of RlpBytes \<Rightarrow> 128 | RlpList \<Rightarrow> 192) len)"
proof -
  have b: "b = word_of_nat (unat b)"
    by simp
  have long: "b # take k bs = rlp_prefix base len"
    if "decode_rlp_length (b # bs) k = Ok len" "56 \<le> len" "unat b = base + 55 + k" for base k
    using decode_rlp_length_Ok [OF that(1)] that(2,3) by (simp add: rlp_prefix_def flip: that(3))
  have size: "k \<le> length bs" if "decode_rlp_length (b # bs) k = Ok len" for k
    using decode_rlp_length_Ok(2) [OF that] by simp
  show ?thesis
    using assms long [of "unat b - 183" 128] long [of "unat b - 247" 192] size
    by (auto simp: rlp_layout_unat word_less_nat_alt word_le_nat_alt rlp_prefix_def if_Err_exact
        split: if_splits)
qed

lemma decode_rlp_item_canonical:
  assumes "decode_rlp_item input = Ok i"
  shows "item_kind i = RlpBytes \<Longrightarrow> item_raw i = rlp_string (item_payload i)"
    and "item_kind i = RlpList \<Longrightarrow> item_raw i = rlp_prefix 192 (length (item_payload i)) @ item_payload i"
proof -
  obtain b bs kind offset len where input: "input = b # bs" and lay: "rlp_layout (b # bs) b = Ok (kind, offset, len)"
    and fits: "offset + len \<le> length input"
    and i: "i = \<lparr>item_raw = take (offset + len) input, item_payload = drop offset (take (offset + len) input), item_kind = kind\<rparr>"
    and min: "\<not> (b = 0x81 \<and> item_payload i \<noteq> [] \<and> hd (item_payload i) < 0x80)"
    using assms by (auto simp: decode_rlp_item_def Let_def if_Err_exact not_le split: list.splits if_splits)
  have split: "item_raw i = take offset input @ item_payload i" "length (item_payload i) = len"
    using fits by (auto simp: i drop_take take_add)
  consider "offset = 0" "kind = RlpBytes" "len = 1" "b < 0x80"
    | "0x80 \<le> b" "take offset input = rlp_prefix (case kind of RlpBytes \<Rightarrow> 128 | RlpList \<Rightarrow> 192) len"
    using rlp_layout_Ok [OF lay] input by blast
  then show "item_raw i = rlp_string (item_payload i)" if bytes: "item_kind i = RlpBytes"
  proof cases
    case 1
    then show ?thesis
      by (simp add: i input rlp_string_def)
  next
    case 2
    have "\<not> (len = 1 \<and> hd (item_payload i) < 0x80)"
    proof
      assume one: "len = 1 \<and> hd (item_payload i) < 0x80"
      then have "take offset input = [0x81]"
        using 2(2) bytes by (simp add: i rlp_prefix_def)
      then have "b = 0x81"
        by (cases offset) (simp_all add: input)
      then show False
        using min one split(2) by auto
    qed
    then show ?thesis
      using 2(2) bytes split by (auto simp: i rlp_string_def)
  qed
  show "item_raw i = rlp_prefix 192 (length (item_payload i)) @ item_payload i" if list: "item_kind i = RlpList"
    using rlp_layout_Ok [OF lay] list split by (auto simp: i input)
qed

lemma decode_rlp_items_canonical:
  "decode_rlp_items bs = Ok items \<Longrightarrow> \<forall>i \<in> set items. item_kind i = RlpBytes \<Longrightarrow>
     bs = concat (map (\<lambda>i. rlp_string (item_payload i)) items)"
proof (induction bs arbitrary: items rule: decode_rlp_items.induct)
  case (1 bs)
  show ?case
  proof (cases "bs = []")
    case True
    then show ?thesis
      using "1.prems"(1) by (subst (asm) decode_rlp_items.simps) simp
  next
    case False
    then obtain i rest where i: "decode_rlp_item bs = Ok i" and rest: "decode_rlp_items (drop (length (item_raw i)) bs) = Ok rest"
      and items: "items = i # rest"
      using "1.prems"(1) by (subst (asm) decode_rlp_items.simps) auto
    have "drop (length (item_raw i)) bs = concat (map (\<lambda>i. rlp_string (item_payload i)) rest)"
      using "1.IH" [OF False i rest] "1.prems"(2) items by simp
    moreover have "bs = item_raw i @ drop (length (item_raw i)) bs"
      using decode_rlp_item_Ok(2) [OF i] by auto
    moreover have "item_raw i = rlp_string (item_payload i)"
      using decode_rlp_item_canonical(1) [OF i] "1.prems"(2) items by simp
    ultimately show ?thesis
      by (simp add: items)
  qed
qed

lemma decode_rlp_list_canonical:
  assumes "decode_rlp_list bs = Ok items" and "\<forall>i \<in> set items. item_kind i = RlpBytes"
  shows "bs = (let p = concat (map (\<lambda>i. rlp_string (item_payload i)) items) in rlp_prefix 192 (length p) @ p)"
proof -
  obtain top where top: "decode_rlp_item bs = Ok top" "item_kind top = RlpList" "length (item_raw top) = length bs"
      and items: "decode_rlp_items (item_payload top) = Ok items"
    using assms(1) by (auto simp: decode_rlp_list_def if_Err_exact)
  have "item_raw top = bs"
    using decode_rlp_item_Ok(2) [OF top(1)] top(3) by auto
  then show ?thesis
    using decode_rlp_item_canonical(2) [OF top(1,2)] decode_rlp_items_canonical [OF items assms(2)] by (simp add: Let_def)
qed

lemma reject_leading_zero_Ok: "reject_leading_zero bs = Ok u \<longleftrightarrow> bs = [] \<or> hd bs \<noteq> 0"
  by (cases bs) (auto simp: reject_leading_zero_def)

lemma decode_u64_Ok: "decode_u64 bs = Ok n \<longleftrightarrow> bs = be_min (unat n)"
proof
  assume a: "decode_u64 bs = Ok n"
  then have b: "bs = [] \<or> hd bs \<noteq> 0" "length bs \<le> 8" "n = word_of_nat (be_to_nat bs)"
    by (auto simp: decode_u64_def reject_leading_zero_Ok if_Err_exact from_be_bytes_def be_to_nat_zeros)
  have "be_to_nat bs < 2 ^ 64"
    using be_to_nat_less [of bs] power_increasing [OF b(2), of "256 :: nat"] by simp
  then show "bs = be_min (unat n)"
    using b be_min_be_to_nat [of bs] by (simp add: unat_of_nat_fits)
qed (simp add: decode_u64_be_min)

lemma decode_u256_Ok: "decode_u256 bs = Ok n \<longleftrightarrow> bs = be_min (unat n)"
proof
  assume a: "decode_u256 bs = Ok n"
  then have b: "bs = [] \<or> hd bs \<noteq> 0" "length bs \<le> 32" "n = word_of_nat (be_to_nat bs)"
    by (auto simp: decode_u256_def reject_leading_zero_Ok if_Err_exact from_be_bytes_def)
  have "be_to_nat bs < 2 ^ 256"
    using be_to_nat_less [of bs] power_increasing [OF b(2), of "256 :: nat"] by simp
  then show "bs = be_min (unat n)"
    using b be_min_be_to_nat [of bs] by (simp add: unat_of_nat_fits)
qed (simp add: decode_u256_be_min)

lemma b256_try_from_Ok: "b256_try_from e bs = Ok h \<longleftrightarrow> bs = to_be_bytes h"
  by (auto simp: b256_try_from_def)

lemma four_items: "length xs = 4 \<Longrightarrow> xs = [xs ! 0, xs ! 1, xs ! 2, xs ! 3]"
  by (auto simp: numeral_eq_Suc length_Suc_conv)

lemma decode_account_exact:
  assumes "rlp_scalars R"
  shows "decode_account bs = Ok a \<longleftrightarrow> bs = encode_account R a"
proof
  assume "decode_account bs = Ok a"
  then obtain fs where fs: "decode_rlp_list bs = Ok fs" "length fs = 4" "\<forall>i \<in> set fs. item_kind i = RlpBytes"
      and f: "item_payload (fs ! 0) = be_min (unat (ac_nonce a))" "item_payload (fs ! 1) = be_min (unat (ac_balance a))"
        "item_payload (fs ! 2) = to_be_bytes (ac_storage_root a)" "item_payload (fs ! 3) = to_be_bytes (ac_code_hash a)"
    by (auto simp: decode_account_def if_Err_exact decode_u64_Ok decode_u256_Ok b256_try_from_Ok list_ex_iff)
  let ?p = "concat (map (\<lambda>i. rlp_string (item_payload i)) fs)"
  have "map (\<lambda>i. rlp_string (item_payload i)) fs = [rlp_u64 R (ac_nonce a), rlp_u256 R (ac_balance a),
      rlp_b256 R (ac_storage_root a), rlp_b256 R (ac_code_hash a)]"
    using assms f by (subst four_items [OF fs(2)]) (simp add: rlp_scalars_def)
  moreover have "bs = rlp_prefix 192 (length ?p) @ ?p"
    using decode_rlp_list_canonical [OF fs(1,3)] by (simp add: Let_def)
  moreover have "length ?p < 2 ^ 63"
    using account_items_ok(2) [of a] f by (subst four_items [OF fs(2)]) (simp add: account_items_def)
  ultimately show "bs = encode_account R a"
    using assms by (simp add: encode_account_def rlp_scalars_def rlp_format_def)
qed (simp add: decode_encode_account [OF assms])

lemma storage_value_exact:
  assumes "rlp_scalars R"
  shows "decode_storage_trie_value R bs = Ok v \<longleftrightarrow> storage_trie_value R v = Some bs"
  using assms exact_readerD [of "rlp_u256 R" "rlp_u256_decode R" "\<lambda>_. True" bs v "[]"]
  by (auto simp: decode_storage_trie_value_def storage_trie_value_def rlp_scalars_def if_Err_exact)

section \<open>The overlay as a map\<close>

text \<open>
  The contract of a copy-on-write overlay: a state with an invariant, a view of its keys, and an
  update that changes the view at one key only.
\<close>

locale key_overlay =
  fixes inv :: "'s \<Rightarrow> bool"
    and view :: "'s \<Rightarrow> 'k \<Rightarrow> 'v option"
    and put :: "'k \<Rightarrow> 'v option \<Rightarrow> 's \<Rightarrow> 's"
  assumes inv_put: "inv s \<Longrightarrow> inv (put k v s)"
    and view_put: "inv s \<Longrightarrow> view (put k v s) = (view s)(k := v)"
begin

definition puts :: "('k \<times> 'v option) list \<Rightarrow> 's \<Rightarrow> 's" where
  "puts ws s = fold (\<lambda>(k, v). put k v) ws s"

lemma inv_puts: "inv s \<Longrightarrow> inv (puts ws s)"
  by (induction ws arbitrary: s) (auto simp: puts_def inv_put)

lemma view_puts: "inv s \<Longrightarrow> view (puts ws s) = fold (\<lambda>(k, v) m. m(k := v)) ws (view s)"
  by (induction ws arbitrary: s) (auto simp: puts_def inv_put view_put)

lemma puts_commute: "inv s \<Longrightarrow> k \<noteq> j \<Longrightarrow> view (put k v (put j w s)) = view (put j w (put k v s))"
  by (simp add: inv_put view_put fun_upd_twist)

end

definition overlay_wf :: "StateOverlay \<Rightarrow> bool" where
  "overlay_wf ov \<longleftrightarrow> bt_wf (ov_base ov) \<and> bt_wf (ov_writes ov)"

interpretation overlay: key_overlay overlay_wf secure_leaf set_secure_leaf
  by unfold_locales
    (auto simp: overlay_wf_def set_secure_leaf_def secure_leaf_def bt_wf_insert btree.get_insert fun_eq_iff
      split: option.splits)

lemma set_account_leaf:
  "set_account K R a account ov =
     set_secure_leaf (secure_account_key K a) (if account_is_empty K account then None else Some (encode_account R account)) ov"
  by (simp add: set_account_def set_secure_leaf_def Let_def)

lemma delete_account_leaf: "delete_account K a ov = set_secure_leaf (secure_account_key K a) None ov"
  by (simp add: delete_account_def set_secure_leaf_def)

lemma apply_write_get:
  "bt_wf m \<Longrightarrow> bt_get (apply_write (k, w) m) j = (if j = k then w else bt_get m j)"
  by (cases w) (auto simp: btree.get_insert btree.get_remove)

lemma apply_write_wf: "bt_wf m \<Longrightarrow> bt_wf (apply_write (k, w) m)"
  by (cases w) (auto simp: bt_wf_insert btree.wf_remove)

lemma fold_apply_write:
  "bt_wf m \<Longrightarrow> distinct (map fst ws) \<Longrightarrow> bt_wf (fold apply_write ws m) \<and>
     bt_get (fold apply_write ws m) j = (case map_of ws j of Some w \<Rightarrow> w | None \<Rightarrow> bt_get m j)"
proof (induction ws arbitrary: m)
  case (Cons x ws)
  obtain k w where x: "x = (k, w)"
    by (cases x)
  have "map_of ws k = None"
    using Cons.prems(2) by (simp add: x map_of_eq_None_iff)
  then show ?case
    using Cons by (auto simp: x apply_write_get apply_write_wf split: option.splits)
qed simp

lemma overlay_commit_leaves:
  assumes "overlay_wf ov"
  shows "\<exists>leaves. overlay_commit K R ov = trie_build K R leaves \<and> bt_wf leaves \<and> bt_get leaves = secure_leaf ov"
proof (intro exI conjI)
  let ?m = "fold apply_write (ov_writes ov) (ov_base ov)"
  show "overlay_commit K R ov = trie_build K R ?m"
    by (simp add: overlay_commit_def)
  have "distinct (map fst (ov_writes ov))" "bt_wf (ov_base ov)"
    using assms bt_wf_distinct by (auto simp: overlay_wf_def)
  then show "bt_wf ?m" "bt_get ?m = secure_leaf ov"
    using fold_apply_write [of "ov_base ov" "ov_writes ov"]
    by (auto simp: fun_eq_iff secure_leaf_def bt_get_def [of "ov_writes ov"] split: option.splits)
qed

section \<open>An instance of the encoding\<close>

definition u256_read :: "bytes \<Rightarrow> (u256 \<times> bytes, string) result" where
  "u256_read bs =
     bind_res (map_err (\<lambda>_. ''layout'') (decode_rlp_item bs)) (\<lambda>i.
     if item_kind i \<noteq> RlpBytes then Err ''list''
     else bind_res (map_err (\<lambda>_. ''integer'') (decode_u256 (item_payload i))) (\<lambda>v.
       Ok (v, drop (length (item_raw i)) bs)))"

lemma u256_read_exact: "exact_reader (\<lambda>n. rlp_string (be_min (unat n))) u256_read (\<lambda>_. True)"
proof (rule exact_readerI)
  fix bs r and x :: u256
  show "u256_read (rlp_string (be_min (unat x)) @ r) = Ok (x, r)"
  proof -
    have "length (be_min (unat x)) \<le> 32"
      using length_be_min [of "unat x" 32] unat_less_exp [of x] by simp
    then show ?thesis
      using decode_rlp_item_string [of "be_min (unat x)" r]
      by (simp add: u256_read_def decode_u256_be_min)
  qed
  show "True \<and> bs = rlp_string (be_min (unat x)) @ r" if read: "u256_read bs = Ok (x, r)"
  proof -
    obtain i where i: "decode_rlp_item bs = Ok i" "item_kind i = RlpBytes" "item_payload i = be_min (unat x)"
        "r = drop (length (item_raw i)) bs"
      using read by (auto simp: u256_read_def if_Err_exact decode_u256_Ok)
    then show ?thesis
      using decode_rlp_item_canonical(1) [OF i(1,2)] decode_rlp_item_Ok(2) [OF i(1)] by auto
  qed
qed

definition scalar_rlp :: rlp where
  "scalar_rlp = std_rlp\<lparr>rlp_u64 := \<lambda>n. rlp_string (be_min (unat n)), rlp_u256 := \<lambda>n. rlp_string (be_min (unat n)),
     rlp_u256_decode := u256_read, rlp_b256 := \<lambda>h. rlp_string (to_be_bytes h)\<rparr>"

lemma scalar_rlp_ok: "rlp_scalars scalar_rlp"
  using std_rlp_format u256_read_exact by (simp add: rlp_scalars_def scalar_rlp_def rlp_format_def)

section \<open>Properties\<close>

text \<open>
  (C24) The reader of account leaves accepts exactly the encodings the writer produces, for every
  account, and the reader of storage leaves exactly those of the non-zero words: a leaf has one
  encoding only.
\<close>

theorem account_leaf_canonical:
  assumes "rlp_scalars R"
  shows "(decode_account bs = Ok a \<longleftrightarrow> bs = encode_account R a)
    \<and> (decode_storage_trie_value R bs = Ok v \<longleftrightarrow> storage_trie_value R v = Some bs)"
  using decode_account_exact [OF assms] storage_value_exact [OF assms] by simp

theorem account_leaf_canonical_witness:
  "rlp_scalars scalar_rlp
    \<and> decode_account (encode_account scalar_rlp (default_account last_hash)) = Ok (default_account last_hash)
    \<and> decode_storage_trie_value scalar_rlp (rlp_string [5]) = Ok 5"
proof (intro conjI)
  show "rlp_scalars scalar_rlp"
    by (rule scalar_rlp_ok)
  show "decode_account (encode_account scalar_rlp (default_account last_hash)) = Ok (default_account last_hash)"
    using account_leaf_canonical [OF scalar_rlp_ok] by blast
  have "storage_trie_value scalar_rlp 5 = Some (rlp_string [5])"
    by (simp add: storage_trie_value_def scalar_rlp_def be_min.simps)
  then show "decode_storage_trie_value scalar_rlp (rlp_string [5]) = Ok 5"
    using account_leaf_canonical [OF scalar_rlp_ok] by blast
qed

text \<open>
  (C25) The overlay refines a map from keys to leaves: after any sequence of writes and deletions
  the committed snapshot is built from the base leaves updated in the order of the writes, the base
  leaves are untouched, and an account just written is read back, an empty one as absent.
\<close>

theorem overlay_refines_map:
  assumes "overlay_wf ov"
  shows "\<exists>leaves. overlay_commit K R (fold (\<lambda>(k, v). set_secure_leaf k v) ws ov) = trie_build K R leaves
    \<and> bt_wf leaves \<and> bt_get leaves = fold (\<lambda>(k, v) m. m(k := v)) ws (secure_leaf ov)
    \<and> overlay_discard (fold (\<lambda>(k, v). set_secure_leaf k v) ws ov) = ov_base ov
    \<and> (rlp_scalars R \<longrightarrow> overlay_account K (set_account K R a account ov) a =
        Ok (if account_is_empty K account then None else Some account))"
proof -
  have "overlay_wf (overlay.puts ws ov)" "secure_leaf (overlay.puts ws ov) = fold (\<lambda>(k, v) m. m(k := v)) ws (secure_leaf ov)"
    by (simp_all add: overlay.inv_puts overlay.view_puts assms)
  then obtain leaves where "overlay_commit K R (overlay.puts ws ov) = trie_build K R leaves" "bt_wf leaves"
      "bt_get leaves = fold (\<lambda>(k, v) m. m(k := v)) ws (secure_leaf ov)"
    using overlay_commit_leaves [of "overlay.puts ws ov"] by metis
  moreover have "ov_base (overlay.puts ws ov) = ov_base ov"
    by (induction ws arbitrary: ov) (auto simp: overlay.puts_def set_secure_leaf_def)
  moreover have "overlay_account K (set_account K R a account ov) a =
      Ok (if account_is_empty K account then None else Some account)" if "rlp_scalars R"
    using decode_encode_account [OF that]
    by (simp add: overlay_account_def set_account_leaf overlay.view_put [OF assms])
  ultimately show ?thesis
    unfolding overlay.puts_def overlay_discard_def by blast
qed

theorem overlay_refines_map_witness:
  "overlay_wf (overlay_new []) \<and> rlp_scalars scalar_rlp
    \<and> overlay_account last_hash (set_account last_hash scalar_rlp 7 ((default_account last_hash)\<lparr>ac_nonce := 1\<rparr>)
        (overlay_new [])) 7 = Ok (Some ((default_account last_hash)\<lparr>ac_nonce := 1\<rparr>))
    \<and> (\<exists>leaves. overlay_commit last_hash scalar_rlp
        (set_secure_leaf 1 None (set_secure_leaf 2 (Some [9]) (set_secure_leaf 1 (Some [8]) (overlay_new [])))) =
          trie_build last_hash scalar_rlp leaves \<and> bt_wf leaves \<and> bt_get leaves = [2 \<mapsto> [9]])"
proof -
  have wf: "overlay_wf (overlay_new [])"
    by (simp add: overlay_wf_def overlay_new_def bt_wf_def)
  have start: "secure_leaf (overlay_new []) = Map.empty"
    by (simp add: fun_eq_iff secure_leaf_def overlay_new_def bt_get_def)
  show ?thesis
    using wf scalar_rlp_ok overlay_refines_map [OF wf, of last_hash scalar_rlp "[(1, Some [8]), (2, Some [9]), (1, None)]"
      7 "(default_account last_hash)\<lparr>ac_nonce := 1\<rparr>"]
    by (auto simp: start account_is_empty_def fun_upd_def fun_eq_iff)
qed

end
