(* ===== verification/Execution_State.thy ===== *)
theory Execution_State
  imports State_Account
begin

text \<open>
  \<open>arbor-evm/src/spec.rs\<close>, \<open>state.rs\<close> and the error type of \<open>lib.rs\<close>: the execution rules, the
  environment of a domain block, and the authenticated state a transaction runs on. The values
  \<open>revm\<close> returns are records of what the adapter reads of them; its change set is a hash map, so it is
  a list in any order. On an error the callers drop the state they were changing (the executor works
  on a copy), so an \<open>Err\<close> carries no state.
\<close>

section \<open>Errors\<close>

text \<open>A text made by \<open>to_string\<close> or \<open>format!\<close> is represented by the value it prints.\<close>

datatype EvmError =
    UnsupportedProtocolRevision u32
  | InvalidEnvironment string
  | EvmStateError EvmText
  | EvmInvalidTransaction EvmText
  | EvmInvalidHeader EvmText
  | EvmSystem EvmText
and EvmText =
    Text string
  | OfStateError StateError
  | OfEvmError EvmError
  | MissingContractCode b256

abbreviation of_state :: "('a, StateError) result \<Rightarrow> ('a, EvmError) result" where
  "of_state \<equiv> map_err (\<lambda>e. EvmStateError (OfStateError e))"

section \<open>Protocol rules and block environment\<close>

datatype EvmRevision = Shanghai

fun evm_revision_u8 :: "EvmRevision \<Rightarrow> u8" where
  "evm_revision_u8 Shanghai = 1"

record ProtocolSpec =
  ps_protocol_revision :: u32
  ps_evm_revision :: EvmRevision
  ps_max_code_bytes :: nat
  ps_max_initcode_bytes :: nat
  ps_max_logs_per_transaction :: nat

definition PROTOCOL_SPEC_V1 :: ProtocolSpec where
  "PROTOCOL_SPEC_V1 = \<lparr>ps_protocol_revision = 1, ps_evm_revision = Shanghai, ps_max_code_bytes = 24576,
     ps_max_initcode_bytes = 49152, ps_max_logs_per_transaction = 1024\<rparr>"

definition protocol_spec_resolve :: "u32 \<Rightarrow> (ProtocolSpec, EvmError) result" where
  "protocol_spec_resolve revision =
     (if revision = 1 then Ok PROTOCOL_SPEC_V1 else Err (UnsupportedProtocolRevision revision))"

record DomainEnv =
  de_chain_id :: u64
  de_block_number :: u64
  de_timestamp :: u64
  de_beneficiary :: address
  de_gas_limit :: u64
  de_base_fee_per_gas :: u128
  de_prevrandao :: b256

definition domain_env_validate :: "DomainEnv \<Rightarrow> (unit, EvmError) result" where
  "domain_env_validate env =
     (if de_chain_id env = 0 then Err (InvalidEnvironment ''chain ID must be non-zero'')
      else if de_gas_limit env = 0 \<or> de_gas_limit env > 30000000
      then Err (InvalidEnvironment ''domain gas limit must be in 1..=30,000,000'')
      else if de_base_fee_per_gas env > ucast (- 1 :: u64)
      then Err (InvalidEnvironment ''base fee exceeds the fixed revm block field'')
      else Ok ())"

section \<open>Authenticated execution state\<close>

record GenesisAccount =
  ga_nonce :: u64
  ga_balance :: u256
  ga_code :: bytes
  ga_storage :: "(u256, u256) btree_map"

definition default_genesis_account :: GenesisAccount where
  "default_genesis_account = \<lparr>ga_nonce = 0, ga_balance = 0, ga_code = [], ga_storage = []\<rparr>"

record ExecutionState =
  es_accounts :: TrieSnapshot
  es_trie_nodes :: node_map
  es_contract_code :: "(b256, bytes) btree_map"
  es_block_hashes :: "(u64, b256) btree_map"

definition build_storage_snapshot :: "hash_fn \<Rightarrow> rlp \<Rightarrow> (u256, u256) btree_map \<Rightarrow> (TrieSnapshot, EvmError) result" where
  "build_storage_snapshot K R storage =
     of_state (trie_build K R (bt_extend [] (List.map_filter (\<lambda>(slot, value).
       map_option (\<lambda>v. (secure_storage_key K slot, v)) (storage_trie_value R value)) storage)))"

text \<open>One allocation of \<open>from_genesis\<close>: the account leaves, the trie nodes and the code so far.\<close>

definition genesis_account :: "hash_fn \<Rightarrow> rlp \<Rightarrow> address \<times> GenesisAccount
    \<Rightarrow> leaf_map \<times> node_map \<times> (b256, bytes) btree_map
    \<Rightarrow> (leaf_map \<times> node_map \<times> (b256, bytes) btree_map, EvmError) result" where
  "genesis_account K R = (\<lambda>(a, allocation) (leaves, nodes, code).
     bind_res (build_storage_snapshot K R (ga_storage allocation)) (\<lambda>storage.
     let (code_hash, code) =
           (if ga_code allocation = [] then (KECCAK_EMPTY K, code)
            else (K (ga_code allocation), bt_insert (K (ga_code allocation)) (ga_code allocation) code));
         account = \<lparr>ac_nonce = ga_nonce allocation, ac_balance = ga_balance allocation,
           ac_storage_root = ts_root storage, ac_code_hash = code_hash\<rparr> in
     Ok (if account_is_empty K account then leaves
         else bt_insert (secure_account_key K a) (encode_account R account) leaves,
         bt_extend nodes (ts_nodes storage), code)))"

definition from_genesis :: "hash_fn \<Rightarrow> rlp \<Rightarrow> (address, GenesisAccount) btree_map
    \<Rightarrow> (ExecutionState, EvmError) result" where
  "from_genesis K R allocations =
     bind_res (fold_res (genesis_account K R) allocations ([], [], [])) (\<lambda>(leaves, nodes, code).
     bind_res (of_state (trie_build K R leaves)) (\<lambda>accounts.
     let nodes = bt_extend nodes (ts_nodes accounts) in
     bind_res (of_state (extend_nodes K nodes accounts)) (\<lambda>accounts.
     Ok \<lparr>es_accounts = accounts, es_trie_nodes = nodes, es_contract_code = code, es_block_hashes = []\<rparr>)))"

text \<open>One account of \<open>from_persisted\<close>: its storage trie and its contract code.\<close>

definition persisted_storage :: "hash_fn \<Rightarrow> rlp \<Rightarrow> node_store \<Rightarrow> Account \<Rightarrow> node_map \<Rightarrow> (node_map, EvmError) result" where
  "persisted_storage K R store account nodes =
     (if ac_storage_root account = EMPTY_ROOT_HASH K then Ok nodes
      else
        bind_res (of_state (collect_leaves K (ac_storage_root account) store)) (\<lambda>leaves.
        bind_res (of_state (trie_build K R leaves)) (\<lambda>storage.
        if ts_root storage \<noteq> ac_storage_root account
        then Err (EvmStateError (Text ''persisted storage root mismatch''))
        else Ok (bt_extend nodes (ts_nodes storage)))))"

definition persisted_code :: "hash_fn \<Rightarrow> (b256 \<Rightarrow> (bytes option, EvmError) result) \<Rightarrow> Account
    \<Rightarrow> (b256, bytes) btree_map \<Rightarrow> ((b256, bytes) btree_map, EvmError) result" where
  "persisted_code K load_code account code =
     (if ac_code_hash account = KECCAK_EMPTY K then Ok code
      else
        bind_res (load_code (ac_code_hash account)) (\<lambda>loaded.
        bind_res (ok_or (EvmStateError (MissingContractCode (ac_code_hash account))) loaded) (\<lambda>body.
        if K body \<noteq> ac_code_hash account then Err (EvmStateError (Text ''contract code hash mismatch''))
        else Ok (bt_insert (ac_code_hash account) body code))))"

definition persisted_account :: "hash_fn \<Rightarrow> rlp \<Rightarrow> node_store \<Rightarrow> (b256 \<Rightarrow> (bytes option, EvmError) result)
    \<Rightarrow> bytes \<Rightarrow> node_map \<times> (b256, bytes) btree_map
    \<Rightarrow> (node_map \<times> (b256, bytes) btree_map, EvmError) result" where
  "persisted_account K R store load_code encoded = (\<lambda>(nodes, code).
     bind_res (of_state (decode_account encoded)) (\<lambda>account.
     bind_res (persisted_storage K R store account nodes) (\<lambda>nodes.
     bind_res (persisted_code K load_code account code) (\<lambda>code.
     Ok (nodes, code)))))"

definition from_persisted :: "hash_fn \<Rightarrow> rlp \<Rightarrow> b256 \<Rightarrow> node_store \<Rightarrow> (b256 \<Rightarrow> (bytes option, EvmError) result)
    \<Rightarrow> (ExecutionState, EvmError) result" where
  "from_persisted K R root store load_code =
     bind_res (of_state (collect_leaves K root store)) (\<lambda>leaves.
     bind_res (of_state (trie_build K R leaves)) (\<lambda>accounts.
     if ts_root accounts \<noteq> root then Err (EvmStateError (Text ''persisted account root mismatch''))
     else
       bind_res (fold_res (persisted_account K R store load_code) (bt_values leaves) (ts_nodes accounts, []))
         (\<lambda>(nodes, code).
       bind_res (of_state (extend_nodes K nodes accounts)) (\<lambda>accounts.
       Ok \<lparr>es_accounts = accounts, es_trie_nodes = nodes, es_contract_code = code, es_block_hashes = []\<rparr>))))"

definition state_root :: "ExecutionState \<Rightarrow> b256" where
  "state_root st = ts_root (es_accounts st)"

definition insert_block_hash :: "u64 \<Rightarrow> b256 \<Rightarrow> ExecutionState \<Rightarrow> ExecutionState" where
  "insert_block_hash number hash st = st\<lparr>es_block_hashes := bt_insert number hash (es_block_hashes st)\<rparr>"

definition es_account :: "hash_fn \<Rightarrow> ExecutionState \<Rightarrow> address \<Rightarrow> (Account option, EvmError) result" where
  "es_account K st a =
     (case bt_get (ts_leaves (es_accounts st)) (secure_account_key K a) of
        None \<Rightarrow> Ok None
      | Some bs \<Rightarrow> bind_res (of_state (decode_account bs)) (\<lambda>account. Ok (Some account)))"

definition es_storage :: "hash_fn \<Rightarrow> rlp \<Rightarrow> ExecutionState \<Rightarrow> address \<Rightarrow> u256 \<Rightarrow> (u256, EvmError) result" where
  "es_storage K R st a index =
     bind_res (es_account K st a) (\<lambda>found.
     case found of
       None \<Rightarrow> Ok 0
     | Some account \<Rightarrow>
         if ac_storage_root account = EMPTY_ROOT_HASH K then Ok 0
         else
           bind_res (of_state (collect_leaves K (ac_storage_root account) (memory_store (es_trie_nodes st)))) (\<lambda>leaves.
           case bt_get leaves (secure_storage_key K index) of
             None \<Rightarrow> Ok 0
           | Some value \<Rightarrow> of_state (decode_storage_trie_value R value)))"

section \<open>Applying the changes of one transaction\<close>

record AccountInfo =
  ai_balance :: u256
  ai_nonce :: u64
  ai_code_hash :: b256
  ai_code :: "bytes option"

record EvmAccount =
  ea_info :: AccountInfo
  ea_touched :: bool
  ea_selfdestructed :: bool
  ea_created :: bool
  ea_changed_slots :: "(u256 \<times> u256) list"

definition apply_slot :: "hash_fn \<Rightarrow> rlp \<Rightarrow> u256 \<times> u256 \<Rightarrow> leaf_map \<Rightarrow> leaf_map" where
  "apply_slot K R = (\<lambda>(slot, present) leaves.
     case storage_trie_value R present of
       Some value \<Rightarrow> bt_insert (secure_storage_key K slot) value leaves
     | None \<Rightarrow> bt_remove (secure_storage_key K slot) leaves)"

definition changed_storage :: "hash_fn \<Rightarrow> rlp \<Rightarrow> ExecutionState \<Rightarrow> address \<Rightarrow> EvmAccount \<Rightarrow> (TrieSnapshot, EvmError) result" where
  "changed_storage K R st a changed =
     bind_res (es_account K st a) (\<lambda>found.
     let old = (case found of Some account \<Rightarrow> account | None \<Rightarrow> default_account K) in
     bind_res (if ea_created changed \<or> ac_storage_root old = EMPTY_ROOT_HASH K then Ok []
       else of_state (collect_leaves K (ac_storage_root old) (memory_store (es_trie_nodes st)))) (\<lambda>leaves.
     of_state (trie_build K R (fold (apply_slot K R) (ea_changed_slots changed) leaves))))"

definition changed_code :: "hash_fn \<Rightarrow> AccountInfo \<Rightarrow> (b256, bytes) btree_map \<Rightarrow> ((b256, bytes) btree_map, EvmError) result" where
  "changed_code K info code =
     (case ai_code info of
        Some body \<Rightarrow>
          if ai_code_hash info \<noteq> KECCAK_EMPTY K \<and> body \<noteq> [] then
            if K body \<noteq> ai_code_hash info then Err (EvmStateError (Text ''revm returned mismatched code hash''))
            else Ok (bt_insert (ai_code_hash info) body code)
          else Ok code
      | None \<Rightarrow> Ok code)"

definition apply_change :: "hash_fn \<Rightarrow> rlp \<Rightarrow> ExecutionState \<Rightarrow> address \<times> EvmAccount
    \<Rightarrow> StateOverlay \<times> node_map \<times> (b256, bytes) btree_map
    \<Rightarrow> (StateOverlay \<times> node_map \<times> (b256, bytes) btree_map, EvmError) result" where
  "apply_change K R st = (\<lambda>(a, changed) (ov, added, code).
     if \<not> ea_touched changed then Ok (ov, added, code)
     else if ea_selfdestructed changed then Ok (delete_account K a ov, added, code)
     else
       bind_res (changed_storage K R st a changed) (\<lambda>storage.
       bind_res (changed_code K (ea_info changed) code) (\<lambda>code.
       Ok (set_account K R a \<lparr>ac_nonce = ai_nonce (ea_info changed), ac_balance = ai_balance (ea_info changed),
             ac_storage_root = ts_root storage, ac_code_hash = ai_code_hash (ea_info changed)\<rparr> ov,
           bt_extend added (ts_nodes storage), code))))"

definition reach_storage :: "hash_fn \<Rightarrow> rlp \<Rightarrow> node_store \<Rightarrow> bytes \<Rightarrow> node_map \<Rightarrow> (node_map, EvmError) result" where
  "reach_storage K R store encoded reachable =
     bind_res (of_state (decode_account encoded)) (\<lambda>account.
     if ac_storage_root account = EMPTY_ROOT_HASH K then Ok reachable
     else
       bind_res (of_state (collect_leaves K (ac_storage_root account) store)) (\<lambda>leaves.
       bind_res (of_state (trie_build K R leaves)) (\<lambda>storage.
       Ok (bt_extend reachable (ts_nodes storage)))))"

definition apply_changes :: "hash_fn \<Rightarrow> rlp \<Rightarrow> (address \<times> EvmAccount) list \<Rightarrow> ExecutionState
    \<Rightarrow> (ExecutionState, EvmError) result" where
  "apply_changes K R changes st =
     bind_res (fold_res (apply_change K R st) changes
       (overlay_from_snapshot (es_accounts st), [], es_contract_code st)) (\<lambda>(ov, added, code).
     bind_res (of_state (overlay_commit K R ov)) (\<lambda>accounts.
     let candidate = bt_extend (bt_extend (es_trie_nodes st) added) (ts_nodes accounts) in
     bind_res (fold_res (reach_storage K R (memory_store candidate)) (bt_values (ts_leaves accounts)) (ts_nodes accounts))
       (\<lambda>reachable.
     bind_res (of_state (extend_nodes K reachable accounts)) (\<lambda>accounts.
     Ok (st\<lparr>es_accounts := accounts, es_trie_nodes := reachable, es_contract_code := code\<rparr>)))))"

section \<open>Database interface\<close>

text \<open>\<open>Bytecode::new_raw_checked\<close> of \<open>revm\<close> is the parameter \<open>raw_checked\<close>; the empty bytecode is \<open>[]\<close>.\<close>

definition db_basic :: "hash_fn \<Rightarrow> ExecutionState \<Rightarrow> address \<Rightarrow> (AccountInfo option, EvmText) result" where
  "db_basic K st a =
     map_err OfEvmError (bind_res (es_account K st a) (\<lambda>found.
       Ok (map_option (\<lambda>account. \<lparr>ai_balance = ac_balance account, ai_nonce = ac_nonce account,
         ai_code_hash = ac_code_hash account,
         ai_code = (if ac_code_hash account = KECCAK_EMPTY K then Some [] else None)\<rparr>) found)))"

definition db_code_by_hash :: "hash_fn \<Rightarrow> (bytes \<Rightarrow> (bytes, EvmText) result) \<Rightarrow> ExecutionState \<Rightarrow> b256
    \<Rightarrow> (bytes, EvmText) result" where
  "db_code_by_hash K raw_checked st hash =
     (if hash = KECCAK_EMPTY K then Ok []
      else bind_res (ok_or (MissingContractCode hash) (bt_get (es_contract_code st) hash)) raw_checked)"

definition db_storage :: "hash_fn \<Rightarrow> rlp \<Rightarrow> ExecutionState \<Rightarrow> address \<Rightarrow> u256 \<Rightarrow> (u256, EvmText) result" where
  "db_storage K R st a index = map_err OfEvmError (es_storage K R st a index)"

definition db_block_hash :: "ExecutionState \<Rightarrow> u64 \<Rightarrow> (b256, EvmText) result" where
  "db_block_hash st number = Ok (case bt_get (es_block_hashes st) number of Some hash \<Rightarrow> hash | None \<Rightarrow> 0)"

end
