(* ===== verification/Registry_Precompile.thy ===== *)
theory Registry_Precompile
  imports Chain_Registry Execution_State
begin

text \<open>
  \<open>arbor-evm/src/execute.rs\<close>: the native contracts \<open>protocolInfo\<close> and \<open>ChainRegistry\<close> and the
  execution of one transaction. The journal of \<open>revm\<close> and its \<open>transact\<close> are parameters. A journal
  operation returns \<open>None\<close> for a database error; a fatal error of a native contract aborts the
  transaction, so it carries no context. A panic of \<open>expect\<close> is the error \<open>Panic\<close>.
\<close>

section \<open>Interface of the interpreter\<close>

record 'c Journal =
  j_sload :: "address \<Rightarrow> u256 \<Rightarrow> 'c \<Rightarrow> (u256 \<times> 'c) option"
  j_sstore :: "address \<Rightarrow> u256 \<Rightarrow> u256 \<Rightarrow> 'c \<Rightarrow> 'c option"
  j_transfer :: "address \<Rightarrow> address \<Rightarrow> u256 \<Rightarrow> 'c \<Rightarrow> (string option \<times> 'c) option"
  j_log :: "Log \<Rightarrow> 'c \<Rightarrow> 'c"

text \<open>\<open>ci_input\<close> is the call data \<open>inputs.input\<close> resolves to in the context of the call.\<close>

record CallInputs =
  ci_bytecode_address :: address
  ci_caller :: address
  ci_input :: bytes
  ci_is_static :: bool
  ci_transfer_value :: "u256 option"
  ci_transfers_value :: bool
  ci_gas_limit :: u64
  ci_reservoir :: u64

record PrecompileOutput =
  po_reverted :: bool
  po_gas :: u64
  po_bytes :: bytes
  po_reservoir :: u64

datatype fault = Fatal string | Panic string

section \<open>Chain registry\<close>

text \<open>\<open>precompile_output_to_interpreter_result\<close> of \<open>revm\<close> is the parameter \<open>finish\<close>.\<close>

definition registry_revert :: "(PrecompileOutput \<Rightarrow> u64 \<Rightarrow> 'r) \<Rightarrow> CallInputs \<Rightarrow> string \<Rightarrow> 'r" where
  "registry_revert finish inputs message =
     finish \<lparr>po_reverted = True, po_gas = CHAIN_REGISTRY_CREATE_GAS, po_bytes = ascii message,
       po_reservoir = ci_reservoir inputs\<rparr> (ci_gas_limit inputs)"

definition registry_sload :: "'c Journal \<Rightarrow> string \<Rightarrow> u256 \<Rightarrow> 'c \<Rightarrow> (u256 \<times> 'c, fault) result" where
  "registry_sload J message slot c = ok_or (Fatal message) (j_sload J CHAIN_REGISTRY_ADDRESS slot c)"

definition registry_sstore :: "'c Journal \<Rightarrow> string \<Rightarrow> u256 \<times> u256 \<Rightarrow> 'c \<Rightarrow> ('c, fault) result" where
  "registry_sstore J message = (\<lambda>(slot, value) c.
     ok_or (Fatal message) (j_sstore J CHAIN_REGISTRY_ADDRESS slot value c))"

definition chain_created_log :: "hash_fn \<Rightarrow> PreparedChainCreation \<Rightarrow> Log" where
  "chain_created_log K prepared =
     (let d = pc_descriptor prepared in
      \<lparr>log_address = CHAIN_REGISTRY_ADDRESS,
       log_topics = [K (ascii ''ChainCreated(bytes32,bytes32,uint64,address,uint256,uint64)''), dd_domain_id d],
       log_data = to_be_bytes (dd_parent_domain_id d)
         @ replicate 24 0 @ to_be_bytes (dd_evm_chain_id d)
         @ replicate 12 0 @ to_be_bytes (dd_owner d)
         @ to_be_bytes (dd_creation_deposit d)
         @ replicate 24 0 @ to_be_bytes (pc_deposit_unlock_height prepared)\<rparr>)"

text \<open>The three lookups before a creation: the message of the revert, if any.\<close>

definition create_lookups :: "hash_fn \<Rightarrow> 'c Journal \<Rightarrow> DomainDescriptor \<Rightarrow> 'c \<Rightarrow> (string option \<times> 'c, fault) result" where
  "create_lookups K J d c =
     bind_res (registry_sload J ''ChainRegistry parent lookup failed'' (descriptor_slot K (dd_parent_domain_id d)) c)
       (\<lambda>(parent, c).
     if parent = 0 then Ok (Some ''unknown parent domain'', c)
     else
       bind_res (registry_sload J ''ChainRegistry domain lookup failed'' (descriptor_slot K (dd_domain_id d)) c)
         (\<lambda>(domain, c).
       if domain \<noteq> 0 then Ok (Some ''domain already exists'', c)
       else
         bind_res (registry_sload J ''ChainRegistry chain ID lookup failed'' (chain_id_slot K (dd_evm_chain_id d)) c)
           (\<lambda>(chain_id, c).
         Ok (if chain_id \<noteq> 0 then Some ''EVM chain ID already exists'' else None, c))))"

definition run_create_chain :: "hash_fn \<Rightarrow> 'c Journal \<Rightarrow> (PrecompileOutput \<Rightarrow> u64 \<Rightarrow> 'r) \<Rightarrow> CallInputs
    \<Rightarrow> ChainRegistryRuntime \<Rightarrow> bytes \<Rightarrow> 'c \<Rightarrow> ('r \<times> 'c, fault) result" where
  "run_create_chain K J finish inputs runtime calldata c =
     (case rt_prepared_creation runtime of
        None \<Rightarrow> Ok (registry_revert finish inputs ''invalid createChain call'', c)
      | Some prepared \<Rightarrow>
          if ci_is_static inputs then Ok (registry_revert finish inputs ''invalid createChain call'', c)
          else
            bind_res (map_err (\<lambda>_. Panic ''prepared ChainRegistry request is valid'')
              (encode_create_chain_call K (pc_request prepared))) (\<lambda>expected.
            let d = pc_descriptor prepared in
            if calldata \<noteq> expected \<or> ci_transfer_value inputs \<noteq> Some (dd_creation_deposit d)
            then Ok (registry_revert finish inputs ''invalid createChain call'', c)
            else
              bind_res (create_lookups K J d c) (\<lambda>(refusal, c).
              case refusal of
                Some message \<Rightarrow> Ok (registry_revert finish inputs message, c)
              | None \<Rightarrow>
                  bind_res (fold_res (registry_sstore J ''ChainRegistry storage update failed'')
                    (creation_storage_writes K prepared) c) (\<lambda>c.
                  let c = j_log J (chain_created_log K prepared) c in
                  Ok (finish \<lparr>po_reverted = False, po_gas = CHAIN_REGISTRY_CREATE_GAS,
                        po_bytes = to_be_bytes (dd_domain_id d), po_reservoir = ci_reservoir inputs\<rparr>
                      (ci_gas_limit inputs), c)))))"

definition deposit_event :: "hash_fn \<Rightarrow> bool \<Rightarrow> b256" where
  "deposit_event K burn =
     K (ascii (if burn then ''CreationDepositBurned(bytes32,uint256,address)''
       else ''CreationDepositRefunded(bytes32,uint256,address)''))"

text \<open>
  Who receives the deposit, and the status it moves to; \<open>Inl\<close> is the message of a revert. The owner
  is the low 20 bytes of its storage word.
\<close>

definition deposit_recipient :: "hash_fn \<Rightarrow> 'c Journal \<Rightarrow> CallInputs \<Rightarrow> ChainRegistryRuntime \<Rightarrow> DomainId \<Rightarrow> bool
    \<Rightarrow> 'c \<Rightarrow> ((string + address \<times> CreationDepositStatus) \<times> 'c, fault) result" where
  "deposit_recipient K J inputs runtime domain_id burn c =
     (if burn then
        Ok (if ci_caller inputs \<noteq> rt_governance_address runtime then Inl ''unauthorized deposit burn''
            else Inr (0, Burned), c)
      else
        bind_res (registry_sload J ''ChainRegistry unlock-height lookup failed'' (deposit_unlock_slot K domain_id) c)
          (\<lambda>(unlock_height, c).
        if ucast (rt_consensus_height runtime) < unlock_height then Ok (Inl ''deposit remains locked'', c)
        else
          bind_res (registry_sload J ''ChainRegistry owner lookup failed'' (owner_slot K domain_id) c)
            (\<lambda>(owner_word, c).
          let owner = (from_be_bytes (drop 12 (to_be_bytes owner_word)) :: address) in
          Ok (if ci_caller inputs \<noteq> owner then Inl ''deposit refund requires owner'' else Inr (owner, Refunded), c))))"

text \<open>The payment of a deposit, from the transfer to the end.\<close>

definition settle_deposit :: "hash_fn \<Rightarrow> 'c Journal \<Rightarrow> (PrecompileOutput \<Rightarrow> u64 \<Rightarrow> 'r) \<Rightarrow> CallInputs \<Rightarrow> DomainId
    \<Rightarrow> bool \<Rightarrow> u256 \<Rightarrow> address \<Rightarrow> CreationDepositStatus \<Rightarrow> 'c \<Rightarrow> ('r \<times> 'c, fault) result" where
  "settle_deposit K J finish inputs domain_id burn deposit recipient next_status c =
     bind_res (ok_or (Fatal ''ChainRegistry deposit transfer failed'')
       (j_transfer J CHAIN_REGISTRY_ADDRESS recipient deposit c)) (\<lambda>(transfer_error, c).
     if transfer_error \<noteq> None
     then Ok (registry_revert finish inputs ''registry deposit balance unavailable'', c)
     else
       bind_res (registry_sstore J ''ChainRegistry deposit update failed'' (deposit_slot K domain_id, 0) c) (\<lambda>c.
       bind_res (registry_sstore J ''ChainRegistry deposit status update failed''
         (deposit_status_slot K domain_id, ucast (deposit_status_u8 next_status)) c) (\<lambda>c.
       let c = j_log J \<lparr>log_address = CHAIN_REGISTRY_ADDRESS,
             log_topics = [deposit_event K burn, domain_id],
             log_data = to_be_bytes deposit @ replicate 12 0 @ to_be_bytes (ci_caller inputs)\<rparr> c in
       Ok (finish \<lparr>po_reverted = False, po_gas = CHAIN_REGISTRY_DEPOSIT_GAS,
             po_bytes = to_be_bytes domain_id, po_reservoir = ci_reservoir inputs\<rparr>
           (ci_gas_limit inputs), c))))"

definition run_deposit_lifecycle :: "hash_fn \<Rightarrow> 'c Journal \<Rightarrow> (PrecompileOutput \<Rightarrow> u64 \<Rightarrow> 'r) \<Rightarrow> CallInputs
    \<Rightarrow> ChainRegistryRuntime \<Rightarrow> DomainId \<Rightarrow> bool \<Rightarrow> 'c \<Rightarrow> ('r \<times> 'c, fault) result" where
  "run_deposit_lifecycle K J finish inputs runtime domain_id burn c =
     (if ci_is_static inputs \<or> ci_transfers_value inputs
      then Ok (registry_revert finish inputs ''invalid deposit lifecycle call'', c)
      else
        bind_res (registry_sload J ''ChainRegistry deposit status lookup failed'' (deposit_status_slot K domain_id) c)
          (\<lambda>(status, c).
        if status \<noteq> ucast (deposit_status_u8 Locked)
        then Ok (registry_revert finish inputs ''deposit is not locked'', c)
        else
        bind_res (registry_sload J ''ChainRegistry deposit lookup failed'' (deposit_slot K domain_id) c)
          (\<lambda>(deposit, c).
        if deposit = 0 then Ok (registry_revert finish inputs ''deposit does not exist'', c)
        else
        bind_res (deposit_recipient K J inputs runtime domain_id burn c) (\<lambda>(decision, c).
        case decision of
          Inl message \<Rightarrow> Ok (registry_revert finish inputs message, c)
        | Inr (recipient, next_status) \<Rightarrow>
            settle_deposit K J finish inputs domain_id burn deposit recipient next_status c))))"

definition run_chain_registry :: "hash_fn \<Rightarrow> 'c Journal \<Rightarrow> (PrecompileOutput \<Rightarrow> u64 \<Rightarrow> 'r)
    \<Rightarrow> ChainRegistryRuntime option \<Rightarrow> CallInputs \<Rightarrow> 'c \<Rightarrow> ('r \<times> 'c, fault) result" where
  "run_chain_registry K J finish registry inputs c =
     (case registry of
        None \<Rightarrow> Ok (registry_revert finish inputs ''ChainRegistry unavailable'', c)
      | Some runtime \<Rightarrow>
          if rt_executing_domain_id runtime \<noteq> rt_root_domain_id runtime
          then Ok (registry_revert finish inputs ''ChainRegistry is root-only'', c)
          else let calldata = ci_input inputs in
            if starts_with (create_chain_selector K) calldata
            then run_create_chain K J finish inputs runtime calldata c
            else case decode_refund_deposit_call K calldata of
              Some domain_id \<Rightarrow> run_deposit_lifecycle K J finish inputs runtime domain_id False c
            | None \<Rightarrow>
                (case decode_burn_deposit_call K calldata of
                   Some domain_id \<Rightarrow> run_deposit_lifecycle K J finish inputs runtime domain_id True c
                 | None \<Rightarrow> Ok (registry_revert finish inputs ''unknown ChainRegistry call'', c)))"

section \<open>Precompile provider\<close>

text \<open>The standard precompiles are \<open>EthPrecompiles\<close> of \<open>revm\<close>: their addresses and their \<open>run\<close> are parameters.\<close>

record ArborPrecompiles =
  ap_warm :: "address set"
  ap_spec :: ProtocolSpec
  ap_chain_id :: u64
  ap_registry :: "ChainRegistryRuntime option"

definition arbor_precompiles_new :: "(EvmRevision \<Rightarrow> address set) \<Rightarrow> EvmRevision \<Rightarrow> ProtocolSpec \<Rightarrow> u64
    \<Rightarrow> ChainRegistryRuntime option \<Rightarrow> ArborPrecompiles" where
  "arbor_precompiles_new eth_warm revision spec chain_id registry =
     \<lparr>ap_warm = insert CHAIN_REGISTRY_ADDRESS (insert PROTOCOL_INFO_ADDRESS (eth_warm revision)),
      ap_spec = spec, ap_chain_id = chain_id, ap_registry = registry\<rparr>"

definition precompiles_set_spec :: "(EvmRevision \<Rightarrow> address set) \<Rightarrow> EvmRevision \<Rightarrow> ArborPrecompiles \<Rightarrow> ArborPrecompiles" where
  "precompiles_set_spec eth_warm revision p =
     p\<lparr>ap_warm := insert CHAIN_REGISTRY_ADDRESS (insert PROTOCOL_INFO_ADDRESS (eth_warm revision))\<rparr>"

definition run_precompile :: "hash_fn \<Rightarrow> 'c Journal \<Rightarrow> (PrecompileOutput \<Rightarrow> u64 \<Rightarrow> 'r)
    \<Rightarrow> (CallInputs \<Rightarrow> 'c \<Rightarrow> ('r option \<times> 'c, fault) result) \<Rightarrow> ArborPrecompiles \<Rightarrow> CallInputs \<Rightarrow> 'c
    \<Rightarrow> ('r option \<times> 'c, fault) result" where
  "run_precompile K J finish eth_run p inputs c =
     (if ci_bytecode_address inputs = PROTOCOL_INFO_ADDRESS then
        let valid = ci_input inputs = protocol_info_selector K \<and> \<not> ci_transfers_value inputs;
            output =
              (if valid then
                 \<lparr>po_reverted = False, po_gas = PROTOCOL_INFO_GAS,
                  po_bytes = encode_protocol_info (ps_protocol_revision (ap_spec p))
                    (evm_revision_u8 (ps_evm_revision (ap_spec p))) (ap_chain_id p),
                  po_reservoir = ci_reservoir inputs\<rparr>
               else
                 \<lparr>po_reverted = True, po_gas = PROTOCOL_INFO_GAS, po_bytes = ascii ''invalid protocolInfo call'',
                  po_reservoir = ci_reservoir inputs\<rparr>) in
        Ok (Some (finish output (ci_gas_limit inputs)), c)
      else if ci_bytecode_address inputs = CHAIN_REGISTRY_ADDRESS then
        bind_res (run_chain_registry K J finish (ap_registry p) inputs c) (\<lambda>(r, c). Ok (Some r, c))
      else eth_run inputs c)"

section \<open>One transaction\<close>

record TxEnv =
  te_tx_type :: u8
  te_caller :: address
  te_gas_limit :: u64
  te_gas_price :: u128
  te_kind :: "address option"
  te_value :: u256
  te_data :: bytes
  te_nonce :: u64
  te_chain_id :: "u64 option"
  te_access_list :: "AccessListItem list"
  te_gas_priority_fee :: "u128 option"
  te_blob_hashes :: "b256 list"
  te_max_fee_per_blob_gas :: u128
  te_authorization_list :: "bytes list"

record BlockEnv =
  be_number :: u256
  be_beneficiary :: address
  be_timestamp :: u256
  be_gas_limit :: u64
  be_basefee :: u64
  be_difficulty :: u256
  be_prevrandao :: "b256 option"
  be_blob_excess_gas_and_price :: "(u64 \<times> u128) option"
  be_slot_num :: u64

record CfgEnv =
  cfg_spec :: EvmRevision
  cfg_chain_id :: u64
  cfg_limit_code :: "nat option"
  cfg_limit_initcode :: "nat option"

datatype RevmError =
    RevmTransaction EvmText
  | RevmHeader EvmText
  | RevmDatabase EvmText
  | RevmCustom EvmText
  | RevmCustomAny EvmText

record ExecutionOutcome =
  eo_success :: bool
  eo_gas_used :: u64
  eo_logs :: "Log list"
  eo_output :: "bytes option"
  eo_created_address :: "address option"
  eo_state :: "(address \<times> EvmAccount) list"

record EvmExecution =
  ex_success :: bool
  ex_gas_used :: u64
  ex_logs :: "Log list"
  ex_output :: bytes
  ex_created_address :: "address option"
  ex_created_domain :: "DomainDescriptor option"

definition to_tx_env :: "Eip1559Transaction \<Rightarrow> address \<Rightarrow> TxEnv" where
  "to_tx_env tx sender =
     \<lparr>te_tx_type = 2, te_caller = sender, te_gas_limit = tx_gas_limit tx, te_gas_price = tx_max_fee_per_gas tx,
      te_kind = tx_to tx, te_value = tx_value tx, te_data = tx_input tx, te_nonce = tx_nonce tx,
      te_chain_id = Some (tx_chain_id tx), te_access_list = tx_access_list tx,
      te_gas_priority_fee = Some (tx_max_priority_fee_per_gas tx), te_blob_hashes = [],
      te_max_fee_per_blob_gas = 0, te_authorization_list = []\<rparr>"

fun map_revm_error :: "RevmError \<Rightarrow> EvmError" where
  "map_revm_error (RevmTransaction e) = EvmInvalidTransaction e"
| "map_revm_error (RevmHeader e) = EvmInvalidHeader e"
| "map_revm_error (RevmDatabase e) = EvmStateError e"
| "map_revm_error (RevmCustom e) = EvmSystem e"
| "map_revm_error (RevmCustomAny e) = EvmSystem e"

definition block_env :: "DomainEnv \<Rightarrow> (BlockEnv, EvmError) result" where
  "block_env env =
     (if de_base_fee_per_gas env > ucast (- 1 :: u64) then Err (InvalidEnvironment ''base fee does not fit u64'')
      else Ok \<lparr>be_number = ucast (de_block_number env), be_beneficiary = de_beneficiary env,
        be_timestamp = ucast (de_timestamp env), be_gas_limit = de_gas_limit env,
        be_basefee = ucast (de_base_fee_per_gas env), be_difficulty = 0, be_prevrandao = Some (de_prevrandao env),
        be_blob_excess_gas_and_price = None, be_slot_num = 0\<rparr>)"

type_synonym transact = "ExecutionState \<Rightarrow> CfgEnv \<Rightarrow> BlockEnv \<Rightarrow> ArborPrecompiles \<Rightarrow> TxEnv
  \<Rightarrow> (ExecutionOutcome, RevmError) result"

definition execute_transaction_with_system :: "hash_fn \<Rightarrow> rlp \<Rightarrow> (EvmRevision \<Rightarrow> address set) \<Rightarrow> transact
    \<Rightarrow> ExecutionState \<Rightarrow> ProtocolSpec \<Rightarrow> DomainEnv \<Rightarrow> Eip1559Transaction \<Rightarrow> address
    \<Rightarrow> ChainRegistryRuntime option \<Rightarrow> (EvmExecution \<times> ExecutionState, EvmError) result" where
  "execute_transaction_with_system K R eth_warm transact st spec env tx sender registry =
     bind_res (domain_env_validate env) (\<lambda>_.
     bind_res (protocol_spec_resolve (ps_protocol_revision spec)) (\<lambda>resolved.
     if resolved \<noteq> spec
     then Err (InvalidEnvironment ''ProtocolSpec fields do not match the registered revision'')
     else if length (tx_input tx) > ps_max_initcode_bytes spec \<and> tx_to tx = None
     then Err (EvmInvalidTransaction (Text ''contract initcode exceeds protocol limit''))
     else
       bind_res (block_env env) (\<lambda>block.
       let cfg = \<lparr>cfg_spec = ps_evm_revision spec, cfg_chain_id = de_chain_id env,
             cfg_limit_code = Some (ps_max_code_bytes spec), cfg_limit_initcode = Some (ps_max_initcode_bytes spec)\<rparr>;
           precompiles = arbor_precompiles_new eth_warm (ps_evm_revision spec) spec (de_chain_id env) registry in
       bind_res (map_err map_revm_error (transact st cfg block precompiles (to_tx_env tx sender))) (\<lambda>outcome.
       if length (eo_logs outcome) > ps_max_logs_per_transaction spec
       then Err (EvmInvalidTransaction (Text ''transaction log count exceeds protocol limit''))
       else
         bind_res (apply_changes K R (eo_state outcome) st) (\<lambda>st.
         let created_domain =
               (if eo_success outcome \<and> tx_to tx = Some CHAIN_REGISTRY_ADDRESS
                    \<and> starts_with (create_chain_selector K) (tx_input tx)
                then Option.bind registry (\<lambda>context. map_option pc_descriptor (rt_prepared_creation context))
                else None) in
         Ok (\<lparr>ex_success = eo_success outcome, ex_gas_used = eo_gas_used outcome, ex_logs = eo_logs outcome,
               ex_output = (case eo_output outcome of Some bs \<Rightarrow> bs | None \<Rightarrow> []),
               ex_created_address = eo_created_address outcome, ex_created_domain = created_domain\<rparr>, st))))))"

definition execute_transaction :: "hash_fn \<Rightarrow> rlp \<Rightarrow> (EvmRevision \<Rightarrow> address set) \<Rightarrow> transact
    \<Rightarrow> ExecutionState \<Rightarrow> ProtocolSpec \<Rightarrow> DomainEnv \<Rightarrow> Eip1559Transaction \<Rightarrow> address
    \<Rightarrow> (EvmExecution \<times> ExecutionState, EvmError) result" where
  "execute_transaction K R eth_warm transact st spec env tx sender =
     execute_transaction_with_system K R eth_warm transact st spec env tx sender None"

end
