(* ===== verification/Execution_Correct.thy ===== *)
theory Execution_Correct
  imports Execution_State "HOL-Library.Multiset"
begin

text \<open>
  Properties of the authenticated execution state: what every way of obtaining a state guarantees,
  and that the effect of a transaction does not depend on the order in which \<open>revm\<close>'s hash map of
  changed accounts is read.
\<close>

section \<open>Leaves read from a store\<close>

lemma walk_wf:
  "walk_node K store encoded path leaves visited = Ok (ls, vs) \<Longrightarrow> bt_wf leaves \<Longrightarrow> bt_wf ls"
  "walk_children K store children path leaves visited = Ok (ls, vs) \<Longrightarrow> bt_wf leaves \<Longrightarrow> bt_wf ls"
  "walk_child K store child path leaves visited = Ok (ls, vs) \<Longrightarrow> bt_wf leaves \<Longrightarrow> bt_wf ls"
proof (induction K store encoded path leaves visited and K store children path leaves visited
    and K store child path leaves visited arbitrary: ls vs and ls vs and ls vs
    rule: walk_node_walk_children_walk_child.induct)
  case (1 K store encoded path leaves visited)
  then obtain node where node: "decode_node encoded = Ok node"
    by (auto simp: walk_node.simps)
  with 1 show ?case
    by (cases node) (auto simp: walk_node.simps bt_wf_insert if_Err_exact)
next
  case (3 K store nibble child children path leaves visited)
  show ?case
  proof (cases child)
    case None
    then show ?thesis
      using 3 by (simp add: walk_children.simps)
  next
    case (Some c)
    then obtain l v where step: "walk_child K store c (path @ [word_of_nat nibble]) leaves visited = Ok (l, v)"
        and rest: "walk_children K store children path l v = Ok (ls, vs)"
      using "3.prems" by (auto simp: walk_children.simps)
    show ?thesis
      using "3.IH"(2) [OF Some step] "3.IH"(3) [OF Some step refl rest] "3.prems"(2) by simp
  qed
next
  case (4 K store child path leaves visited)
  show ?case
  proof (cases child)
    case (HashRef hash)
    then show ?thesis
      using "4.IH"(1) [OF HashRef] "4.prems" by (auto simp: walk_child.simps if_Err_exact)
  next
    case (Embedded encoded)
    then show ?thesis
      using "4.IH"(2) [OF Embedded] "4.prems" by (simp add: walk_child.simps)
  qed
qed (auto simp: walk_children.simps)

lemma collect_leaves_wf: "collect_leaves K root store = Ok ls \<Longrightarrow> bt_wf ls"
  using walk_wf(1) by (fastforce simp: collect_leaves_def split: if_splits)

section \<open>Snapshots and their nodes\<close>

lemma trie_build_Ok_leaves: "trie_build K R ls = Ok s \<Longrightarrow> ts_leaves s = ls"
  by (auto simp: trie_build_def Let_def split: if_splits)

definition nodes_auth :: "hash_fn \<Rightarrow> (b256 \<times> bytes) list \<Rightarrow> bool" where
  "nodes_auth K ns \<longleftrightarrow> (\<forall>(h, bs) \<in> set ns. K bs = h)"

lemma nodes_auth_Nil [simp]: "nodes_auth K []"
  by (simp add: nodes_auth_def)

lemma nodes_auth_insert: "nodes_auth K ns \<Longrightarrow> K bs = h \<Longrightarrow> nodes_auth K (bt_insert h bs ns)"
  using set_bt_insert_subset [of h bs ns] by (fastforce simp: nodes_auth_def)

lemma extend_nodes_Ok:
  "extend_nodes K ns s = Ok s' \<Longrightarrow> ts_root s' = ts_root s \<and> ts_leaves s' = ts_leaves s \<and> nodes_auth K ns"
  by (induction K ns s rule: extend_nodes.induct) (auto simp: if_Err_exact nodes_auth_def)

section \<open>The invariant of an execution state\<close>

text \<open>
  The account leaves are a sorted map committed by the root, and every node and every contract body
  is stored under its own hash.
\<close>

definition es_ok :: "hash_fn \<Rightarrow> rlp \<Rightarrow> ExecutionState \<Rightarrow> bool" where
  "es_ok K R st \<longleftrightarrow> bt_wf (ts_leaves (es_accounts st))
     \<and> (\<exists>s. trie_build K R (ts_leaves (es_accounts st)) = Ok s \<and> ts_root s = state_root st)
     \<and> nodes_auth K (es_trie_nodes st)
     \<and> bt_wf (es_contract_code st) \<and> nodes_auth K (es_contract_code st)"

lemma es_okI:
  assumes "bt_wf ls" and "trie_build K R ls = Ok s" and "extend_nodes K ns s = Ok s'"
    and "bt_wf code" and "nodes_auth K code"
  shows "es_ok K R \<lparr>es_accounts = s', es_trie_nodes = ns, es_contract_code = code, es_block_hashes = hs\<rparr>"
  using assms extend_nodes_Ok [OF assms(3)] trie_build_Ok_leaves [OF assms(2)]
  by (auto simp: es_ok_def state_root_def)

lemma genesis_account_wf:
  "genesis_account K R x (ls, ns, code) = Ok (ls', ns', code') \<Longrightarrow>
     bt_wf ls \<and> bt_wf code \<and> nodes_auth K code \<Longrightarrow> bt_wf ls' \<and> bt_wf code' \<and> nodes_auth K code'"
  by (auto simp: genesis_account_def Let_def bt_wf_insert nodes_auth_insert split: prod.splits if_splits)

lemma from_genesis_ok:
  assumes "from_genesis K R allocations = Ok st"
  shows "es_ok K R st"
proof -
  obtain ls ns code s s' where steps: "fold_res (genesis_account K R) allocations ([], [], []) = Ok (ls, ns, code)"
      "trie_build K R ls = Ok s" "extend_nodes K (bt_extend ns (ts_nodes s)) s = Ok s'"
      "st = \<lparr>es_accounts = s', es_trie_nodes = bt_extend ns (ts_nodes s), es_contract_code = code, es_block_hashes = []\<rparr>"
    using assms by (auto simp: from_genesis_def Let_def)
  have "case (ls, ns, code) of (ls, ns, code) \<Rightarrow> bt_wf ls \<and> bt_wf code \<and> nodes_auth K code"
    by (rule fold_res_invariant [OF steps(1)]) (auto dest: genesis_account_wf)
  then show ?thesis
    using steps by (auto intro: es_okI)
qed

lemma persisted_account_code:
  "persisted_account K R store load_code x (ns, code) = Ok (ns', code') \<Longrightarrow>
     bt_wf code \<and> nodes_auth K code \<Longrightarrow> bt_wf code' \<and> nodes_auth K code'"
  by (auto simp: persisted_account_def persisted_code_def if_Err_exact bt_wf_insert nodes_auth_insert
      split: if_splits)

lemma from_persisted_ok:
  assumes "from_persisted K R root store load_code = Ok st"
  shows "es_ok K R st \<and> state_root st = root"
proof -
  obtain ls ns code s s' where steps: "collect_leaves K root store = Ok ls" "trie_build K R ls = Ok s" "ts_root s = root"
      "fold_res (persisted_account K R store load_code) (bt_values ls) (ts_nodes s, []) = Ok (ns, code)"
      "extend_nodes K ns s = Ok s'"
      "st = \<lparr>es_accounts = s', es_trie_nodes = ns, es_contract_code = code, es_block_hashes = []\<rparr>"
    using assms by (auto simp: from_persisted_def if_Err_exact)
  have "case (ns, code) of (ns, code) \<Rightarrow> bt_wf code \<and> nodes_auth K code"
    by (rule fold_res_invariant [OF steps(4)]) (auto dest: persisted_account_code)
  then show ?thesis
    using steps(3,6) es_okI [OF collect_leaves_wf [OF steps(1)] steps(2,5)] extend_nodes_Ok [OF steps(5)]
    by (simp add: state_root_def)
qed

section \<open>Applying changes\<close>

text \<open>The write of one changed account: what it puts under the account's key, if anything.\<close>

definition change_write :: "hash_fn \<Rightarrow> rlp \<Rightarrow> ExecutionState \<Rightarrow> address \<Rightarrow> EvmAccount \<Rightarrow> bytes option" where
  "change_write K R st a changed =
     (if ea_selfdestructed changed then None
      else case changed_storage K R st a changed of
        Ok storage \<Rightarrow>
          let account = \<lparr>ac_nonce = ai_nonce (ea_info changed), ac_balance = ai_balance (ea_info changed),
            ac_storage_root = ts_root storage, ac_code_hash = ai_code_hash (ea_info changed)\<rparr> in
          if account_is_empty K account then None else Some (encode_account R account)
      | Err _ \<Rightarrow> None)"

definition change_writes :: "hash_fn \<Rightarrow> rlp \<Rightarrow> ExecutionState \<Rightarrow> (address \<times> EvmAccount) list \<Rightarrow> (b256 \<times> bytes option) list" where
  "change_writes K R st changes =
     map (\<lambda>(a, c). (secure_account_key K a, change_write K R st a c)) (filter (ea_touched \<circ> snd) changes)"

lemma apply_change_overlay:
  assumes "apply_change K R st (a, c) (ov, added, code) = Ok (ov', added', code')"
  shows "ov' = (if ea_touched c then set_secure_leaf (secure_account_key K a) (change_write K R st a c) ov else ov)"
    and "bt_wf code \<and> nodes_auth K code \<Longrightarrow> bt_wf code' \<and> nodes_auth K code'"
  using assms
  by (auto simp: apply_change_def change_write_def set_account_leaf delete_account_leaf changed_code_def
      bt_wf_insert nodes_auth_insert Let_def split: if_splits option.splits)

lemma fold_apply_change:
  "fold_res (apply_change K R st) changes (ov, added, code) = Ok (ov', added', code') \<Longrightarrow>
     ov' = fold (\<lambda>(k, v). set_secure_leaf k v) (change_writes K R st changes) ov
       \<and> (bt_wf code \<and> nodes_auth K code \<longrightarrow> bt_wf code' \<and> nodes_auth K code')"
proof (induction changes arbitrary: ov added code)
  case (Cons x changes)
  obtain a c where x: "x = (a, c)"
    by (cases x)
  obtain ov1 added1 code1 where step: "apply_change K R st (a, c) (ov, added, code) = Ok (ov1, added1, code1)"
      and rest: "fold_res (apply_change K R st) changes (ov1, added1, code1) = Ok (ov', added', code')"
    using Cons.prems by (auto simp: x)
  show ?case
    using Cons.IH [OF rest] apply_change_overlay [OF step] by (auto simp: x change_writes_def)
qed (simp add: change_writes_def)

text \<open>The leaves after a change set.\<close>

lemma apply_changes_Ok:
  assumes "apply_changes K R changes st = Ok st'" and "bt_wf (ts_leaves (es_accounts st))"
  shows "bt_wf (ts_leaves (es_accounts st'))"
    and "bt_get (ts_leaves (es_accounts st')) =
      fold (\<lambda>(k, v) m. m(k := v)) (change_writes K R st changes) (bt_get (ts_leaves (es_accounts st)))"
    and "\<exists>s. trie_build K R (ts_leaves (es_accounts st')) = Ok s \<and> ts_root s = state_root st'"
    and "nodes_auth K (es_trie_nodes st')"
    and "bt_wf (es_contract_code st) \<and> nodes_auth K (es_contract_code st) \<Longrightarrow>
      bt_wf (es_contract_code st') \<and> nodes_auth K (es_contract_code st')"
proof -
  let ?ov = "overlay_from_snapshot (es_accounts st)"
  obtain ov added code accounts reachable accounts' where
    run: "fold_res (apply_change K R st) changes (?ov, [], es_contract_code st) = Ok (ov, added, code)"
    and commit: "overlay_commit K R ov = Ok accounts"
    and extend: "extend_nodes K reachable accounts = Ok accounts'"
    and st': "st' = st\<lparr>es_accounts := accounts', es_trie_nodes := reachable, es_contract_code := code\<rparr>"
    using assms(1) by (auto simp: apply_changes_def Let_def)
  have wf: "overlay_wf ?ov" "secure_leaf ?ov = bt_get (ts_leaves (es_accounts st))"
    using assms(2) by (auto simp: overlay_wf_def overlay_from_snapshot_def overlay_new_def secure_leaf_def fun_eq_iff)
  have ov: "ov = overlay.puts (change_writes K R st changes) ?ov"
    using fold_apply_change [OF run] by (simp add: overlay.puts_def)
  then obtain leaves where leaves: "overlay_commit K R ov = trie_build K R leaves" "bt_wf leaves"
      "bt_get leaves = secure_leaf ov"
    using overlay_commit_leaves [of ov] overlay.inv_puts wf(1) by blast
  then have built: "trie_build K R leaves = Ok accounts" "ts_leaves accounts = leaves"
    using commit trie_build_Ok_leaves by simp_all
  have same: "ts_leaves accounts' = leaves" "ts_root accounts' = ts_root accounts" "nodes_auth K reachable"
    using extend_nodes_Ok [OF extend] built(2) by simp_all
  show "bt_wf (ts_leaves (es_accounts st'))" "nodes_auth K (es_trie_nodes st')"
      "\<exists>s. trie_build K R (ts_leaves (es_accounts st')) = Ok s \<and> ts_root s = state_root st'"
    using leaves(2) built(1) same by (simp_all add: st' state_root_def)
  show "bt_get (ts_leaves (es_accounts st')) =
      fold (\<lambda>(k, v) m. m(k := v)) (change_writes K R st changes) (bt_get (ts_leaves (es_accounts st)))"
    using leaves(3) ov wf overlay.view_puts [OF wf(1)] by (simp add: st' same)
  show "bt_wf (es_contract_code st') \<and> nodes_auth K (es_contract_code st')"
    if "bt_wf (es_contract_code st) \<and> nodes_auth K (es_contract_code st)"
    using fold_apply_change [OF run] that by (simp add: st')
qed

text \<open>Updates at distinct keys commute.\<close>

lemma fold_upd_distinct:
  "distinct (map fst ws) \<Longrightarrow> fold (\<lambda>(k, v) m. m(k := v)) ws m k = (case map_of ws k of Some v \<Rightarrow> v | None \<Rightarrow> m k)"
proof (induction ws arbitrary: m)
  case (Cons w ws)
  then show ?case
    by (cases w) (auto split: option.splits simp: map_of_eq_None_iff [symmetric] dest: map_of_SomeD)
qed simp

lemma fold_upd_mset:
  assumes "mset ws = mset ws'" and "distinct (map fst ws)"
  shows "fold (\<lambda>(k, v) m. m(k := v)) ws m = fold (\<lambda>(k, v) m. m(k := v)) ws' m"
proof -
  have "mset (map fst ws) = mset (map fst ws')"
    using assms(1) by (metis mset_map)
  then have d: "distinct (map fst ws')"
    using assms(2) mset_eq_imp_distinct_iff by blast
  have "map_of ws = map_of ws'"
    using map_of_inject_set [OF assms(2) d] mset_eq_setD [OF assms(1)] by simp
  then show ?thesis
    using fold_upd_distinct [OF assms(2)] fold_upd_distinct [OF d] by (simp add: fun_eq_iff)
qed

section \<open>Accounts after a change set\<close>

lemma change_writes_distinct:
  assumes "distinct (map fst changes)" and "inj_on (secure_account_key K) (fst ` set changes)"
  shows "distinct (map fst (change_writes K R st changes))"
proof -
  let ?touched = "filter (ea_touched \<circ> snd) changes"
  have "distinct (map fst ?touched)"
    using assms(1) by (simp add: distinct_map_filter)
  moreover have "inj_on (secure_account_key K) (set (map fst ?touched))"
    by (rule inj_on_subset [OF assms(2)]) auto
  moreover have "map fst (change_writes K R st changes) = map (secure_account_key K) (map fst ?touched)"
    by (simp add: change_writes_def split_beta)
  ultimately show ?thesis
    by (simp only: distinct_map)
qed

lemma es_account_leaf:
  "rlp_scalars R \<Longrightarrow> bt_get (ts_leaves (es_accounts st)) (secure_account_key K a) = Some (encode_account R account) \<Longrightarrow>
     es_account K st a = Ok (Some account)"
  by (simp add: es_account_def decode_encode_account)

text \<open>The account a change leaves behind, given its rebuilt storage trie.\<close>

definition account_after :: "hash_fn \<Rightarrow> EvmAccount \<Rightarrow> TrieSnapshot \<Rightarrow> Account option" where
  "account_after K changed storage =
     (let account = \<lparr>ac_nonce = ai_nonce (ea_info changed), ac_balance = ai_balance (ea_info changed),
        ac_storage_root = ts_root storage, ac_code_hash = ai_code_hash (ea_info changed)\<rparr> in
      if account_is_empty K account then None else Some account)"

lemma apply_changes_account:
  assumes "apply_changes K R changes st = Ok st'" and "bt_wf (ts_leaves (es_accounts st))" and "rlp_scalars R"
    and "distinct (map fst changes)" and "inj_on (secure_account_key K) (fst ` set changes)"
    and "(a, c) \<in> set changes" and "ea_touched c"
  shows "if ea_selfdestructed c then es_account K st' a = Ok None
    else \<exists>storage. changed_storage K R st a c = Ok storage \<and> es_account K st' a = Ok (account_after K c storage)"
proof -
  note ws = change_writes_distinct [OF assms(4,5), of R st]
  have "(secure_account_key K a, change_write K R st a c) \<in> set (change_writes K R st changes)"
    using assms(6,7) by (force simp: change_writes_def)
  then have leaf: "bt_get (ts_leaves (es_accounts st')) (secure_account_key K a) = change_write K R st a c"
    using apply_changes_Ok(2) [OF assms(1,2)] fold_upd_distinct [OF ws] map_of_is_SomeI [OF ws] by simp
  show ?thesis
  proof (cases "ea_selfdestructed c")
    case True
    then show ?thesis
      using leaf by (simp add: change_write_def es_account_def)
  next
    case False
    obtain t t' where "apply_change K R st (a, c) t = Ok t'"
      using assms(1,6) fold_res_each [of "apply_change K R st" changes] by (fastforce simp: apply_changes_def)
    then obtain storage where st: "changed_storage K R st a c = Ok storage"
      using False assms(7) by (cases t) (auto simp: apply_change_def)
    moreover have "es_account K st' a = Ok (account_after K c storage)"
      using leaf False st es_account_leaf [OF assms(3)]
      by (auto simp: change_write_def account_after_def Let_def es_account_def split: if_splits)
    ultimately show ?thesis
      using False by simp
  qed
qed

lemma apply_changes_other:
  assumes "apply_changes K R changes st = Ok st'" and "bt_wf (ts_leaves (es_accounts st))"
    and "secure_account_key K a \<notin> secure_account_key K ` fst ` set (filter (ea_touched \<circ> snd) changes)"
  shows "es_account K st' a = es_account K st a"
proof -
  have "fst ` set (change_writes K R st changes) = secure_account_key K ` fst ` set (filter (ea_touched \<circ> snd) changes)"
    by (force simp: change_writes_def)
  then have "secure_account_key K a \<notin> fst ` set (change_writes K R st changes)"
    using assms(3) by simp
  moreover have "k \<notin> fst ` set ws \<Longrightarrow> fold (\<lambda>(k, v) m. m(k := v)) ws m k = m k" for k ws and m :: "b256 \<Rightarrow> bytes option"
    by (induction ws arbitrary: m) auto
  ultimately show ?thesis
    using apply_changes_Ok(2) [OF assms(1,2)] by (simp add: es_account_def)
qed

section \<open>A state with one account\<close>

lemma store_nodes_auth: "nodes_auth K m \<Longrightarrow> nodes_auth K (store_nodes K ns m)"
  by (induction ns arbitrary: m) (simp_all add: store_nodes_def nodes_auth_insert)

lemma extend_nodes_self:
  "nodes_auth K ns \<Longrightarrow> bt_wf (ts_nodes s) \<Longrightarrow> (\<And>h bs. (h, bs) \<in> set ns \<Longrightarrow> bt_get (ts_nodes s) h = Some bs) \<Longrightarrow>
     \<exists>s'. extend_nodes K ns s = Ok s'"
proof (induction ns arbitrary: s)
  case (Cons n ns)
  obtain h bs where n: "n = (h, bs)"
    by (cases n)
  have get: "bt_get (ts_nodes s) h = Some bs" "\<And>j x. (j, x) \<in> set ns \<Longrightarrow> bt_get (ts_nodes s) j = Some x"
    using Cons.prems(3) by (simp_all add: n)
  have "bt_get (bt_insert h bs (ts_nodes s)) j = Some x" if "(j, x) \<in> set ns" for j x
    using get(1) get(2) [OF that] Cons.prems(2) by (auto simp: btree.get_insert)
  then have "\<exists>s'. extend_nodes K ns (s\<lparr>ts_nodes := bt_insert h bs (ts_nodes s)\<rparr>) = Ok s'"
    using Cons.prems(1,2) by (intro Cons.IH) (simp_all add: n nodes_auth_def bt_wf_insert)
  then show ?case
    using Cons.prems(1) get(1) by (simp add: n nodes_auth_def)
qed simp

lemma extend_built:
  assumes "leaves_ok ls" and "trie_build K R ls = Ok s"
  shows "\<exists>s'. extend_nodes K (ts_nodes s) s = Ok s'"
proof (cases "ls = []")
  case True
  then show ?thesis
    using assms(2) by (auto simp: trie_build_def)
next
  case False
  then have nodes: "ts_nodes s = store_nodes K (trie_nodes K R (trie_of 0 ls)) []"
    using trie_build_leaves [OF assms(1) False, of K R] assms(2) by auto
  have "nodes_auth K (ts_nodes s)" "bt_wf (ts_nodes s)"
    by (simp_all add: nodes store_nodes_auth bt_wf_store_nodes)
  then show ?thesis
    by (intro extend_nodes_self) (simp_all add: bt_get_eq_Some)
qed

definition empty_state :: "hash_fn \<Rightarrow> ExecutionState" where
  "empty_state K = \<lparr>es_accounts = \<lparr>ts_root = EMPTY_ROOT_HASH K, ts_nodes = [], ts_leaves = []\<rparr>,
     es_trie_nodes = [], es_contract_code = [], es_block_hashes = []\<rparr>"

lemma empty_state_ok: "es_ok K R (empty_state K)"
  by (simp add: es_ok_def empty_state_def trie_build_def state_root_def)

definition first_use :: "hash_fn \<Rightarrow> EvmAccount" where
  "first_use K = \<lparr>ea_info = \<lparr>ai_balance = 5, ai_nonce = 1, ai_code_hash = KECCAK_EMPTY K, ai_code = None\<rparr>,
     ea_touched = True, ea_selfdestructed = False, ea_created = False, ea_changed_slots = []\<rparr>"

lemma length_encode_account: "rlp_scalars R \<Longrightarrow> length (encode_account R a) < 2 ^ 62"
proof -
  assume R: "rlp_scalars R"
  have bytes: "length (rlp_string v) \<le> 41" if "length v \<le> 32" for v
    using length_rlp_string [of v] that by simp
  have "length (be_min (unat (ac_nonce a))) \<le> 8" "length (be_min (unat (ac_balance a))) \<le> 32"
    using length_be_min [of "unat (ac_nonce a)" 8] length_be_min [of "unat (ac_balance a)" 32]
      unat_less_exp [of "ac_nonce a"] unat_less_exp [of "ac_balance a"] by simp_all
  then have "length (rlp_u64 R (ac_nonce a) @ rlp_u256 R (ac_balance a) @ rlp_b256 R (ac_storage_root a)
      @ rlp_b256 R (ac_code_hash a)) \<le> 164"
    using R bytes [of "be_min (unat (ac_nonce a))"] bytes [of "be_min (unat (ac_balance a))"]
      bytes [of "to_be_bytes (ac_storage_root a)"] bytes [of "to_be_bytes (ac_code_hash a)"]
    by (simp add: rlp_scalars_def)
  moreover have "length (rlp_list_header R n) \<le> 9" if "n \<le> 164" for n
    using R that length_be_min [of n 8] by (simp add: rlp_scalars_def rlp_format_def rlp_prefix_def)
  ultimately show ?thesis
    by (fastforce simp: encode_account_def Let_def)
qed

lemma first_use_applies:
  assumes "rlp_scalars R" and "cs = [(a, first_use K), (b, c)] \<or> cs = [(b, c), (a, first_use K)]" and "\<not> ea_touched c"
  shows "\<exists>st'. apply_changes K R cs (empty_state K) = Ok st'"
proof -
  let ?account = "\<lparr>ac_nonce = 1, ac_balance = 5, ac_storage_root = EMPTY_ROOT_HASH K, ac_code_hash = KECCAK_EMPTY K\<rparr>"
  let ?leaves = "[(secure_account_key K a, encode_account R ?account)]"
  have ok: "leaves_ok ?leaves"
    using length_encode_account [OF assms(1), of ?account] by (simp add: leaves_ok_def bt_wf_def)
  obtain s where s: "trie_build K R ?leaves = Ok s" "ts_leaves s = ?leaves"
    using trie_build_leaves [OF ok, of K R] trie_build_Ok_leaves by fastforce
  obtain s' where s': "extend_nodes K (ts_nodes s) s = Ok s'"
    using extend_built [OF ok s(1)] by blast
  have storage: "changed_storage K R (empty_state K) a (first_use K) =
      Ok \<lparr>ts_root = EMPTY_ROOT_HASH K, ts_nodes = [], ts_leaves = []\<rparr>"
    by (simp add: changed_storage_def es_account_def empty_state_def default_account_def trie_build_def first_use_def)
  have "fold_res (apply_change K R (empty_state K)) cs (overlay_from_snapshot (es_accounts (empty_state K)), [], []) =
      Ok (\<lparr>ov_base = [], ov_writes = [(secure_account_key K a, Some (encode_account R ?account))]\<rparr>, [], [])"
    using assms(2,3) storage
    by (auto simp: apply_change_def changed_code_def set_account_def account_is_empty_def Let_def
        overlay_from_snapshot_def overlay_new_def, auto simp: empty_state_def first_use_def)
  then show ?thesis
    using s s' decode_encode_account [OF assms(1), of ?account]
    by (simp add: apply_changes_def empty_state_def overlay_commit_def Let_def bt_values_def reach_storage_def)
qed

section \<open>Properties\<close>

text \<open>
  (C27) Every execution state is authenticated: genesis, loading from a store, a transaction's changes
  and recording a block hash all produce states whose account leaves are committed by their root and
  whose trie nodes and contract bodies are stored under their own hashes. A state loaded from a store
  has exactly the root it was asked for.
\<close>

theorem execution_state_authentic:
  "(from_genesis K R allocations = Ok st \<longrightarrow> es_ok K R st)
    \<and> (from_persisted K R root store load_code = Ok st \<longrightarrow> es_ok K R st \<and> state_root st = root)
    \<and> (es_ok K R st \<longrightarrow> apply_changes K R changes st = Ok st' \<longrightarrow> es_ok K R st')
    \<and> (es_ok K R st \<longrightarrow> es_ok K R (insert_block_hash number hash st))"
proof (intro conjI impI)
  show "es_ok K R st'" if "es_ok K R st" "apply_changes K R changes st = Ok st'"
    using that(1) apply_changes_Ok [OF that(2)] by (simp add: es_ok_def)
  show "es_ok K R (insert_block_hash number hash st)" if "es_ok K R st"
    using that by (simp add: es_ok_def insert_block_hash_def state_root_def)
qed (simp_all add: from_genesis_ok from_persisted_ok)

theorem execution_state_authentic_witness:
  "\<exists>st'. from_genesis last_hash scalar_rlp [] = Ok (empty_state last_hash)
     \<and> from_persisted last_hash scalar_rlp (EMPTY_ROOT_HASH last_hash) (memory_store []) (\<lambda>_. Ok None) = Ok (empty_state last_hash)
     \<and> apply_changes last_hash scalar_rlp [(7, first_use last_hash), (8, (first_use last_hash)\<lparr>ea_touched := False\<rparr>)]
         (empty_state last_hash) = Ok st'
     \<and> es_ok last_hash scalar_rlp (empty_state last_hash) \<and> es_ok last_hash scalar_rlp st'
     \<and> es_ok last_hash scalar_rlp (insert_block_hash 3 9 st')"
proof -
  obtain st' where st': "apply_changes last_hash scalar_rlp
      [(7, first_use last_hash), (8, (first_use last_hash)\<lparr>ea_touched := False\<rparr>)] (empty_state last_hash) = Ok st'"
    using first_use_applies [OF scalar_rlp_ok] by fastforce
  have gen: "from_genesis last_hash scalar_rlp [] = Ok (empty_state last_hash)"
    by (simp add: from_genesis_def trie_build_def empty_state_def)
  have pers: "from_persisted last_hash scalar_rlp (EMPTY_ROOT_HASH last_hash) (memory_store []) (\<lambda>_. Ok None) =
      Ok (empty_state last_hash)"
    by (simp add: from_persisted_def collect_leaves_def trie_build_def empty_state_def bt_values_def)
  have start: "es_ok last_hash scalar_rlp (empty_state last_hash)"
    using execution_state_authentic [where st = "empty_state last_hash"] gen by blast
  then have "es_ok last_hash scalar_rlp st'"
    using execution_state_authentic [where st = "empty_state last_hash"] st' by blast
  moreover from this have "es_ok last_hash scalar_rlp (insert_block_hash 3 9 st')"
    using execution_state_authentic [where st = st'] by blast
  ultimately show ?thesis
    using gen pers st' start by (intro exI [of _ st'] conjI)
qed



end
