(* ===== verification/Registry_Safety.thy ===== *)
theory Registry_Safety
  imports Registry_Precompile Execution_Correct
begin

text \<open>
  What the \<open>ChainRegistry\<close> contract guarantees, for every journal that behaves as \<open>revm\<close> documents:
  who can settle a creation deposit and when, that a domain is registered once, and that each
  deposit goes through the states locked, then refunded or burned, at most once.
\<close>

section \<open>Journals\<close>

text \<open>
  The documented behaviour of a journal over the storage, the balances and the logs it holds: a read
  returns the stored word, a write changes one word, a transfer that reports no error moves the
  amount, and nothing else changes.
\<close>

definition journal_ok :: "'c Journal \<Rightarrow> ('c \<Rightarrow> address \<Rightarrow> u256 \<Rightarrow> u256) \<Rightarrow> ('c \<Rightarrow> address \<Rightarrow> nat)
    \<Rightarrow> ('c \<Rightarrow> Log list) \<Rightarrow> bool" where
  "journal_ok J slots bal logs \<longleftrightarrow>
     (\<forall>a k c v c'. j_sload J a k c = Some (v, c') \<longrightarrow>
        v = slots c a k \<and> slots c' = slots c \<and> bal c' = bal c \<and> logs c' = logs c)
     \<and> (\<forall>a k v c c'. j_sstore J a k v c = Some c' \<longrightarrow>
        slots c' = (slots c)(a := (slots c a)(k := v)) \<and> bal c' = bal c \<and> logs c' = logs c)
     \<and> (\<forall>a b v c e c'. j_transfer J a b v c = Some (e, c') \<longrightarrow> slots c' = slots c \<and> logs c' = logs c
        \<and> (e = None \<longrightarrow> unat v \<le> bal c a \<and>
             bal c' = (let paid = (bal c)(a := bal c a - unat v) in paid(b := paid b + unat v))))
     \<and> (\<forall>l c. slots (j_log J l c) = slots c \<and> bal (j_log J l c) = bal c \<and> logs (j_log J l c) = logs c @ [l])"

lemma ok_or_eq_Err: "ok_or e m = Err x \<longleftrightarrow> m = None \<and> x = e"
  by (cases m) auto

lemma registry_sload_Ok:
  assumes "journal_ok J slots bal logs" and "registry_sload J m k c = Ok (v, c')"
  shows "v = slots c CHAIN_REGISTRY_ADDRESS k \<and> slots c' = slots c \<and> bal c' = bal c \<and> logs c' = logs c"
  using assms by (auto simp: journal_ok_def registry_sload_def)

lemma registry_sstore_Ok:
  assumes "journal_ok J slots bal logs" and "registry_sstore J m (k, v) c = Ok c'"
  shows "slots c' = (slots c)(CHAIN_REGISTRY_ADDRESS := (slots c CHAIN_REGISTRY_ADDRESS)(k := v))
    \<and> bal c' = bal c \<and> logs c' = logs c"
  using assms by (auto simp: journal_ok_def registry_sstore_def)

lemma registry_sstores_Ok:
  assumes "journal_ok J slots bal logs"
  shows "fold_res (registry_sstore J m) ws c = Ok c' \<Longrightarrow>
    slots c' = (slots c)(CHAIN_REGISTRY_ADDRESS := fold (\<lambda>(k, v) f. f(k := v)) ws (slots c CHAIN_REGISTRY_ADDRESS))
      \<and> bal c' = bal c \<and> logs c' = logs c"
proof (induction ws arbitrary: c)
  case (Cons w ws)
  obtain k v where w: "w = (k, v)"
    by (cases w)
  obtain d where d: "registry_sstore J m (k, v) c = Ok d" and rest: "fold_res (registry_sstore J m) ws d = Ok c'"
    using Cons.prems by (auto simp: w)
  show ?case
    using Cons.IH [OF rest] registry_sstore_Ok [OF assms d] by (auto simp: w fun_eq_iff)
qed simp

lemma journal_log:
  "journal_ok J slots bal logs \<Longrightarrow>
     slots (j_log J l c) = slots c \<and> bal (j_log J l c) = bal c \<and> logs (j_log J l c) = logs c @ [l]"
  by (simp add: journal_ok_def)

lemma journal_transfer:
  "journal_ok J slots bal logs \<Longrightarrow> j_transfer J a b v c = Some (e, c') \<Longrightarrow> slots c' = slots c \<and> logs c' = logs c
     \<and> (e = None \<longrightarrow> unat v \<le> bal c a \<and>
          bal c' = (let paid = (bal c)(a := bal c a - unat v) in paid(b := paid b + unat v)))"
  unfolding journal_ok_def by blast

section \<open>Settling a deposit\<close>

abbreviation reg :: "('c \<Rightarrow> address \<Rightarrow> u256 \<Rightarrow> u256) \<Rightarrow> 'c \<Rightarrow> u256 \<Rightarrow> u256" where
  "reg slots c \<equiv> slots c CHAIN_REGISTRY_ADDRESS"

definition owner_of :: "u256 \<Rightarrow> address" where
  "owner_of word = from_be_bytes (drop 12 (to_be_bytes word))"

text \<open>What holds before and after a call that settles the deposit of a domain.\<close>

definition settles :: "hash_fn \<Rightarrow> ('c \<Rightarrow> address \<Rightarrow> u256 \<Rightarrow> u256) \<Rightarrow> ('c \<Rightarrow> address \<Rightarrow> nat) \<Rightarrow> CallInputs
    \<Rightarrow> ChainRegistryRuntime \<Rightarrow> DomainId \<Rightarrow> bool \<Rightarrow> 'c \<Rightarrow> 'c \<Rightarrow> bool" where
  "settles K slots bal inputs runtime d burn c c' \<longleftrightarrow>
     (let deposit = reg slots c (deposit_slot K d); owner = owner_of (reg slots c (owner_slot K d));
          recipient = (if burn then 0 else owner);
          paid = (bal c)(CHAIN_REGISTRY_ADDRESS := bal c CHAIN_REGISTRY_ADDRESS - unat deposit) in
      \<not> ci_is_static inputs \<and> \<not> ci_transfers_value inputs
      \<and> reg slots c (deposit_status_slot K d) = 1 \<and> deposit \<noteq> 0
      \<and> (if burn then ci_caller inputs = rt_governance_address runtime
         else reg slots c (deposit_unlock_slot K d) \<le> ucast (rt_consensus_height runtime) \<and> ci_caller inputs = owner)
      \<and> unat deposit \<le> bal c CHAIN_REGISTRY_ADDRESS \<and> bal c' = paid(recipient := paid recipient + unat deposit)
      \<and> slots c' = (slots c)(CHAIN_REGISTRY_ADDRESS := (reg slots c)(deposit_slot K d := 0,
          deposit_status_slot K d := if burn then 3 else 2)))"

lemma deposit_recipient_Ok:
  assumes "journal_ok J slots bal logs" and "deposit_recipient K J inputs runtime d burn c = Ok (decision, c')"
  shows "slots c' = slots c \<and> bal c' = bal c \<and> logs c' = logs c
    \<and> (\<forall>recipient target. decision = Inr (recipient, target) \<longrightarrow>
      (if burn then ci_caller inputs = rt_governance_address runtime \<and> recipient = 0 \<and> target = Burned
       else reg slots c (deposit_unlock_slot K d) \<le> ucast (rt_consensus_height runtime)
         \<and> recipient = owner_of (reg slots c (owner_slot K d)) \<and> ci_caller inputs = recipient \<and> target = Refunded))"
  using assms(2)
  by (auto simp: deposit_recipient_def Let_def owner_of_def not_less split: if_splits
      dest!: registry_sload_Ok [OF assms(1)])

lemma settle_deposit_cases:
  assumes "journal_ok J slots bal logs"
    and "settle_deposit K J finish inputs d burn deposit recipient target c = Ok (r, c')"
  shows "(\<exists>m. r = registry_revert finish inputs m \<and> slots c' = slots c \<and> logs c' = logs c)
    \<or> r = finish \<lparr>po_reverted = False, po_gas = CHAIN_REGISTRY_DEPOSIT_GAS, po_bytes = to_be_bytes d,
            po_reservoir = ci_reservoir inputs\<rparr> (ci_gas_limit inputs)
      \<and> slots c' = (slots c)(CHAIN_REGISTRY_ADDRESS := (reg slots c)(deposit_slot K d := 0,
          deposit_status_slot K d := ucast (deposit_status_u8 target)))
      \<and> unat deposit \<le> bal c CHAIN_REGISTRY_ADDRESS
      \<and> bal c' = (let paid = (bal c)(CHAIN_REGISTRY_ADDRESS := bal c CHAIN_REGISTRY_ADDRESS - unat deposit) in
          paid(recipient := paid recipient + unat deposit))
      \<and> length (logs c') = Suc (length (logs c))"
  using assms(2)
  by (auto simp: settle_deposit_def Let_def journal_log [OF assms(1)] split: if_splits
      dest!: journal_transfer [OF assms(1)] registry_sstore_Ok [OF assms(1)])

lemma deposit_lifecycle_cases:
  assumes ok: "journal_ok J slots bal logs"
    and run: "run_deposit_lifecycle K J finish inputs runtime d burn c = Ok (r, c')"
  shows "(\<exists>m. r = registry_revert finish inputs m \<and> slots c' = slots c \<and> logs c' = logs c)
    \<or> r = finish \<lparr>po_reverted = False, po_gas = CHAIN_REGISTRY_DEPOSIT_GAS, po_bytes = to_be_bytes d,
            po_reservoir = ci_reservoir inputs\<rparr> (ci_gas_limit inputs)
      \<and> settles K slots bal inputs runtime d burn c c' \<and> length (logs c') = Suc (length (logs c))"
proof -
  let ?revert = "\<exists>m. r = registry_revert finish inputs m \<and> slots c' = slots c \<and> logs c' = logs c"
  have "?revert \<or> (\<exists>c2 c3 decision. slots c2 = slots c \<and> bal c2 = bal c \<and> logs c2 = logs c
      \<and> \<not> ci_is_static inputs \<and> \<not> ci_transfers_value inputs
      \<and> reg slots c (deposit_status_slot K d) = 1 \<and> reg slots c (deposit_slot K d) \<noteq> 0
      \<and> deposit_recipient K J inputs runtime d burn c2 = Ok (decision, c3)
      \<and> (case decision of Inl m \<Rightarrow> r = registry_revert finish inputs m \<and> c' = c3
         | Inr (recipient, target) \<Rightarrow>
             settle_deposit K J finish inputs d burn (reg slots c (deposit_slot K d)) recipient target c3 = Ok (r, c')))"
    using run unfolding run_deposit_lifecycle_def
    by (auto split: if_splits dest!: registry_sload_Ok [OF ok]) (force split: sum.splits)+
  then show ?thesis
  proof (elim disjE exE conjE)
    fix c2 c3 decision
    assume same: "slots c2 = slots c" "bal c2 = bal c" "logs c2 = logs c"
      and guards: "\<not> ci_is_static inputs" "\<not> ci_transfers_value inputs"
        "reg slots c (deposit_status_slot K d) = 1" "reg slots c (deposit_slot K d) \<noteq> 0"
      and decide: "deposit_recipient K J inputs runtime d burn c2 = Ok (decision, c3)"
      and settle: "case decision of Inl m \<Rightarrow> r = registry_revert finish inputs m \<and> c' = c3
         | Inr (recipient, target) \<Rightarrow>
             settle_deposit K J finish inputs d burn (reg slots c (deposit_slot K d)) recipient target c3 = Ok (r, c')"
    note rec = deposit_recipient_Ok [OF ok decide]
    show ?thesis
    proof (cases decision)
      case (Inl m)
      then show ?thesis
        using settle rec same by auto
    next
      case (Inr p)
      then obtain recipient target where
        s: "settle_deposit K J finish inputs d burn (reg slots c (deposit_slot K d)) recipient target c3 = Ok (r, c')"
        "decision = Inr (recipient, target)"
        using settle by (cases p) auto
      show ?thesis
        using settle_deposit_cases [OF ok s(1)] rec s(2) same guards
        by (auto simp: settles_def Let_def split: if_splits)
    qed
  qed blast
qed

section \<open>Creating a domain\<close>

text \<open>What holds before and after a call that registers a prepared domain.\<close>

definition registers :: "hash_fn \<Rightarrow> ('c \<Rightarrow> address \<Rightarrow> u256 \<Rightarrow> u256) \<Rightarrow> CallInputs \<Rightarrow> PreparedChainCreation
    \<Rightarrow> bytes \<Rightarrow> 'c \<Rightarrow> 'c \<Rightarrow> bool" where
  "registers K slots inputs p calldata c c' \<longleftrightarrow>
     (let d = pc_descriptor p in
      \<not> ci_is_static inputs \<and> encode_create_chain_call K (pc_request p) = Ok calldata
      \<and> ci_transfer_value inputs = Some (dd_creation_deposit d)
      \<and> reg slots c (descriptor_slot K (dd_parent_domain_id d)) \<noteq> 0
      \<and> reg slots c (descriptor_slot K (dd_domain_id d)) = 0
      \<and> reg slots c (chain_id_slot K (dd_evm_chain_id d)) = 0
      \<and> slots c' = (slots c)(CHAIN_REGISTRY_ADDRESS :=
          fold (\<lambda>(k, v) f. f(k := v)) (creation_storage_writes K p) (reg slots c)))"

lemma create_lookups_Ok:
  assumes "journal_ok J slots bal logs" and "create_lookups K J d c = Ok (refusal, c')"
  shows "slots c' = slots c \<and> bal c' = bal c \<and> logs c' = logs c
    \<and> (refusal = None \<longleftrightarrow> reg slots c (descriptor_slot K (dd_parent_domain_id d)) \<noteq> 0
        \<and> reg slots c (descriptor_slot K (dd_domain_id d)) = 0 \<and> reg slots c (chain_id_slot K (dd_evm_chain_id d)) = 0)"
  using assms(2) by (auto simp: create_lookups_def split: if_splits dest!: registry_sload_Ok [OF assms(1)])

lemma create_chain_cases:
  assumes ok: "journal_ok J slots bal logs"
    and run: "run_create_chain K J finish inputs runtime calldata c = Ok (r, c')"
  shows "(\<exists>m. r = registry_revert finish inputs m \<and> slots c' = slots c \<and> bal c' = bal c \<and> logs c' = logs c)
    \<or> (\<exists>p. rt_prepared_creation runtime = Some p \<and> registers K slots inputs p calldata c c'
        \<and> bal c' = bal c \<and> logs c' = logs c @ [chain_created_log K p]
        \<and> r = finish \<lparr>po_reverted = False, po_gas = CHAIN_REGISTRY_CREATE_GAS,
            po_bytes = to_be_bytes (dd_domain_id (pc_descriptor p)), po_reservoir = ci_reservoir inputs\<rparr> (ci_gas_limit inputs))"
proof (cases "rt_prepared_creation runtime")
  case None
  then show ?thesis
    using run by (auto simp: run_create_chain_def)
next
  case (Some p)
  note run = run [unfolded run_create_chain_def Some option.case Let_def]
  show ?thesis
  proof (cases "ci_is_static inputs \<or> encode_create_chain_call K (pc_request p) \<noteq> Ok calldata
      \<or> ci_transfer_value inputs \<noteq> Some (dd_creation_deposit (pc_descriptor p))")
    case True
    then show ?thesis
      using run by (auto split: if_splits)
  next
    case False
    then obtain refusal c1 where look: "create_lookups K J (pc_descriptor p) c = Ok (refusal, c1)"
      using run by auto
    note l = create_lookups_Ok [OF ok look]
    show ?thesis
    proof (cases refusal)
      case None
      then obtain c2 where "fold_res (registry_sstore J ''ChainRegistry storage update failed'') (creation_storage_writes K p) c1 = Ok c2"
        "c' = j_log J (chain_created_log K p) c2" "r = finish \<lparr>po_reverted = False, po_gas = CHAIN_REGISTRY_CREATE_GAS,
            po_bytes = to_be_bytes (dd_domain_id (pc_descriptor p)), po_reservoir = ci_reservoir inputs\<rparr> (ci_gas_limit inputs)"
        using run False look by auto
      then show ?thesis
        using registry_sstores_Ok [OF ok] journal_log [OF ok] l None False Some by (auto simp: registers_def Let_def)
    next
      case (Some m)
      then show ?thesis
        using run False look l by auto
    qed
  qed
qed

section \<open>The deposit of a domain as a state machine\<close>

text \<open>No deposit, locked, refunded, burned: the words of the status slot.\<close>

inductive deposit_step :: "u256 \<Rightarrow> u256 \<Rightarrow> bool" where
  stay: "deposit_step s s"
| lock: "deposit_step 0 1"
| refund: "deposit_step 1 2"
| burn: "deposit_step 1 3"

inductive_cases deposit_stepE: "deposit_step s t"

lemma deposit_final: "deposit_step\<^sup>*\<^sup>* s t \<Longrightarrow> s = 2 \<or> s = 3 \<Longrightarrow> t = s"
  by (induction rule: rtranclp_induct) (auto elim: deposit_stepE)

definition deposit_status :: "hash_fn \<Rightarrow> ('c \<Rightarrow> address \<Rightarrow> u256 \<Rightarrow> u256) \<Rightarrow> 'c \<Rightarrow> DomainId \<Rightarrow> u256" where
  "deposit_status K slots c d = reg slots c (deposit_status_slot K d)"

text \<open>A domain with a deposit is registered.\<close>

definition registry_inv :: "hash_fn \<Rightarrow> ('c \<Rightarrow> address \<Rightarrow> u256 \<Rightarrow> u256) \<Rightarrow> DomainId set \<Rightarrow> 'c \<Rightarrow> bool" where
  "registry_inv K slots D c \<longleftrightarrow>
     (\<forall>d \<in> D. deposit_status K slots c d \<noteq> 0 \<longrightarrow> reg slots c (descriptor_slot K d) \<noteq> 0)"

text \<open>The calls considered: they name domains of \<open>D\<close> and chain ids of \<open>C\<close>.\<close>

definition call_within :: "hash_fn \<Rightarrow> DomainId set \<Rightarrow> u64 set \<Rightarrow> ChainRegistryRuntime option \<times> CallInputs \<Rightarrow> bool" where
  "call_within K D C = (\<lambda>(registry, inputs).
     (\<forall>runtime p. registry = Some runtime \<longrightarrow> rt_prepared_creation runtime = Some p \<longrightarrow>
        dd_domain_id (pc_descriptor p) \<in> D \<and> dd_evm_chain_id (pc_descriptor p) \<in> C \<and> pc_descriptor_hash p \<noteq> 0)
     \<and> (\<forall>d. decode_refund_deposit_call K (ci_input inputs) = Some d \<longrightarrow> d \<in> D)
     \<and> (\<forall>d. decode_burn_deposit_call K (ci_input inputs) = Some d \<longrightarrow> d \<in> D))"

definition slots_distinct :: "hash_fn \<Rightarrow> DomainId set \<Rightarrow> u64 set \<Rightarrow> bool" where
  "slots_distinct K D C \<longleftrightarrow> C \<noteq> {} \<and> inj_on K (\<Union>d \<in> D. \<Union>x \<in> C. set (slot_preimages d x))"

lemma slots_eq:
  assumes "slots_distinct K D C" and "d \<in> D" and "e \<in> D" and "x \<in> C"
  shows "deposit_status_slot K d = deposit_status_slot K e \<longleftrightarrow> d = e"
    and "descriptor_slot K d = descriptor_slot K e \<longleftrightarrow> d = e"
    and "deposit_status_slot K d \<noteq> descriptor_slot K e" and "deposit_status_slot K d \<noteq> deposit_slot K e"
    and "deposit_status_slot K d \<noteq> chain_id_slot K x" and "deposit_status_slot K d \<noteq> creation_height_slot K e"
    and "deposit_status_slot K d \<noteq> deposit_unlock_slot K e" and "deposit_status_slot K d \<noteq> owner_slot K e"
    and "descriptor_slot K d \<noteq> deposit_slot K e" and "descriptor_slot K d \<noteq> deposit_status_slot K e"
    and "descriptor_slot K d \<noteq> chain_id_slot K x" and "descriptor_slot K d \<noteq> creation_height_slot K e"
    and "descriptor_slot K d \<noteq> deposit_unlock_slot K e" and "descriptor_slot K d \<noteq> owner_slot K e"
proof -
  let ?S = "\<Union>d \<in> D. \<Union>x \<in> C. set (slot_preimages d x)"
  have eq: "K a = K b \<longleftrightarrow> a = b" if "a \<in> set (slot_preimages d x)" "b \<in> set (slot_preimages e x)" for a b
  proof (rule inj_on_eq_iff)
    show "inj_on K ?S"
      using assms(1) by (simp add: slots_distinct_def)
    show "a \<in> ?S" "b \<in> ?S"
      using that assms(2-4) by blast+
  qed
  note eqs = eq [unfolded slot_preimages_def, simplified]
  show "deposit_status_slot K d = deposit_status_slot K e \<longleftrightarrow> d = e"
    and "descriptor_slot K d = descriptor_slot K e \<longleftrightarrow> d = e"
    and "deposit_status_slot K d \<noteq> descriptor_slot K e" and "deposit_status_slot K d \<noteq> deposit_slot K e"
    and "deposit_status_slot K d \<noteq> chain_id_slot K x" and "deposit_status_slot K d \<noteq> creation_height_slot K e"
    and "deposit_status_slot K d \<noteq> deposit_unlock_slot K e" and "deposit_status_slot K d \<noteq> owner_slot K e"
    and "descriptor_slot K d \<noteq> deposit_slot K e" and "descriptor_slot K d \<noteq> deposit_status_slot K e"
    and "descriptor_slot K d \<noteq> chain_id_slot K x" and "descriptor_slot K d \<noteq> creation_height_slot K e"
    and "descriptor_slot K d \<noteq> deposit_unlock_slot K e" and "descriptor_slot K d \<noteq> owner_slot K e"
    by (simp_all add: registry_slots eqs) (simp_all add: registry_tags ascii_def to_be_bytes_inject)
qed

lemma settles_step:
  assumes "slots_distinct K D C" and "d \<in> D" and "settles K slots bal inputs runtime d burn c c'"
    and "registry_inv K slots D c"
  shows "registry_inv K slots D c' \<and> (\<forall>e \<in> D. deposit_step (deposit_status K slots c e) (deposit_status K slots c' e))"
proof -
  obtain x where x: "x \<in> C"
    using assms(1) by (auto simp: slots_distinct_def)
  have at: "reg slots c' = (reg slots c)(deposit_slot K d := 0, deposit_status_slot K d := if burn then 3 else 2)"
    and was: "deposit_status K slots c d = 1"
    using assms(3) by (auto simp: settles_def Let_def deposit_status_def)
  note eq = slots_eq [OF assms(1) _ assms(2) x]
  have "deposit_status K slots c' e = (if e = d then if burn then 3 else 2 else deposit_status K slots c e)"
      "reg slots c' (descriptor_slot K e) = reg slots c (descriptor_slot K e)" if "e \<in> D" for e
    using eq [OF that] by (auto simp: deposit_status_def at)
  then show ?thesis
    using was assms(4) by (auto simp: registry_inv_def intro: deposit_step.intros)
qed

lemma registers_step:
  assumes "slots_distinct K D C" and "dd_domain_id (pc_descriptor p) \<in> D" and "dd_evm_chain_id (pc_descriptor p) \<in> C"
    and "pc_descriptor_hash p \<noteq> 0" and "registers K slots inputs p calldata c c'" and "registry_inv K slots D c"
  shows "registry_inv K slots D c' \<and> (\<forall>e \<in> D. deposit_step (deposit_status K slots c e) (deposit_status K slots c' e))"
proof -
  let ?d = "dd_domain_id (pc_descriptor p)"
  have at: "reg slots c' = fold (\<lambda>(k, v) f. f(k := v)) (creation_storage_writes K p) (reg slots c)"
    and "reg slots c (descriptor_slot K ?d) = 0"
    using assms(5) by (auto simp: registers_def Let_def)
  then have was: "deposit_status K slots c ?d = 0"
    using assms(2,6) by (auto simp: registry_inv_def)
  note eq = slots_eq [OF assms(1) _ assms(2,3)]
  have "deposit_status K slots c' e = (if e = ?d then 1 else deposit_status K slots c e)"
      "reg slots c' (descriptor_slot K e) = (if e = ?d then pc_descriptor_hash p else reg slots c (descriptor_slot K e))"
    if "e \<in> D" for e
    using eq [OF that] by (auto simp: deposit_status_def at creation_storage_writes_def Let_def)
  then show ?thesis
    using was assms(4,6) by (auto simp: registry_inv_def intro: deposit_step.intros)
qed

lemma registry_call_step:
  assumes ok: "journal_ok J slots bal logs" and D: "slots_distinct K D C" and inv: "registry_inv K slots D c"
    and within: "call_within K D C (registry, inputs)"
    and run: "run_chain_registry K J finish registry inputs c = Ok (r, c')"
  shows "registry_inv K slots D c' \<and> (\<forall>e \<in> D. deposit_step (deposit_status K slots c e) (deposit_status K slots c' e))"
proof -
  have same: ?thesis if "slots c' = slots c"
    using that inv by (simp add: registry_inv_def deposit_status_def stay)
  consider "slots c' = slots c"
    | runtime where "registry = Some runtime" "run_create_chain K J finish inputs runtime (ci_input inputs) c = Ok (r, c')"
    | runtime d burn where "d \<in> D" "run_deposit_lifecycle K J finish inputs runtime d burn c = Ok (r, c')"
    using run within
    by (auto simp: run_chain_registry_def call_within_def Let_def split: option.splits if_splits)
  then show ?thesis
  proof cases
    case 2
    then show ?thesis
      using create_chain_cases [OF ok 2(2)] same within registers_step [OF D _ _ _ _ inv]
      by (fastforce simp: call_within_def)
  next
    case 3
    then show ?thesis
      using deposit_lifecycle_cases [OF ok 3(2)] same settles_step [OF D 3(1) _ inv] by blast
  qed (rule same)
qed

text \<open>A sequence of calls, each on the context the one before it left.\<close>

definition registry_calls :: "hash_fn \<Rightarrow> 'c Journal \<Rightarrow> (PrecompileOutput \<Rightarrow> u64 \<Rightarrow> 'r)
    \<Rightarrow> (ChainRegistryRuntime option \<times> CallInputs) list \<Rightarrow> 'c \<Rightarrow> ('c, fault) result" where
  "registry_calls K J finish = fold_res (\<lambda>(registry, inputs) c.
     bind_res (run_chain_registry K J finish registry inputs c) (\<lambda>(r, c). Ok c))"

lemma registry_calls_steps:
  assumes "journal_ok J slots bal logs" and "slots_distinct K D C"
  shows "registry_calls K J finish calls c = Ok c' \<Longrightarrow> list_all (call_within K D C) calls \<Longrightarrow> registry_inv K slots D c \<Longrightarrow>
    registry_inv K slots D c' \<and> (\<forall>d \<in> D. deposit_step\<^sup>*\<^sup>* (deposit_status K slots c d) (deposit_status K slots c' d))"
proof (induction calls arbitrary: c)
  case (Cons call calls)
  obtain registry inputs where call: "call = (registry, inputs)"
    by (cases call)
  obtain r c1 where step: "run_chain_registry K J finish registry inputs c = Ok (r, c1)"
    and rest: "registry_calls K J finish calls c1 = Ok c'"
    using Cons.prems(1) by (auto simp: registry_calls_def call)
  have one: "registry_inv K slots D c1"
      "\<forall>d \<in> D. deposit_step (deposit_status K slots c d) (deposit_status K slots c1 d)"
    using registry_call_step [OF assms Cons.prems(3) _ step] Cons.prems(2) by (auto simp: call)
  then show ?case
    using Cons.IH [OF rest] Cons.prems(2) by (auto intro: converse_rtranclp_into_rtranclp)
qed (simp add: registry_calls_def)

section \<open>A journal\<close>

text \<open>The plain journal: a storage, balances and logs, without database errors.\<close>

type_synonym plain = "(u256 \<Rightarrow> u256) \<times> (address \<Rightarrow> nat) \<times> Log list"

definition plain_journal :: "plain Journal" where
  "plain_journal = \<lparr>
     j_sload = (\<lambda>a k (s, b, l). Some (if a = CHAIN_REGISTRY_ADDRESS then s k else 0, (s, b, l))),
     j_sstore = (\<lambda>a k v (s, b, l). if a = CHAIN_REGISTRY_ADDRESS then Some (s(k := v), b, l) else None),
     j_transfer = (\<lambda>a to v (s, b, l).
       if unat v \<le> b a then Some (None, (s, (b(a := b a - unat v))(to := (b(a := b a - unat v)) to + unat v), l))
       else Some (Some ''OutOfFunds'', (s, b, l))),
     j_log = (\<lambda>x (s, b, l). (s, b, l @ [x]))\<rparr>"

definition plain_slots :: "plain \<Rightarrow> address \<Rightarrow> u256 \<Rightarrow> u256" where
  "plain_slots = (\<lambda>(s, b, l) a k. if a = CHAIN_REGISTRY_ADDRESS then s k else 0)"

lemma plain_journal_ok: "journal_ok plain_journal plain_slots (fst \<circ> snd) (snd \<circ> snd)"
  by (auto simp: journal_ok_def plain_journal_def plain_slots_def fun_eq_iff Let_def split: if_splits)

section \<open>Reading a registration back\<close>

lemma owner_of_address: "owner_of (ucast (a :: address)) = a"
proof -
  have "from_be_bytes (replicate 12 0 @ to_be_bytes a) = (ucast a :: u256)"
    using unat_less_exp [of a]
    by (simp add: from_be_bytes_def be_to_nat_zeros to_be_bytes_def be_to_nat_be_of_nat unsigned_ucast_eq)
  then have "to_be_bytes (ucast a :: u256) = replicate 12 0 @ to_be_bytes a"
    using to_from_be_bytes [where 'a = 256, of "replicate 12 0 @ to_be_bytes a"] by simp
  then show ?thesis
    by (simp add: owner_of_def)
qed

lemma registration_read_back:
  assumes "registers K slots inputs p calldata c c'"
    and "inj_on K (set (slot_preimages (dd_domain_id (pc_descriptor p)) (dd_evm_chain_id (pc_descriptor p))))"
    and "(k, v) \<in> set (creation_storage_writes K p)"
  shows "reg slots c' k = v"
proof -
  have "distinct (slot_preimages (dd_domain_id (pc_descriptor p)) (dd_evm_chain_id (pc_descriptor p)))"
    by (simp add: slot_preimages_def registry_tags ascii_def)
  then have "distinct (map fst (creation_storage_writes K p))"
    using assms(2) by (simp add: creation_slots distinct_map)
  then show ?thesis
    using assms(1,3) fold_upd_distinct map_of_is_SomeI by (fastforce simp: registers_def Let_def)
qed

text \<open>What the registry holds for a registered domain.\<close>

definition holds_registration :: "hash_fn \<Rightarrow> ('c \<Rightarrow> address \<Rightarrow> u256 \<Rightarrow> u256) \<Rightarrow> PreparedChainCreation \<Rightarrow> 'c \<Rightarrow> bool" where
  "holds_registration K slots p c \<longleftrightarrow>
     (let d = pc_descriptor p; id = dd_domain_id d in
      reg slots c (descriptor_slot K id) = pc_descriptor_hash p
      \<and> reg slots c (chain_id_slot K (dd_evm_chain_id d)) = id
      \<and> reg slots c (creation_height_slot K id) = ucast (pc_creation_height p)
      \<and> reg slots c (deposit_slot K id) = dd_creation_deposit d
      \<and> reg slots c (deposit_unlock_slot K id) = ucast (pc_deposit_unlock_height p)
      \<and> owner_of (reg slots c (owner_slot K id)) = dd_owner d
      \<and> reg slots c (deposit_status_slot K id) = 1)"

lemma registers_holds:
  assumes "registers K slots inputs p calldata c c'"
    and "inj_on K (set (slot_preimages (dd_domain_id (pc_descriptor p)) (dd_evm_chain_id (pc_descriptor p))))"
  shows "holds_registration K slots p c'"
  unfolding holds_registration_def Let_def
  using registration_read_back [OF assms, of "owner_slot K (dd_domain_id (pc_descriptor p))" "ucast (dd_owner (pc_descriptor p))"]
  by (auto simp: owner_of_address creation_storage_writes_def Let_def intro!: registration_read_back [OF assms])

lemma prepared_encodes:
  "prepare_chain_creation K request net tx joint root deposit height = Ok p \<Longrightarrow>
     \<exists>bs. encode_create_chain_call K (pc_request p) = Ok bs"
  by (auto simp: prepare_chain_creation_def encode_create_chain_call_def Let_def if_Err_exact
      normalize_name_idem normalize_symbol_idem)

lemma create_lookups_no_panic: "create_lookups K J d c \<noteq> Err (Panic m)"
  by (auto simp: create_lookups_def registry_sload_def bind_res_eq_Err ok_or_eq_Err split: prod.splits)

lemma fold_res_sstore_no_panic: "fold_res (registry_sstore J m) ws c \<noteq> Err (Panic n)"
  by (induction ws arbitrary: c) (auto simp: registry_sstore_def bind_res_eq_Err ok_or_eq_Err split_beta)

section \<open>Concrete calls\<close>

definition deposit_hash :: hash_fn where
  "deposit_hash bs =
     (if bs = domain_id_preimage 1 7 2 then 11
      else if bs = REFUND_DEPOSIT_ABI_SIGNATURE then from_be_bytes ([1, 0, 0, 0] @ replicate 28 0)
      else if bs = BURN_DEPOSIT_ABI_SIGNATURE then from_be_bytes ([2, 0, 0, 0] @ replicate 28 0)
      else if bs = CREATE_CHAIN_ABI_SIGNATURE then from_be_bytes ([3, 0, 0, 0] @ replicate 28 0)
      else sample_slot_hash bs)"

lemma deposit_selectors:
  "refund_deposit_selector deposit_hash = [1, 0, 0, 0]" "burn_deposit_selector deposit_hash = [2, 0, 0, 0]"
  "create_chain_selector deposit_hash = [3, 0, 0, 0]"
  by (simp_all add: refund_deposit_selector_def burn_deposit_selector_def create_chain_selector_def selector_def
      deposit_hash_def REFUND_DEPOSIT_ABI_SIGNATURE_def BURN_DEPOSIT_ABI_SIGNATURE_def CREATE_CHAIN_ABI_SIGNATURE_def
      ascii_def domain_id_preimage_def DOMAIN_ID_TAG_def)

lemma deposit_hash_slots: "distinct (map deposit_hash (slot_preimages 11 1))"
proof -
  have "map deposit_hash (slot_preimages 11 1) = map sample_slot_hash (slot_preimages 11 1)"
    by (simp add: slot_preimages_def deposit_hash_def registry_tags ascii_def REFUND_DEPOSIT_ABI_SIGNATURE_def
        BURN_DEPOSIT_ABI_SIGNATURE_def CREATE_CHAIN_ABI_SIGNATURE_def domain_id_preimage_def DOMAIN_ID_TAG_def)
  then show ?thesis
    using sample_slot_hash_distinct by (simp only: map_append distinct_append)
qed

lemma deposit_hash_distinct: "slots_distinct deposit_hash {11} {1}"
  using deposit_hash_slots by (simp add: slots_distinct_def distinct_map)

text \<open>Domain 11 has a locked deposit of ten units, owned by account nine, refundable from height four.\<close>

definition locked_state :: plain where
  "locked_state = ((\<lambda>_. 0)(descriptor_slot deposit_hash 11 := 6, deposit_slot deposit_hash 11 := 10,
       deposit_unlock_slot deposit_hash 11 := 4, owner_slot deposit_hash 11 := 9, deposit_status_slot deposit_hash 11 := 1),
     (\<lambda>_. 0)(CHAIN_REGISTRY_ADDRESS := 10), [])"

definition sample_call :: "bytes \<Rightarrow> CallInputs" where
  "sample_call input = \<lparr>ci_bytecode_address = CHAIN_REGISTRY_ADDRESS, ci_caller = 9, ci_input = input,
     ci_is_static = False, ci_transfer_value = None, ci_transfers_value = False, ci_gas_limit = 200000, ci_reservoir = 0\<rparr>"

definition sample_runtime :: ChainRegistryRuntime where
  "sample_runtime = \<lparr>rt_root_domain_id = 2, rt_executing_domain_id = 2, rt_consensus_height = 7,
     rt_governance_address = 9, rt_prepared_creation = None\<rparr>"

lemma locked_slots:
  "deposit_slot deposit_hash 11 \<noteq> deposit_status_slot deposit_hash 11"
  "deposit_slot deposit_hash 11 \<noteq> deposit_unlock_slot deposit_hash 11"
  "deposit_slot deposit_hash 11 \<noteq> owner_slot deposit_hash 11"
  "deposit_unlock_slot deposit_hash 11 \<noteq> deposit_status_slot deposit_hash 11"
  "deposit_unlock_slot deposit_hash 11 \<noteq> owner_slot deposit_hash 11"
  "owner_slot deposit_hash 11 \<noteq> deposit_status_slot deposit_hash 11"
  "descriptor_slot deposit_hash 11 \<noteq> deposit_status_slot deposit_hash 11"
  "descriptor_slot deposit_hash 11 \<noteq> deposit_slot deposit_hash 11"
  "descriptor_slot deposit_hash 11 \<noteq> deposit_unlock_slot deposit_hash 11"
  "descriptor_slot deposit_hash 11 \<noteq> owner_slot deposit_hash 11"
  using deposit_hash_slots by (auto simp: slot_preimages_def registry_slots)

lemma refund_locked:
  "\<exists>r c'. run_deposit_lifecycle deposit_hash plain_journal (\<lambda>output _. output) (sample_call input) sample_runtime 11 False locked_state = Ok (r, c')
     \<and> plain_slots c' CHAIN_REGISTRY_ADDRESS (deposit_status_slot deposit_hash 11) = 2 \<and> \<not> po_reverted r"
proof -
  have "owner_of 9 = 9"
    using owner_of_address [of 9] by simp
  then show ?thesis
    using locked_slots
    by (simp add: run_deposit_lifecycle_def deposit_recipient_def settle_deposit_def registry_sload_def registry_sstore_def
        plain_journal_def locked_state_def sample_call_def sample_runtime_def plain_slots_def owner_of_def Let_def)
qed

text \<open>Parent domain seven is registered; domain 11 with chain id one is prepared.\<close>

definition parent_state :: plain where
  "parent_state = ((\<lambda>_. 0)(descriptor_slot deposit_hash 7 := 6), (\<lambda>_. 0), [])"

definition create_request :: CreateChainRequest where
  "create_request = sample_request\<lparr>cr_evm_chain_id := 1\<rparr>"

definition create_inputs :: "bytes \<Rightarrow> CallInputs" where
  "create_inputs bs = (sample_call bs)\<lparr>ci_transfer_value := Some MIN_CREATION_DEPOSIT\<rparr>"

lemma create_request_prepared:
  "\<exists>p. prepare_chain_creation deposit_hash create_request 1 2 3 4 MIN_CREATION_DEPOSIT 10 = Ok p
     \<and> dd_domain_id (pc_descriptor p) = 11 \<and> dd_evm_chain_id (pc_descriptor p) = 1
     \<and> dd_parent_domain_id (pc_descriptor p) = 7 \<and> dd_creation_deposit (pc_descriptor p) = MIN_CREATION_DEPOSIT"
proof -
  have meta: "normalize_name (cr_name create_request) = Ok (ascii ''Arbor games'')"
      "normalize_symbol (cr_symbol create_request) = Ok (ascii ''AGX'')" "validate_request create_request = Ok ()"
    using sample_request_metadata by (simp_all add: create_request_def validate_request_Ok)
  have "derive_domain_id deposit_hash 1 (cr_parent_domain_id create_request) 2 = 11"
    by (simp add: derive_domain_id_def deposit_hash_def create_request_def sample_request_def)
  moreover have "checked_add 10 CREATION_DEPOSIT_LOCK_BLOCKS = Some 110"
    by (simp add: checked_add_def CREATION_DEPOSIT_LOCK_BLOCKS_def)
  ultimately show ?thesis
    using prepare_chain_creation_run [OF meta, of deposit_hash 1 2 3 4 MIN_CREATION_DEPOSIT 10]
    by (auto simp: created_descriptor_def create_request_def sample_request_def)
qed

lemma parent_slots:
  "descriptor_slot deposit_hash 11 \<noteq> descriptor_slot deposit_hash 7"
  "chain_id_slot deposit_hash 1 \<noteq> descriptor_slot deposit_hash 7"
  by (simp_all add: registry_slots deposit_hash_def sample_slot_hash_def registry_tags ascii_def last_to_be_bytes
      slot_key_nonempty domain_id_preimage_def DOMAIN_ID_TAG_def REFUND_DEPOSIT_ABI_SIGNATURE_def
      BURN_DEPOSIT_ABI_SIGNATURE_def CREATE_CHAIN_ABI_SIGNATURE_def)

lemma plain_sstores: "\<exists>s. fold_res (registry_sstore plain_journal m) ws (f, b, l) = Ok (s, b, l)"
  by (induction ws arbitrary: f) (auto simp: registry_sstore_def plain_journal_def)

lemma create_runs:
  assumes "dd_domain_id (pc_descriptor p) = 11" and "dd_evm_chain_id (pc_descriptor p) = 1"
    and "dd_parent_domain_id (pc_descriptor p) = 7" and "dd_creation_deposit (pc_descriptor p) = MIN_CREATION_DEPOSIT"
    and "encode_create_chain_call deposit_hash (pc_request p) = Ok bs"
  shows "\<exists>r c'. run_create_chain deposit_hash plain_journal (\<lambda>output _. output) (create_inputs bs)
    (sample_runtime\<lparr>rt_prepared_creation := Some p\<rparr>) bs parent_state = Ok (r, c') \<and> \<not> po_reverted r"
proof -
  have "create_lookups deposit_hash plain_journal (pc_descriptor p) parent_state = Ok (None, parent_state)"
    using assms(1-3) parent_slots
    by (simp add: create_lookups_def registry_sload_def plain_journal_def parent_state_def)
  moreover obtain s where "fold_res (registry_sstore plain_journal ''ChainRegistry storage update failed'')
      (creation_storage_writes deposit_hash p) parent_state = Ok (s, (\<lambda>_. 0), [])"
    using plain_sstores unfolding parent_state_def by blast
  ultimately show ?thesis
    using assms(4,5) by (simp add: run_create_chain_def create_inputs_def sample_call_def Let_def plain_journal_def)
qed

section \<open>Properties\<close>





text \<open>
  (C31) A \<open>createChain\<close> call on a prepared creation never panics. It reverts without an effect, or it
  registers the domain: the call data is the canonical encoding, the call carries exactly the
  deposit, the parent is registered, the domain and its chain id are not; afterwards the registry
  holds the descriptor hash, the owner of the chain id, the locked deposit with its unlock height and
  its owner, and one event is logged.
\<close>

theorem create_chain_registers:
  assumes "journal_ok J slots bal logs"
    and "prepare_chain_creation K request net tx joint root deposit height = Ok p"
    and "rt_prepared_creation runtime = Some p"
    and "inj_on K (set (slot_preimages (dd_domain_id (pc_descriptor p)) (dd_evm_chain_id (pc_descriptor p))))"
  shows "run_create_chain K J finish inputs runtime calldata c \<noteq> Err (Panic m)
    \<and> (run_create_chain K J finish inputs runtime calldata c = Ok (r, c') \<longrightarrow>
        (\<exists>m. r = registry_revert finish inputs m \<and> slots c' = slots c \<and> bal c' = bal c \<and> logs c' = logs c)
        \<or> registers K slots inputs p calldata c c' \<and> logs c' = logs c @ [chain_created_log K p]
          \<and> holds_registration K slots p c')"
proof (intro conjI impI)
  obtain bs where "encode_create_chain_call K (pc_request p) = Ok bs"
    using prepared_encodes [OF assms(2)] by blast
  then show "run_create_chain K J finish inputs runtime calldata c \<noteq> Err (Panic m)"
    using assms(3) fold_res_sstore_no_panic [of J _ "creation_storage_writes K p"] create_lookups_no_panic [of K J]
    by (auto simp: run_create_chain_def Let_def bind_res_eq_Err split: option.splits if_splits)
  assume run: "run_create_chain K J finish inputs runtime calldata c = Ok (r, c')"
  show "(\<exists>m. r = registry_revert finish inputs m \<and> slots c' = slots c \<and> bal c' = bal c \<and> logs c' = logs c)
        \<or> registers K slots inputs p calldata c c' \<and> logs c' = logs c @ [chain_created_log K p]
          \<and> holds_registration K slots p c'"
    using create_chain_cases [OF assms(1) run, unfolded assms(3) option.inject] registers_holds [OF _ assms(4), of slots] by blast
qed

theorem create_chain_registers_witness:
  "\<exists>p bs r c'. prepare_chain_creation deposit_hash create_request 1 2 3 4 MIN_CREATION_DEPOSIT 10 = Ok p
     \<and> run_create_chain deposit_hash plain_journal (\<lambda>output _. output) (create_inputs bs)
         (sample_runtime\<lparr>rt_prepared_creation := Some p\<rparr>) bs parent_state = Ok (r, c')
     \<and> holds_registration deposit_hash plain_slots p c'"
proof -
  obtain p where p: "prepare_chain_creation deposit_hash create_request 1 2 3 4 MIN_CREATION_DEPOSIT 10 = Ok p"
      "dd_domain_id (pc_descriptor p) = 11" "dd_evm_chain_id (pc_descriptor p) = 1"
      "dd_parent_domain_id (pc_descriptor p) = 7" "dd_creation_deposit (pc_descriptor p) = MIN_CREATION_DEPOSIT"
    using create_request_prepared by blast
  obtain bs where bs: "encode_create_chain_call deposit_hash (pc_request p) = Ok bs"
    using prepared_encodes [OF p(1)] by blast
  let ?rt = "sample_runtime\<lparr>rt_prepared_creation := Some p\<rparr>"
  obtain r c' where run: "run_create_chain deposit_hash plain_journal (\<lambda>output _. output) (create_inputs bs) ?rt bs parent_state = Ok (r, c')"
      and ok: "\<not> po_reverted r"
    using create_runs [OF p(2-5) bs] by blast
  have inj: "inj_on deposit_hash (set (slot_preimages (dd_domain_id (pc_descriptor p)) (dd_evm_chain_id (pc_descriptor p))))"
    using deposit_hash_slots p(2,3) by (simp add: distinct_map)
  have "rt_prepared_creation ?rt = Some p"
    by simp
  then have "holds_registration deposit_hash plain_slots p c'"
    using create_chain_registers [OF plain_journal_ok p(1) _ inj, THEN conjunct2, rule_format, OF _ run] ok
    by (auto simp: registry_revert_def)
  then show ?thesis
    using run p(1) by blast
qed

end
