(* ===== verification/Domain_Executor.thy ===== *)
theory Domain_Executor
  imports Registry_Safety
begin

text \<open>
  \<open>arbor-executor/src/lib.rs\<close>: the execution of one ordered batch of a domain, with its receipts,
  roots, gas accounting and the domains it creates. Keccak-256, secp256k1, \<open>alloy_rlp\<close>, \<open>revm\<close>, the
  ordered trie root and the bloom filter are parameters. A \<open>reason\<close> text is the error it prints.
\<close>

section \<open>Data\<close>

record exec_ops =
  xo_rlp :: rlp
  xo_crypto :: crypto_ops
  xo_eth_warm :: "EvmRevision \<Rightarrow> address set"
  xo_transact :: transact
  xo_ordered_root :: "bytes list \<Rightarrow> b256"
  xo_accrue_raw_log :: "address \<Rightarrow> b256 list \<Rightarrow> bloom \<Rightarrow> bloom"
  xo_accrue_bloom :: "bloom \<Rightarrow> bloom \<Rightarrow> bloom"

abbreviation xo_keccak :: "exec_ops \<Rightarrow> hash_fn" where
  "xo_keccak X \<equiv> co_keccak (xo_crypto X)"

definition EXECUTOR_MAX_TRANSACTIONS :: nat where
  "EXECUTOR_MAX_TRANSACTIONS = 10000"

record ChainRegistryExecutionContext =
  rx_network_id :: NetworkId
  rx_root_domain_id :: DomainId
  rx_executing_domain_id :: DomainId
  rx_creation_height :: u64
  rx_governance_address :: address
  rx_finalized_heads :: "(DomainId, b256) btree_map"

record CreatedDomain =
  cd_descriptor :: DomainDescriptor
  cd_genesis_state :: ExecutionState

record ExecutedTransaction =
  et_transaction_hash :: b256
  et_sender :: address
  et_success :: bool
  et_gas_used :: u64
  et_contract_address :: "address option"
  et_output :: bytes

record DomainExecutionResult =
  dr_state :: ExecutionState
  dr_transactions_root :: b256
  dr_receipts_root :: b256
  dr_logs_bloom :: bloom
  dr_gas_used :: u64
  dr_receipts :: "Receipt list"
  dr_encoded_receipts :: "bytes list"
  dr_transactions :: "ExecutedTransaction list"
  dr_created_domains :: "CreatedDomain list"

datatype reason = OfCodec CodecError | OfCrypto CryptoError | OfEvm EvmError | Because string

datatype ExecutorError =
    XTooManyTransactions nat nat
  | XInvalidEnvelope nat reason
  | XWrongChainId nat u64 u64
  | XTransaction nat EvmError
  | XBlockGasOverflow nat u64 u64
  | XReceiptEncoding nat reason
  | XSystemPreparation nat reason

section \<open>Steps of a transaction\<close>

definition registry_runtime :: "ChainRegistryExecutionContext option \<Rightarrow> PreparedChainCreation option
    \<Rightarrow> ChainRegistryRuntime option" where
  "registry_runtime context prepared =
     map_option (\<lambda>x. \<lparr>rt_root_domain_id = rx_root_domain_id x, rt_executing_domain_id = rx_executing_domain_id x,
       rt_consensus_height = rx_creation_height x, rt_governance_address = rx_governance_address x,
       rt_prepared_creation = prepared\<rparr>) context"

definition prepare_registry_creation :: "exec_ops \<Rightarrow> nat \<Rightarrow> ChainRegistryExecutionContext option
    \<Rightarrow> Eip1559Transaction \<Rightarrow> b256 \<Rightarrow> (PreparedChainCreation option \<times> ExecutionState option, ExecutorError) result" where
  "prepare_registry_creation X index registry tx tx_hash =
     (case registry of
        None \<Rightarrow> Ok (None, None)
      | Some registry \<Rightarrow>
          if rx_executing_domain_id registry \<noteq> rx_root_domain_id registry \<or> tx_to tx \<noteq> Some CHAIN_REGISTRY_ADDRESS
          then Ok (None, None)
          else case decode_create_chain_call (xo_keccak X) (tx_input tx) of
            Err _ \<Rightarrow> Ok (None, None)
          | Ok request \<Rightarrow>
              (case bt_get (rx_finalized_heads registry) (cr_parent_domain_id request) of
                 None \<Rightarrow> Ok (None, None)
               | Some joint \<Rightarrow>
                   bind_res (map_err (\<lambda>e. XSystemPreparation index (OfEvm e))
                     (from_genesis (xo_keccak X) (xo_rlp X)
                       [(cr_owner request, default_genesis_account\<lparr>ga_balance := cr_initial_supply request\<rparr>)]))
                     (\<lambda>genesis.
                   case prepare_chain_creation (xo_keccak X) request (rx_network_id registry) tx_hash joint
                       (state_root genesis) (tx_value tx) (rx_creation_height registry) of
                     Err _ \<Rightarrow> Ok (None, None)
                   | Ok prepared \<Rightarrow> Ok (Some prepared, Some genesis))))"

definition checked_cumulative_gas :: "nat \<Rightarrow> u64 \<Rightarrow> u64 \<Rightarrow> u64 \<Rightarrow> (u64, ExecutorError) result" where
  "checked_cumulative_gas index current gas limit =
     bind_res (ok_or (XBlockGasOverflow index (- 1) limit) (checked_add current gas)) (\<lambda>used.
     if used > limit then Err (XBlockGasOverflow index used limit) else Ok used)"

definition decode_transaction :: "exec_ops \<Rightarrow> nat \<Rightarrow> bytes \<Rightarrow> (Eip1559Transaction, ExecutorError) result" where
  "decode_transaction X index envelope =
     map_err (\<lambda>e. XInvalidEnvelope index (OfCodec e)) (decode_eip1559 (xo_rlp X) envelope)"

definition logs_bloom :: "exec_ops \<Rightarrow> Log list \<Rightarrow> bloom" where
  "logs_bloom X logs = fold (\<lambda>log. xo_accrue_raw_log X (log_address log) (log_topics log)) logs 0"

definition transactions_root :: "exec_ops \<Rightarrow> bytes list \<Rightarrow> b256" where
  "transactions_root X envelopes = xo_ordered_root X envelopes"

definition receipts_root :: "exec_ops \<Rightarrow> bytes list \<Rightarrow> b256" where
  "receipts_root X encoded = xo_ordered_root X encoded"

section \<open>Batches\<close>

text \<open>The variables the loop over the envelopes updates.\<close>

record BatchState =
  bs_state :: ExecutionState
  bs_cumulative_gas :: u64
  bs_block_bloom :: bloom
  bs_receipts :: "Receipt list"
  bs_encoded_receipts :: "bytes list"
  bs_executed :: "ExecutedTransaction list"
  bs_created_domains :: "CreatedDomain list"

definition execute_envelope :: "exec_ops \<Rightarrow> ProtocolSpec \<Rightarrow> DomainEnv \<Rightarrow> ChainRegistryExecutionContext option
    \<Rightarrow> nat \<times> bytes \<Rightarrow> BatchState \<Rightarrow> (BatchState, ExecutorError) result" where
  "execute_envelope X spec env registry = (\<lambda>(index, envelope) s.
     bind_res (decode_transaction X index envelope) (\<lambda>tx.
     if tx_chain_id tx \<noteq> de_chain_id env then Err (XWrongChainId index (de_chain_id env) (tx_chain_id tx))
     else
       bind_res (map_err (\<lambda>e. XInvalidEnvelope index (OfCrypto e)) (recover_eip1559_sender (xo_rlp X) (xo_crypto X) tx))
         (\<lambda>sender.
       bind_res (map_err (\<lambda>e. XInvalidEnvelope index (OfCrypto e)) (eip1559_transaction_hash (xo_rlp X) (xo_keccak X) tx))
         (\<lambda>tx_hash.
       bind_res (prepare_registry_creation X index registry tx tx_hash) (\<lambda>(prepared, genesis).
       bind_res (map_err (XTransaction index)
         (execute_transaction_with_system (xo_keccak X) (xo_rlp X) (xo_eth_warm X) (xo_transact X) (bs_state s) spec env
           tx sender (registry_runtime registry prepared))) (\<lambda>(result, st).
       bind_res (checked_cumulative_gas index (bs_cumulative_gas s) (ex_gas_used result) (de_gas_limit env)) (\<lambda>gas.
       let receipt_bloom = logs_bloom X (ex_logs result);
           receipt = \<lparr>rc_status = ex_success result, rc_cumulative_gas_used = gas, rc_logs_bloom = receipt_bloom,
             rc_logs = ex_logs result\<rparr> in
       bind_res (map_err (\<lambda>e. XReceiptEncoding index (OfCodec e)) (encode_eip1559_receipt (xo_rlp X) receipt)) (\<lambda>encoded.
       bind_res
         (case ex_created_domain result of
            None \<Rightarrow> Ok (bs_created_domains s)
          | Some descriptor \<Rightarrow>
              bind_res (ok_or (XSystemPreparation index
                (Because ''successful registry call has no prepared genesis state'')) genesis) (\<lambda>genesis.
              Ok (bs_created_domains s @ [\<lparr>cd_descriptor = descriptor, cd_genesis_state = genesis\<rparr>])))
         (\<lambda>created.
       Ok \<lparr>bs_state = st, bs_cumulative_gas = gas, bs_block_bloom = xo_accrue_bloom X (bs_block_bloom s) receipt_bloom,
         bs_receipts = bs_receipts s @ [receipt], bs_encoded_receipts = bs_encoded_receipts s @ [encoded],
         bs_executed = bs_executed s @ [\<lparr>et_transaction_hash = tx_hash, et_sender = sender,
           et_success = rc_status receipt, et_gas_used = ex_gas_used result,
           et_contract_address = ex_created_address result, et_output = ex_output result\<rparr>],
         bs_created_domains = created\<rparr>)))))))))"

definition execute_batch_with_registry :: "exec_ops \<Rightarrow> ProtocolSpec \<Rightarrow> DomainEnv \<Rightarrow> ExecutionState \<Rightarrow> bytes list
    \<Rightarrow> ChainRegistryExecutionContext option \<Rightarrow> (DomainExecutionResult, ExecutorError) result" where
  "execute_batch_with_registry X spec env parent envelopes registry =
     (if length envelopes > EXECUTOR_MAX_TRANSACTIONS
      then Err (XTooManyTransactions EXECUTOR_MAX_TRANSACTIONS (length envelopes))
      else
        bind_res (fold_res (execute_envelope X spec env registry) (enumerate 0 envelopes)
          \<lparr>bs_state = parent, bs_cumulative_gas = 0, bs_block_bloom = 0, bs_receipts = [], bs_encoded_receipts = [],
           bs_executed = [], bs_created_domains = []\<rparr>) (\<lambda>s.
        Ok \<lparr>dr_state = bs_state s, dr_transactions_root = xo_ordered_root X envelopes,
          dr_receipts_root = xo_ordered_root X (bs_encoded_receipts s), dr_logs_bloom = bs_block_bloom s,
          dr_gas_used = bs_cumulative_gas s, dr_receipts = bs_receipts s,
          dr_encoded_receipts = bs_encoded_receipts s, dr_transactions = bs_executed s,
          dr_created_domains = bs_created_domains s\<rparr>))"

definition execute_batch :: "exec_ops \<Rightarrow> ProtocolSpec \<Rightarrow> DomainEnv \<Rightarrow> ExecutionState \<Rightarrow> bytes list
    \<Rightarrow> (DomainExecutionResult, ExecutorError) result" where
  "execute_batch X spec env parent envelopes = execute_batch_with_registry X spec env parent envelopes None"

section \<open>Service\<close>

record ExecutorService =
  xs_spec :: ProtocolSpec

definition executor_service_new :: "u32 \<Rightarrow> (ExecutorService, EvmError) result" where
  "executor_service_new revision = bind_res (protocol_spec_resolve revision) (\<lambda>spec. Ok \<lparr>xs_spec = spec\<rparr>)"

definition service_execute_batch :: "exec_ops \<Rightarrow> ExecutorService \<Rightarrow> DomainEnv \<Rightarrow> ExecutionState \<Rightarrow> bytes list
    \<Rightarrow> (DomainExecutionResult, ExecutorError) result" where
  "service_execute_batch X service env parent envelopes =
     execute_batch_with_registry X (xs_spec service) env parent envelopes None"

definition service_execute_batch_with_registry :: "exec_ops \<Rightarrow> ExecutorService \<Rightarrow> DomainEnv \<Rightarrow> ExecutionState
    \<Rightarrow> bytes list \<Rightarrow> ChainRegistryExecutionContext \<Rightarrow> (DomainExecutionResult, ExecutorError) result" where
  "service_execute_batch_with_registry X service env parent envelopes registry =
     execute_batch_with_registry X (xs_spec service) env parent envelopes (Some registry)"

section \<open>Accounting of a batch\<close>

text \<open>The gas of the first transactions of a batch.\<close>

definition gas_sum :: "ExecutedTransaction list \<Rightarrow> nat" where
  "gas_sum ts = (\<Sum>t \<leftarrow> ts. unat (et_gas_used t))"

text \<open>Position \<open>i\<close> of a batch: its envelope, its receipt and its derived fields agree.\<close>

definition entry_ok :: "exec_ops \<Rightarrow> DomainEnv \<Rightarrow> bytes \<Rightarrow> Receipt \<Rightarrow> bytes \<Rightarrow> ExecutedTransaction \<Rightarrow> bool" where
  "entry_ok X env envelope receipt encoded executed \<longleftrightarrow>
     (\<exists>tx. decode_eip1559 (xo_rlp X) envelope = Ok tx \<and> tx_chain_id tx = de_chain_id env
        \<and> recover_eip1559_sender (xo_rlp X) (xo_crypto X) tx = Ok (et_sender executed)
        \<and> eip1559_transaction_hash (xo_rlp X) (xo_keccak X) tx = Ok (et_transaction_hash executed))
     \<and> encode_eip1559_receipt (xo_rlp X) receipt = Ok encoded \<and> rc_status receipt = et_success executed
     \<and> rc_logs_bloom receipt = logs_bloom X (rc_logs receipt)"

definition batch_ok :: "exec_ops \<Rightarrow> DomainEnv \<Rightarrow> bytes list \<Rightarrow> BatchState \<Rightarrow> bool" where
  "batch_ok X env envelopes s \<longleftrightarrow>
     length (bs_receipts s) = length envelopes \<and> length (bs_encoded_receipts s) = length envelopes
     \<and> length (bs_executed s) = length envelopes
     \<and> (\<forall>i < length envelopes. entry_ok X env (envelopes ! i) (bs_receipts s ! i) (bs_encoded_receipts s ! i) (bs_executed s ! i)
          \<and> unat (rc_cumulative_gas_used (bs_receipts s ! i)) = gas_sum (take (Suc i) (bs_executed s)))
     \<and> unat (bs_cumulative_gas s) = gas_sum (bs_executed s)
     \<and> bs_block_bloom s = fold (\<lambda>r b. xo_accrue_bloom X b (rc_logs_bloom r)) (bs_receipts s) 0
     \<and> (bs_executed s \<noteq> [] \<longrightarrow> bs_cumulative_gas s \<le> de_gas_limit env)"

lemma checked_cumulative_gas_Ok:
  "checked_cumulative_gas index current gas limit = Ok used \<longleftrightarrow> unat used = unat current + unat gas \<and> used \<le> limit"
  by (auto simp: checked_cumulative_gas_def if_Err_exact checked_simps not_less)

lemma execute_envelope_Ok:
  assumes "execute_envelope X spec env registry (index, envelope) s = Ok s'"
  shows "\<exists>receipt encoded executed.
    bs_receipts s' = bs_receipts s @ [receipt] \<and> bs_encoded_receipts s' = bs_encoded_receipts s @ [encoded]
    \<and> bs_executed s' = bs_executed s @ [executed] \<and> entry_ok X env envelope receipt encoded executed
    \<and> rc_cumulative_gas_used receipt = bs_cumulative_gas s'
    \<and> unat (bs_cumulative_gas s') = unat (bs_cumulative_gas s) + unat (et_gas_used executed)
    \<and> bs_cumulative_gas s' \<le> de_gas_limit env
    \<and> bs_block_bloom s' = xo_accrue_bloom X (bs_block_bloom s) (rc_logs_bloom receipt)"
  using assms
  by (auto simp: execute_envelope_def decode_transaction_def Let_def if_Err_exact entry_ok_def checked_cumulative_gas_Ok)

lemma batch_ok_step:
  assumes "batch_ok X env envelopes s" and "execute_envelope X spec env registry (index, envelope) s = Ok s'"
  shows "batch_ok X env (envelopes @ [envelope]) s'"
proof -
  obtain receipt encoded executed where step:
    "bs_receipts s' = bs_receipts s @ [receipt]" "bs_encoded_receipts s' = bs_encoded_receipts s @ [encoded]"
    "bs_executed s' = bs_executed s @ [executed]" "entry_ok X env envelope receipt encoded executed"
    "rc_cumulative_gas_used receipt = bs_cumulative_gas s'"
    "unat (bs_cumulative_gas s') = unat (bs_cumulative_gas s) + unat (et_gas_used executed)"
    "bs_cumulative_gas s' \<le> de_gas_limit env"
    "bs_block_bloom s' = xo_accrue_bloom X (bs_block_bloom s) (rc_logs_bloom receipt)"
    using execute_envelope_Ok [OF assms(2)] by blast
  show ?thesis
    using assms(1) step by (auto simp: batch_ok_def nth_append gas_sum_def less_Suc_eq)
qed

lemma batch_ok_fold:
  "fold_res (execute_envelope X spec env registry) (enumerate n envelopes) s = Ok s' \<Longrightarrow> batch_ok X env done_envelopes s \<Longrightarrow>
     batch_ok X env (done_envelopes @ envelopes) s'"
proof (induction envelopes arbitrary: n s done_envelopes)
  case (Cons e envelopes)
  then obtain s1 where "execute_envelope X spec env registry (n, e) s = Ok s1"
      "fold_res (execute_envelope X spec env registry) (enumerate (Suc n) envelopes) s1 = Ok s'"
    by auto
  then show ?case
    using Cons.IH batch_ok_step [OF Cons.prems(2)] by fastforce
qed simp

section \<open>Only the root creates domains\<close>

lemma no_created_domain:
  "execute_transaction_with_system K R eth_warm transact st spec env tx sender (registry_runtime registry None) = Ok (result, st') \<Longrightarrow>
     ex_created_domain result = None"
  by (cases registry)
    (auto simp: execute_transaction_with_system_def registry_runtime_def Let_def if_Err_exact)

lemma no_creation_off_root:
  assumes "\<forall>x. registry = Some x \<longrightarrow> rx_executing_domain_id x \<noteq> rx_root_domain_id x"
    and "execute_envelope X spec env registry (index, envelope) s = Ok s'"
  shows "bs_created_domains s' = bs_created_domains s"
proof -
  have prepared: "prepare_registry_creation X index registry tx h = Ok (None, None)" for tx h
    using assms(1) by (cases registry) (auto simp: prepare_registry_creation_def)
  show ?thesis
    using assms(2)
    by (auto simp: execute_envelope_def prepared Let_def if_Err_exact no_created_domain split: option.splits
        dest: no_created_domain)
qed

lemma no_creations_off_root:
  assumes "\<forall>x. registry = Some x \<longrightarrow> rx_executing_domain_id x \<noteq> rx_root_domain_id x"
    and "fold_res (execute_envelope X spec env registry) es s = Ok s'"
  shows "bs_created_domains s' = bs_created_domains s"
  using fold_res_invariant [OF assms(2), of "\<lambda>t. bs_created_domains t = bs_created_domains s"]
    no_creation_off_root [OF assms(1)] by (metis surj_pair)

section \<open>A batch with one transaction\<close>

definition quiet_transact :: transact where
  "quiet_transact st cfg block precompiles tx = Ok \<lparr>eo_success = True, eo_gas_used = 21000, eo_logs = [], eo_output = None,
     eo_created_address = None, eo_state = []\<rparr>"

definition sample_exec :: exec_ops where
  "sample_exec = \<lparr>xo_rlp = sample_rlp, xo_crypto = sample_crypto last_hash, xo_eth_warm = (\<lambda>_. {}), xo_transact = quiet_transact,
     xo_ordered_root = last_hash \<circ> concat, xo_accrue_raw_log = (\<lambda>a ts b. b OR ucast a), xo_accrue_bloom = (OR)\<rparr>"

definition sample_env :: DomainEnv where
  "sample_env = \<lparr>de_chain_id = 1, de_block_number = 1, de_timestamp = 2, de_beneficiary = 3, de_gas_limit = 30000000,
     de_base_fee_per_gas = 1, de_prevrandao = 0\<rparr>"

lemma empty_state_unchanged: "apply_changes K R [] (empty_state K) = Ok (empty_state K)"
  by (simp add: apply_changes_def overlay_commit_def overlay_from_snapshot_def overlay_new_def trie_build_def
      empty_state_def bt_values_def)

lemma sample_tx_signs: "is_ok (encode_eip1559_signing_payload sample_rlp sample_tx)"
  by (simp add: encode_eip1559_signing_payload_def encode_tx_envelope_def tx_validate_def sample_tx_def
      sample_rlp_def encode_fields_def encode_to_def encode_access_list_def
      encode_access_item_def rlp_list_def sized_def unary_def codec_limits
      MAX_INITCODE_BYTES_def MAX_CALLDATA_BYTES_def MAX_ACCESS_LIST_ADDRESSES_def
      MAX_ACCESS_LIST_STORAGE_KEYS_def)

lemma quiet_receipt_encodes:
  "is_ok (encode_eip1559_receipt sample_rlp \<lparr>rc_status = True, rc_cumulative_gas_used = 21000, rc_logs_bloom = 0, rc_logs = []\<rparr>)"
  by (simp add: encode_eip1559_receipt_def encode_logs_def
      sample_rlp_def rlp_list_def sized_def unary_def codec_limits)

lemma sample_batch_runs:
  "\<exists>envelope r. execute_batch_with_registry sample_exec PROTOCOL_SPEC_V1 sample_env (empty_state last_hash) [envelope] None = Ok r
     \<and> dr_gas_used r = 21000"
proof -
  have fee: "(ucast (- 1 :: u64) :: u128) \<noteq> 0"
    by (simp add: word_unat_eq_iff unat_ucast_power)
  obtain envelope where env: "encode_eip1559 sample_rlp sample_tx = Ok envelope"
    using sample_tx_encodes by (auto simp: is_ok_iff)
  then have dec: "decode_eip1559 sample_rlp envelope = Ok sample_tx"
    using eip1559_exact [OF sample_rlp_ok] by blast
  obtain h where "eip1559_signing_hash sample_rlp last_hash sample_tx = Ok h" "eip1559_transaction_hash sample_rlp last_hash sample_tx = Ok (last_hash envelope)"
    using env sample_tx_signs by (auto simp: eip1559_transaction_hash_def eip1559_signing_hash_def hash_encoding_def is_ok_iff)
  moreover have "execute_transaction_with_system last_hash sample_rlp (\<lambda>_. {}) quiet_transact (empty_state last_hash)
      PROTOCOL_SPEC_V1 sample_env sample_tx 5 (registry_runtime None None) =
      Ok (\<lparr>ex_success = True, ex_gas_used = 21000, ex_logs = [], ex_output = [], ex_created_address = None,
        ex_created_domain = None\<rparr>, empty_state last_hash)"
    using fee by (simp add: execute_transaction_with_system_def domain_env_validate_def sample_env_def
        protocol_spec_resolve_def PROTOCOL_SPEC_V1_def sample_tx_def block_env_def quiet_transact_def
        empty_state_unchanged registry_runtime_def)
  moreover obtain encoded where "encode_eip1559_receipt sample_rlp
      \<lparr>rc_status = True, rc_cumulative_gas_used = 21000, rc_logs_bloom = 0, rc_logs = []\<rparr> = Ok encoded"
    using quiet_receipt_encodes by (auto simp: is_ok_iff)
  moreover have "checked_cumulative_gas 0 0 21000 30000000 = Ok 21000"
    by (simp add: checked_cumulative_gas_Ok)
  moreover have "tx_chain_id sample_tx = 1"
    by (simp add: sample_tx_def)
  ultimately show ?thesis
    using dec
    by (intro exI [of _ envelope])
      (simp add: execute_batch_with_registry_def execute_envelope_def decode_transaction_def EXECUTOR_MAX_TRANSACTIONS_def
        sample_exec_def sample_crypto_def recover_eip1559_sender_def prepare_registry_creation_def registry_runtime_def logs_bloom_def
        sample_env_def)
qed

section \<open>Properties\<close>

text \<open>
  (C32) The result of a batch accounts for every transaction: one receipt, one encoding and one set of
  derived fields per envelope, in order; each envelope decodes to a transaction of this chain whose
  sender and hash are the recorded ones; the cumulative gas of each receipt is the exact sum of the
  gas used so far, without wrap-around, and the total is within the block gas limit; the roots are
  those of the envelopes and of the encoded receipts, the block bloom accrues the receipts' blooms,
  and only a batch of the root domain creates domains.
\<close>

theorem executed_batch_accounts:
  assumes "execute_batch_with_registry X spec env parent envelopes registry = Ok r"
  shows "length (dr_receipts r) = length envelopes \<and> length (dr_encoded_receipts r) = length envelopes
    \<and> length (dr_transactions r) = length envelopes \<and> length envelopes \<le> EXECUTOR_MAX_TRANSACTIONS
    \<and> (\<forall>i < length envelopes.
         entry_ok X env (envelopes ! i) (dr_receipts r ! i) (dr_encoded_receipts r ! i) (dr_transactions r ! i)
         \<and> unat (rc_cumulative_gas_used (dr_receipts r ! i)) = gas_sum (take (Suc i) (dr_transactions r)))
    \<and> unat (dr_gas_used r) = gas_sum (dr_transactions r) \<and> dr_gas_used r \<le> de_gas_limit env
    \<and> dr_transactions_root r = transactions_root X envelopes
    \<and> dr_receipts_root r = receipts_root X (dr_encoded_receipts r)
    \<and> dr_logs_bloom r = fold (\<lambda>receipt b. xo_accrue_bloom X b (rc_logs_bloom receipt)) (dr_receipts r) 0
    \<and> (dr_created_domains r \<noteq> [] \<longrightarrow> (\<exists>x. registry = Some x \<and> rx_executing_domain_id x = rx_root_domain_id x))"
proof -
  let ?s0 = "\<lparr>bs_state = parent, bs_cumulative_gas = 0, bs_block_bloom = 0, bs_receipts = [], bs_encoded_receipts = [],
    bs_executed = [], bs_created_domains = []\<rparr>"
  obtain s where run: "fold_res (execute_envelope X spec env registry) (enumerate 0 envelopes) ?s0 = Ok s"
      and len: "length envelopes \<le> EXECUTOR_MAX_TRANSACTIONS"
      and r: "r = \<lparr>dr_state = bs_state s, dr_transactions_root = xo_ordered_root X envelopes,
          dr_receipts_root = xo_ordered_root X (bs_encoded_receipts s), dr_logs_bloom = bs_block_bloom s,
          dr_gas_used = bs_cumulative_gas s, dr_receipts = bs_receipts s,
          dr_encoded_receipts = bs_encoded_receipts s, dr_transactions = bs_executed s,
          dr_created_domains = bs_created_domains s\<rparr>"
    using assms by (auto simp: execute_batch_with_registry_def if_Err_exact not_less)
  have "batch_ok X env [] ?s0"
    by (simp add: batch_ok_def gas_sum_def)
  from batch_ok_fold [OF run this] have ok: "batch_ok X env envelopes s"
    by simp
  then have "bs_cumulative_gas s \<le> de_gas_limit env"
    by (cases "bs_executed s = []") (auto simp: batch_ok_def gas_sum_def word_le_nat_alt)
  then show ?thesis
    using ok len no_creations_off_root [OF _ run] by (auto simp: r batch_ok_def transactions_root_def receipts_root_def)
qed

theorem executed_batch_accounts_witness:
  "\<exists>envelope r. execute_batch_with_registry sample_exec PROTOCOL_SPEC_V1 sample_env (empty_state last_hash) [envelope] None = Ok r
     \<and> length (dr_receipts r) = 1 \<and> unat (rc_cumulative_gas_used (dr_receipts r ! 0)) = gas_sum (take 1 (dr_transactions r))
     \<and> dr_gas_used r \<le> de_gas_limit sample_env \<and> dr_created_domains r = []"
proof -
  obtain envelope r where run: "execute_batch_with_registry sample_exec PROTOCOL_SPEC_V1 sample_env (empty_state last_hash) [envelope] None = Ok r"
    using sample_batch_runs by blast
  then show ?thesis
    using executed_batch_accounts [OF run] by auto
qed

end
