(* ===== verification/Chain_Blocks.thy ===== *)
theory Chain_Blocks
  imports Domain_Executor Cursor
begin

text \<open>
  \<open>arbor-chain/src/lib.rs\<close>, the part about blocks: errors, the Merkle commitments to batches and
  domain results with their inclusion proofs, and the codec of a block body. Keccak-256 is \<open>K\<close>. The
  panics of \<open>expect\<close> are the error \<open>ChainPanic\<close>; a text made by \<open>to_string\<close> is the error it prints.
\<close>

section \<open>Constants, blocks and errors\<close>

definition MAX_CONSENSUS_BLOCK_GAS :: u64 where
  "MAX_CONSENSUS_BLOCK_GAS = 120000000"

definition MAX_DOMAIN_BLOCK_GAS :: u64 where
  "MAX_DOMAIN_BLOCK_GAS = 30000000"

definition MAX_CONSENSUS_BLOCK_BYTES :: nat where
  "MAX_CONSENSUS_BLOCK_BYTES = 16 * 1024 * 1024"

definition MAX_TIMESTAMP_STEP_SECONDS :: u64 where
  "MAX_TIMESTAMP_STEP_SECONDS = 30"

definition BLOCK_BODY_TAG :: bytes where
  "BLOCK_BODY_TAG = ascii ''ARBOR_CONSENSUS_BLOCK_BODY_V1''"

definition MERKLE_ROOT_TAG :: bytes where
  "MERKLE_ROOT_TAG = ascii ''ARBOR_MERKLE_ROOT_V1''"

definition MERKLE_BRANCH_TAG :: bytes where
  "MERKLE_BRANCH_TAG = ascii ''ARBOR_MERKLE_BRANCH_V1''"

definition MERKLE_EMPTY_TAG :: bytes where
  "MERKLE_EMPTY_TAG = ascii ''ARBOR_MERKLE_EMPTY_V1''"

definition BATCH_LEAF_TAG :: bytes where
  "BATCH_LEAF_TAG = ascii ''ARBOR_BATCH_LEAF_V1''"

definition RESULT_LEAF_TAG :: bytes where
  "RESULT_LEAF_TAG = ascii ''ARBOR_RESULT_LEAF_V1''"

definition PREVRANDAO_TAG :: bytes where
  "PREVRANDAO_TAG = ascii ''ARBOR_PREVRANDAO_V1''"

record ConsensusBlock =
  cb_header :: ConsensusBlockHeader
  cb_batches :: "DomainBatch list"
  cb_domain_blocks :: "DomainBlockHeader list"

datatype RootField =
    BatchesField | TransactionsField | StateField | ReceiptsField | DomainResultsField | DomainHeadsField

datatype ChainError =
    InvalidDomainConfig string
  | DuplicateGenesisDomain DomainId
  | DuplicateCreatedDomain DomainId
  | RegistryInvariant string
  | CheckpointError string
  | WrongConsensusParent
  | InvalidTimestamp u64 u64 u64
  | NonCanonicalBatches
  | UnknownDomain DomainId
  | WrongDomainParent DomainId
  | ResultAlignment
  | WrongDomainNumber DomainId
  | RootMismatch RootField "DomainId option"
  | HeaderMismatch
  | TooManyBatches nat nat
  | AggregateGas u64 u64
  | BlockBytes nat nat
  | DomainExecution DomainId ExecutorError
  | ChainEncoding reason
  | ChainDecode string
  | InvalidResultProof string
  | ChainPanic string

abbreviation codec_hash :: "('a, CodecError) result \<Rightarrow> ('a, ChainError) result" where
  "codec_hash \<equiv> map_err (\<lambda>e. ChainEncoding (OfCodec e))"

abbreviation crypto_hash :: "('a, CryptoError) result \<Rightarrow> ('a, ChainError) result" where
  "crypto_hash \<equiv> map_err (\<lambda>e. ChainEncoding (OfCrypto e))"

abbreviation evm_hash :: "('a, EvmError) result \<Rightarrow> ('a, ChainError) result" where
  "evm_hash \<equiv> map_err (\<lambda>e. ChainEncoding (OfEvm e))"

definition block_hash_of :: "hash_fn \<Rightarrow> ConsensusBlock \<Rightarrow> (b256, ChainError) result" where
  "block_hash_of K block = crypto_hash (consensus_header_hash K (cb_header block))"

section \<open>Merkle collections\<close>

definition collection_leaf_preimage :: "bytes \<Rightarrow> u32 \<Rightarrow> nat \<Rightarrow> bytes \<Rightarrow> bytes" where
  "collection_leaf_preimage leaf_tag n_items index value =
     leaf_tag @ [CANONICAL_CODEC_VERSION] @ to_be_bytes n_items @ to_be_bytes (word_of_nat index :: u32)
     @ to_be_bytes (word_of_nat (length value) :: u32) @ value"

definition collection_leaf :: "hash_fn \<Rightarrow> bytes \<Rightarrow> u32 \<Rightarrow> nat \<Rightarrow> bytes \<Rightarrow> (b256, ChainError) result" where
  "collection_leaf K leaf_tag n_items index value =
     (if index \<ge> 2 ^ 32 then Err (ChainPanic ''protocol collection index fits u32'')
      else if length value \<ge> 2 ^ 32 then Err (ChainPanic ''canonical object size fits u32'')
      else Ok (K (collection_leaf_preimage leaf_tag n_items index value)))"

definition collection_branch_preimage :: "bytes \<Rightarrow> u16 \<Rightarrow> b256 \<Rightarrow> b256 \<Rightarrow> bytes" where
  "collection_branch_preimage leaf_tag depth left right =
     MERKLE_BRANCH_TAG @ [CANONICAL_CODEC_VERSION] @ leaf_tag @ to_be_bytes depth @ to_be_bytes left @ to_be_bytes right"

definition collection_branch :: "hash_fn \<Rightarrow> bytes \<Rightarrow> u16 \<Rightarrow> b256 \<Rightarrow> b256 \<Rightarrow> b256" where
  "collection_branch K leaf_tag depth left right = K (collection_branch_preimage leaf_tag depth left right)"

definition collection_root_preimage :: "bytes \<Rightarrow> u32 \<Rightarrow> b256 \<Rightarrow> bytes" where
  "collection_root_preimage leaf_tag n_items tree_hash =
     MERKLE_ROOT_TAG @ [CANONICAL_CODEC_VERSION] @ leaf_tag @ to_be_bytes n_items @ to_be_bytes tree_hash"

definition collection_root :: "hash_fn \<Rightarrow> bytes \<Rightarrow> u32 \<Rightarrow> b256 \<Rightarrow> b256" where
  "collection_root K leaf_tag n_items tree_hash = K (collection_root_preimage leaf_tag n_items tree_hash)"

definition merkle_empty :: "hash_fn \<Rightarrow> bytes \<Rightarrow> u16 \<Rightarrow> b256" where
  "merkle_empty K leaf_tag depth =
     K (MERKLE_EMPTY_TAG @ [CANONICAL_CODEC_VERSION] @ leaf_tag @ to_be_bytes depth)"

text \<open>One level up: \<open>chunks(2)\<close>, with the empty hash beside a single last node.\<close>

fun merkle_next :: "hash_fn \<Rightarrow> bytes \<Rightarrow> u16 \<Rightarrow> b256 list \<Rightarrow> b256 list" where
  "merkle_next K leaf_tag depth [] = []"
| "merkle_next K leaf_tag depth [left] = [collection_branch K leaf_tag depth left (merkle_empty K leaf_tag depth)]"
| "merkle_next K leaf_tag depth (left # right # rest) =
     collection_branch K leaf_tag depth left right # merkle_next K leaf_tag depth rest"

lemma length_merkle_next [simp]: "length (merkle_next K leaf_tag depth level) = (length level + 1) div 2"
  by (induction K leaf_tag depth level rule: merkle_next.induct) simp_all

text \<open>The \<open>while\<close> loop over the levels; its last level has one node.\<close>

function merkle_top :: "hash_fn \<Rightarrow> bytes \<Rightarrow> u16 \<Rightarrow> b256 list \<Rightarrow> b256 list" where
  "merkle_top K leaf_tag depth level =
     (if length level > 1 then merkle_top K leaf_tag (saturating_add depth 1) (merkle_next K leaf_tag depth level)
      else level)"
  by pat_completeness auto
termination
  by (relation "measure (\<lambda>(_, _, _, level). length level)") auto

declare merkle_top.simps [simp del]

definition collection_leaves :: "hash_fn \<Rightarrow> bytes \<Rightarrow> u32 \<Rightarrow> bytes list \<Rightarrow> (b256 list, ChainError) result" where
  "collection_leaves K leaf_tag n_items values =
     collect_res (\<lambda>(index, value). collection_leaf K leaf_tag n_items index value) (enumerate 0 values)"

definition merkle_collection_root :: "hash_fn \<Rightarrow> bytes \<Rightarrow> bytes list \<Rightarrow> (b256, ChainError) result" where
  "merkle_collection_root K leaf_tag values =
     (if length values \<ge> 2 ^ 32 then Err (ChainPanic ''protocol collection count fits u32'')
      else let n_items = word_of_nat (length values) in
        bind_res (collection_leaves K leaf_tag n_items values) (\<lambda>level.
        let level = (if level = [] then [merkle_empty K leaf_tag 0] else level) in
        Ok (collection_root K leaf_tag n_items (hd (merkle_top K leaf_tag 0 level)))))"

definition batches_root :: "hash_fn \<Rightarrow> DomainBatch list \<Rightarrow> (b256, ChainError) result" where
  "batches_root K batches =
     bind_res (codec_hash (collect_res encode_domain_batch batches)) (merkle_collection_root K BATCH_LEAF_TAG)"

definition domain_results_root :: "hash_fn \<Rightarrow> DomainBlockHeader list \<Rightarrow> (b256, ChainError) result" where
  "domain_results_root K results =
     bind_res (codec_hash (collect_res encode_domain_header results)) (merkle_collection_root K RESULT_LEAF_TAG)"

section \<open>Result proofs\<close>

record DomainResultProof =
  rp_root :: b256
  rp_result :: DomainBlockHeader
  rp_index :: u32
  rp_count :: u32
  rp_siblings :: "b256 list"

text \<open>\<open>iter().position(..)\<close>.\<close>

definition position :: "('a \<Rightarrow> bool) \<Rightarrow> 'a list \<Rightarrow> nat option" where
  "position P xs = find (\<lambda>i. P (xs ! i)) [0..<length xs]"

function result_siblings :: "hash_fn \<Rightarrow> nat \<Rightarrow> u16 \<Rightarrow> b256 list \<Rightarrow> b256 list" where
  "result_siblings K cursor depth level =
     (if length level > 1 then
        (if even cursor then if cursor + 1 < length level then level ! (cursor + 1) else merkle_empty K RESULT_LEAF_TAG depth
         else level ! (cursor - 1))
        # result_siblings K (cursor div 2) (saturating_add depth 1) (merkle_next K RESULT_LEAF_TAG depth level)
      else [])"
  by pat_completeness auto
termination
  by (relation "measure (\<lambda>(_, _, _, level). length level)") auto

declare result_siblings.simps [simp del]

definition domain_result_proof :: "hash_fn \<Rightarrow> ConsensusBlock \<Rightarrow> DomainId \<Rightarrow> (DomainResultProof option, ChainError) result" where
  "domain_result_proof K block domain_id =
     (case position (\<lambda>header. dh_domain_id header = domain_id) (cb_domain_blocks block) of
        None \<Rightarrow> Ok None
      | Some index \<Rightarrow>
          bind_res (codec_hash (collect_res encode_domain_header (cb_domain_blocks block))) (\<lambda>values.
          if length values \<ge> 2 ^ 32 then Err (ChainEncoding (Because ''domain result count''))
          else let n_items = word_of_nat (length values) in
            bind_res (collection_leaves K RESULT_LEAF_TAG n_items values) (\<lambda>level.
            if index \<ge> 2 ^ 32 then Err (ChainEncoding (Because ''domain result index''))
            else Ok (Some \<lparr>rp_root = ch_domain_results_root (cb_header block), rp_result = cb_domain_blocks block ! index,
              rp_index = word_of_nat index, rp_count = n_items, rp_siblings = result_siblings K index 0 level\<rparr>))))"

function expected_levels :: "nat \<Rightarrow> nat" where
  "expected_levels width = (if width > 1 then Suc (expected_levels ((width + 1) div 2)) else 0)"
  by pat_completeness auto
termination
  by (relation "measure id") auto

declare expected_levels.simps [simp del]

text \<open>The loop over the siblings: \<open>depth\<close> counts them.\<close>

fun climb :: "hash_fn \<Rightarrow> nat \<Rightarrow> nat \<Rightarrow> b256 \<Rightarrow> b256 list \<Rightarrow> (b256, ChainError) result" where
  "climb K depth cursor hash [] = Ok hash"
| "climb K depth cursor hash (sibling # siblings) =
     (if depth \<ge> 2 ^ 16 then Err (InvalidResultProof ''depth overflow'')
      else climb K (depth + 1) (cursor div 2)
        (if even cursor then collection_branch K RESULT_LEAF_TAG (word_of_nat depth) hash sibling
         else collection_branch K RESULT_LEAF_TAG (word_of_nat depth) sibling hash) siblings)"

definition result_proof_verify :: "hash_fn \<Rightarrow> DomainResultProof \<Rightarrow> (unit, ChainError) result" where
  "result_proof_verify K p =
     (if rp_count p = 0 \<or> rp_index p \<ge> rp_count p then Err (InvalidResultProof ''index/count'')
      else if length (rp_siblings p) \<noteq> expected_levels (unat (rp_count p)) then Err (InvalidResultProof ''depth'')
      else
        bind_res (codec_hash (encode_domain_header (rp_result p))) (\<lambda>encoded.
        bind_res (collection_leaf K RESULT_LEAF_TAG (rp_count p) (unat (rp_index p)) encoded) (\<lambda>leaf.
        bind_res (climb K 0 (unat (rp_index p)) leaf (rp_siblings p)) (\<lambda>hash.
        if collection_root K RESULT_LEAF_TAG (rp_count p) hash \<noteq> rp_root p
        then Err (InvalidResultProof ''root mismatch'') else Ok ()))))"

section \<open>Block bodies\<close>

definition put_u32 :: "nat \<Rightarrow> (bytes, ChainError) result" where
  "put_u32 value =
     (if value \<ge> 2 ^ 32 then Err (ChainEncoding (Because ''u32 length'')) else Ok (to_be_bytes (word_of_nat value :: u32)))"

definition put_bytes :: "bytes \<Rightarrow> (bytes, ChainError) result" where
  "put_bytes value = bind_res (put_u32 (length value)) (\<lambda>len. Ok (len @ value))"

definition put_object :: "('a \<Rightarrow> (bytes, CodecError) result) \<Rightarrow> 'a \<Rightarrow> (bytes, ChainError) result" where
  "put_object enc x = bind_res (codec_hash (enc x)) put_bytes"

definition encode_consensus_block :: "ConsensusBlock \<Rightarrow> (bytes, ChainError) result" where
  "encode_consensus_block block =
     (if length (cb_batches block) \<noteq> length (cb_domain_blocks block) then Err ResultAlignment
      else
        bind_res (put_object encode_consensus_header (cb_header block)) (\<lambda>header.
        bind_res (put_u32 (length (cb_batches block))) (\<lambda>batch_count.
        bind_res (enc_many (put_object encode_domain_batch) (cb_batches block)) (\<lambda>batches.
        bind_res (put_u32 (length (cb_domain_blocks block))) (\<lambda>result_count.
        bind_res (enc_many (put_object encode_domain_header) (cb_domain_blocks block)) (\<lambda>results.
        let out = BLOCK_BODY_TAG @ [CANONICAL_CODEC_VERSION] @ header @ batch_count @ batches @ result_count @ results in
        if length out > MAX_CONSENSUS_BLOCK_BYTES then Err (BlockBytes MAX_CONSENSUS_BLOCK_BYTES (length out))
        else Ok out))))))"

definition chain_take :: "nat \<Rightarrow> Decoder \<Rightarrow> (bytes \<times> Decoder, ChainError) result" where
  "chain_take = cur_take (ChainDecode ''unexpected end'')"

definition chain_take_u32 :: "Decoder \<Rightarrow> (nat \<times> Decoder, ChainError) result" where
  "chain_take_u32 d = bind_res (chain_take 4 d) (\<lambda>(bs, d). Ok (unat (from_be_bytes bs :: u32), d))"

definition chain_take_bytes :: "Decoder \<Rightarrow> (bytes \<times> Decoder, ChainError) result" where
  "chain_take_bytes d =
     bind_res (chain_take_u32 d) (\<lambda>(len, d).
     if len > MAX_CANONICAL_OBJECT_BYTES then Err (ChainDecode ''nested object too large'') else chain_take len d)"

definition chain_take_object :: "string \<Rightarrow> (bytes \<Rightarrow> ('a, CodecError) result) \<Rightarrow> Decoder \<Rightarrow> ('a \<times> Decoder, ChainError) result" where
  "chain_take_object what dec d =
     bind_res (chain_take_bytes d) (\<lambda>(bs, d).
     bind_res (map_err (\<lambda>_. ChainDecode what) (dec bs)) (\<lambda>x. Ok (x, d)))"

definition decode_consensus_block :: "bytes \<Rightarrow> (ConsensusBlock, ChainError) result" where
  "decode_consensus_block input =
     (if length input > MAX_CONSENSUS_BLOCK_BYTES then Err (BlockBytes MAX_CONSENSUS_BLOCK_BYTES (length input))
      else
        bind_res (chain_take (length BLOCK_BODY_TAG) (cur_start input)) (\<lambda>(tag, d).
        if tag \<noteq> BLOCK_BODY_TAG then Err (ChainDecode ''block body tag/version'')
        else
          bind_res (chain_take 1 d) (\<lambda>(version, d).
          if version \<noteq> [CANONICAL_CODEC_VERSION] then Err (ChainDecode ''block body tag/version'')
          else
            bind_res (chain_take_object ''consensus header'' decode_consensus_header d) (\<lambda>(header, d).
            bind_res (chain_take_u32 d) (\<lambda>(batch_count, d).
            if batch_count > MAX_BATCHES_PER_BLOCK then Err (TooManyBatches MAX_BATCHES_PER_BLOCK batch_count)
            else
              bind_res (dec_many (chain_take_object ''domain batch'' decode_domain_batch) batch_count d) (\<lambda>(batches, d).
              bind_res (chain_take_u32 d) (\<lambda>(result_count, d).
              if result_count \<noteq> batch_count then Err ResultAlignment
              else
                bind_res (dec_many (chain_take_object ''domain header'' decode_domain_header) result_count d)
                  (\<lambda>(domain_blocks, d).
                if \<not> cur_at_end d then Err (ChainDecode ''trailing bytes'')
                else Ok \<lparr>cb_header = header, cb_batches = batches, cb_domain_blocks = domain_blocks\<rparr>))))))))"

end
