(* ===== verification/Chain_Proofs.thy ===== *)
theory Chain_Proofs
  imports Chain_Blocks
begin

text \<open>
  The block body codec is exact, and domain-result proofs are complete and sound against the
  commitment of the header.
\<close>

section \<open>Nested objects\<close>

text \<open>A length-prefixed canonical object inside a block body.\<close>

definition w_object :: "('a \<Rightarrow> (bytes, CodecError) result) \<Rightarrow> 'a \<Rightarrow> bytes" where
  "w_object enc x = (case enc x of Ok bs \<Rightarrow> w_bytes bs | Err _ \<Rightarrow> [])"

interpretation h_u32: wire_field w_count chain_take_u32 "\<lambda>n. n < 2 ^ 32"
proof
  fix pre r n d
  have "(\<exists>bs. length bs = 4 \<and> n = unat (from_be_bytes bs :: u32) \<and> (\<exists>r'. r = bs @ r' \<and> d = dec_at (pre @ bs) r')) \<longleftrightarrow>
      n < 2 ^ 32 \<and> (\<exists>r'. r = w_count n @ r' \<and> d = dec_at (pre @ w_count n) r')"
    (is "?l \<longleftrightarrow> ?r")
  proof
    assume ?l
    then show ?r
      using unat_less_exp [where 'a = 32] by (auto simp: w_count_def)
  next
    assume r: ?r
    then have "unat (word_of_nat n :: u32) = n"
      by (intro unat_of_nat_fits) simp
    with r show ?l
      by (intro exI [of _ "w_count n"]) (simp add: w_count_def)
  qed
  then show "chain_take_u32 (dec_at pre r) = Ok (n, d) \<longleftrightarrow>
      n < 2 ^ 32 \<and> (\<exists>r'. r = w_count n @ r' \<and> d = dec_at (pre @ w_count n) r')"
    by (auto simp: chain_take_u32_def chain_take_def cur_take_at)
qed

interpretation h_bytes: wire_field w_bytes chain_take_bytes "\<lambda>bs. length bs \<le> MAX_CANONICAL_OBJECT_BYTES"
proof
  fix pre r x d
  show "chain_take_bytes (dec_at pre r) = Ok (x, d) \<longleftrightarrow>
      length x \<le> MAX_CANONICAL_OBJECT_BYTES \<and> (\<exists>r'. r = w_bytes x @ r' \<and> d = dec_at (pre @ w_bytes x) r')"
    unfolding chain_take_bytes_def h_u32.bind_exact if_Err_exact chain_take_def cur_take_at
    by (auto simp: w_bytes_def MAX_CANONICAL_OBJECT_BYTES_def intro!: exI [of _ "length x"])
qed

lemma take_object_exact:
  assumes "\<And>bs x. dec bs = Ok x \<longleftrightarrow> enc x = Ok bs" and "\<And>bs x. enc x = Ok bs \<Longrightarrow> length bs \<le> MAX_CANONICAL_OBJECT_BYTES"
  shows "chain_take_object what dec (dec_at pre r) = Ok (x, d) \<longleftrightarrow>
    is_ok (enc x) \<and> (\<exists>r'. r = w_object enc x @ r' \<and> d = dec_at (pre @ w_object enc x) r')"
  unfolding chain_take_object_def h_bytes.bind_exact
  using assms(2) by (cases "enc x") (auto simp: assms(1) w_object_def)

lemma put_object_Ok:
  assumes "\<And>bs x. enc x = Ok bs \<Longrightarrow> length bs \<le> MAX_CANONICAL_OBJECT_BYTES"
  shows "put_object enc x = Ok b \<longleftrightarrow> is_ok (enc x) \<and> b = w_object enc x"
  using assms [of x]
  by (cases "enc x") (auto simp: put_object_def put_bytes_def put_u32_def w_object_def w_bytes_def w_count_def
      MAX_CANONICAL_OBJECT_BYTES_def if_Err_exact)

lemma encoded_sizes:
  "encode_consensus_header h = Ok bs \<Longrightarrow> length bs \<le> MAX_CANONICAL_OBJECT_BYTES"
  "encode_domain_batch b = Ok bs \<Longrightarrow> length bs \<le> MAX_CANONICAL_OBJECT_BYTES"
  "encode_domain_header d = Ok bs \<Longrightarrow> length bs \<le> MAX_CANONICAL_OBJECT_BYTES"
  by (auto simp: encode_consensus_header_def encode_domain_batch_def encode_domain_header_def)

interpretation o_header: wire_field "w_object encode_consensus_header"
  "chain_take_object ''consensus header'' decode_consensus_header" "\<lambda>x. is_ok (encode_consensus_header x)"
  by unfold_locales (rule take_object_exact [OF consensus_header_exact encoded_sizes(1)])

interpretation o_batch: wire_field "w_object encode_domain_batch"
  "chain_take_object ''domain batch'' decode_domain_batch" "\<lambda>x. is_ok (encode_domain_batch x)"
  by unfold_locales (rule take_object_exact [OF domain_batch_exact encoded_sizes(2)])

interpretation o_result: wire_field "w_object encode_domain_header"
  "chain_take_object ''domain header'' decode_domain_header" "\<lambda>x. is_ok (encode_domain_header x)"
  by unfold_locales (rule take_object_exact [OF domain_header_exact encoded_sizes(3)])

section \<open>Block bodies\<close>

definition block_bytes :: "ConsensusBlock \<Rightarrow> bytes" where
  "block_bytes b = BLOCK_BODY_TAG @ [CANONICAL_CODEC_VERSION] @ w_object encode_consensus_header (cb_header b)
     @ w_count (length (cb_batches b)) @ concat (map (w_object encode_domain_batch) (cb_batches b))
     @ w_count (length (cb_domain_blocks b)) @ concat (map (w_object encode_domain_header) (cb_domain_blocks b))"

definition block_encodes :: "ConsensusBlock \<Rightarrow> bool" where
  "block_encodes b \<longleftrightarrow> length (cb_batches b) = length (cb_domain_blocks b) \<and> is_ok (encode_consensus_header (cb_header b))
     \<and> (\<forall>x \<in> set (cb_batches b). is_ok (encode_domain_batch x)) \<and> (\<forall>x \<in> set (cb_domain_blocks b). is_ok (encode_domain_header x))
     \<and> length (block_bytes b) \<le> MAX_CONSENSUS_BLOCK_BYTES"

lemma length_concat_ge: "\<forall>x \<in> set xs. f x \<noteq> [] \<Longrightarrow> length xs \<le> length (concat (map f xs))"
proof (induction xs)
  case (Cons x xs)
  then have "1 \<le> length (f x)"
    by (simp add: Suc_le_eq)
  then show ?case
    using Cons by simp
qed simp

lemma w_object_nonempty: "is_ok (enc x) \<Longrightarrow> w_object enc x \<noteq> []"
  by (cases "enc x") (auto simp: w_object_def w_bytes_def w_count_def simp flip: length_0_conv)

lemma block_encodes_counts: "block_encodes b \<Longrightarrow> length (cb_batches b) < 2 ^ 32"
  using length_concat_ge [of "cb_batches b" "w_object encode_domain_batch"] w_object_nonempty [of encode_domain_batch]
  by (auto simp: block_encodes_def block_bytes_def MAX_CONSENSUS_BLOCK_BYTES_def)

lemma encode_consensus_block_Ok: "encode_consensus_block b = Ok bs \<longleftrightarrow> block_encodes b \<and> bs = block_bytes b"
proof -
  have fits: "length (cb_batches b) < 2 ^ 32" if "length (block_bytes b) \<le> MAX_CONSENSUS_BLOCK_BYTES"
      "\<forall>x \<in> set (cb_batches b). is_ok (encode_domain_batch x)"
    using length_concat_ge [of "cb_batches b" "w_object encode_domain_batch"] w_object_nonempty [of encode_domain_batch] that
    by (auto simp: block_bytes_def MAX_CONSENSUS_BLOCK_BYTES_def)
  note many = enc_many_Ok [of "put_object encode_domain_batch" "\<lambda>x. is_ok (encode_domain_batch x)" "w_object encode_domain_batch", OF put_object_Ok [OF encoded_sizes(2)]]
    enc_many_Ok [of "put_object encode_domain_header" "\<lambda>x. is_ok (encode_domain_header x)" "w_object encode_domain_header", OF put_object_Ok [OF encoded_sizes(3)]]
  have count: "put_u32 n = Ok x \<longleftrightarrow> n < 2 ^ 32 \<and> x = w_count n" for n x
    by (auto simp: put_u32_def w_count_def)
  show ?thesis
    unfolding encode_consensus_block_def if_Err_exact
    using fits by (auto simp: put_object_Ok [OF encoded_sizes(1)] count many block_encodes_def block_bytes_def Let_def if_Err_exact not_less)
qed

lemma block_decodes:
  "decode_consensus_block bs = Ok b \<longleftrightarrow>
     block_encodes b \<and> bs = block_bytes b \<and> length (cb_batches b) \<le> MAX_BATCHES_PER_BLOCK"
  unfolding decode_consensus_block_def if_Err_exact chain_take_def cur_start_at bind_cur_take_exact
    o_header.bind_exact h_u32.bind_exact o_batch.bind_many_exact o_result.bind_many_exact
  by (cases b) (auto simp: block_encodes_def block_bytes_def MAX_BATCHES_PER_BLOCK_def if_Err_exact not_less)

text \<open>
  (C37) A byte string decodes to a block exactly when it is that block's encoding and the block has at
  most the allowed number of batches: decoding accepts one canonical form only, loses nothing, and
  checks the alignment of batches with results, the nested objects, every length and the absence of
  trailing bytes.
\<close>

theorem block_codec_exact:
  "decode_consensus_block bs = Ok b \<longleftrightarrow>
     encode_consensus_block b = Ok bs \<and> length (cb_batches b) \<le> MAX_BATCHES_PER_BLOCK"
  unfolding block_decodes encode_consensus_block_Ok by blast

section \<open>Levels of a collection\<close>

abbreviation RT :: bytes where
  "RT \<equiv> RESULT_LEAF_TAG"

lemma merkle_next_nth:
  "j < (length level + 1) div 2 \<Longrightarrow> merkle_next K tag depth level ! j = K (collection_branch_preimage tag depth (level ! (2 * j))
     (if 2 * j + 1 < length level then level ! (2 * j + 1) else merkle_empty K tag depth))"
proof (induction K tag depth level arbitrary: j rule: merkle_next.induct)
  case (3 K tag depth left right rest)
  then show ?case
    by (cases j) (simp_all add: collection_branch_def)
qed (simp_all add: collection_branch_def)

lemma merkle_top_step:
  "length level > 1 \<Longrightarrow> merkle_top K tag depth level = merkle_top K tag (saturating_add depth 1) (merkle_next K tag depth level)"
  "length level = 1 \<Longrightarrow> merkle_top K tag depth level = level"
  by (simp_all add: merkle_top.simps [of K tag depth level])

lemma result_siblings_step:
  "length level > 1 \<Longrightarrow> result_siblings K i depth level =
     (if even i then if i + 1 < length level then level ! (i + 1) else merkle_empty K RT depth else level ! (i - 1))
     # result_siblings K (i div 2) (saturating_add depth 1) (merkle_next K RT depth level)"
  "length level = 1 \<Longrightarrow> result_siblings K i depth level = []"
  by (simp_all add: result_siblings.simps [of K i depth level])

lemma expected_levels_step:
  "n > 1 \<Longrightarrow> expected_levels n = Suc (expected_levels ((n + 1) div 2))" "expected_levels 1 = 0" "expected_levels (Suc 0) = 0"
  by (simp_all add: expected_levels.simps)

lemma expected_levels_bound: "n \<le> 2 ^ k \<Longrightarrow> expected_levels n \<le> k"
proof (induction k arbitrary: n)
  case 0
  then show ?case
    by (simp add: expected_levels.simps)
next
  case (Suc k)
  then have "expected_levels ((n + 1) div 2) \<le> k"
    by (intro Suc.IH) simp
  then show ?case
    by (simp add: expected_levels.simps [of n])
qed

lemma saturating_depth: "n + 1 < 2 ^ 16 \<Longrightarrow> saturating_add (word_of_nat n :: u16) 1 = word_of_nat (Suc n)"
  by (simp add: saturating_add_def unat_of_nat_fits)

lemma climb_complete:
  "i < length level \<Longrightarrow> n + expected_levels (length level) < 2 ^ 16 \<Longrightarrow>
     climb K n i (level ! i) (result_siblings K i (word_of_nat n) level) = Ok (hd (merkle_top K RT (word_of_nat n) level))
     \<and> length (result_siblings K i (word_of_nat n) level) = expected_levels (length level)"
proof (induction "length level" arbitrary: level n i rule: less_induct)
  case less
  show ?case
  proof (cases "length level > 1")
    case False
    then obtain a where "level = [a]" "i = 0"
      using less.prems(1) by (cases level) simp_all
    then show ?thesis
      by (simp add: merkle_top_step(2) result_siblings_step(2) expected_levels_step(3))
  next
    case True
    let ?d = "word_of_nat n :: u16" and ?up = "merkle_next K RT (word_of_nat n) level"
    have half: "length ?up < length level" "i div 2 < length ?up" "Suc n + expected_levels (length ?up) < 2 ^ 16"
      using less.prems True by (simp_all add: expected_levels_step(1) [OF True])
    have up: "?up ! (i div 2) = (let s = (if even i then if i + 1 < length level then level ! (i + 1) else merkle_empty K RT ?d
        else level ! (i - 1)) in if even i then collection_branch K RT ?d (level ! i) s else collection_branch K RT ?d s (level ! i))"
    proof (cases "even i")
      case True
      then show ?thesis
        using half(2) by (subst merkle_next_nth) (auto simp: collection_branch_def)
    next
      case False
      then have "2 * (i div 2) = i - 1" "2 * (i div 2) + 1 = i"
        by presburger+
      then show ?thesis
        using half(2) False less.prems(1) by (subst merkle_next_nth) (auto simp: collection_branch_def)
    qed
    have "saturating_add ?d 1 = word_of_nat (Suc n)" "n < 2 ^ 16"
      using half(3) saturating_depth [of n] by simp_all
    then show ?thesis
      using less.hyps [OF half] True up
      by (simp add: merkle_top_step(1) result_siblings_step(1) expected_levels_step(1) Let_def)
  qed
qed

section \<open>Preimages\<close>

definition level_preimages :: "hash_fn \<Rightarrow> u16 \<Rightarrow> b256 list \<Rightarrow> bytes set" where
  "level_preimages K depth level = (\<lambda>j. collection_branch_preimage RT depth (level ! (2 * j))
     (if 2 * j + 1 < length level then level ! (2 * j + 1) else merkle_empty K RT depth)) ` {..<(length level + 1) div 2}"

text \<open>The branches hashed to compute the top of a level.\<close>

function tree_preimages :: "hash_fn \<Rightarrow> u16 \<Rightarrow> b256 list \<Rightarrow> bytes set" where
  "tree_preimages K depth level =
     (if length level > 1 then level_preimages K depth level \<union> tree_preimages K (saturating_add depth 1) (merkle_next K RT depth level)
      else {})"
  by pat_completeness auto
termination
  by (relation "measure (\<lambda>(_, _, level). length level)") auto

declare tree_preimages.simps [simp del]

text \<open>The branches hashed to verify a proof.\<close>

fun climb_preimages :: "hash_fn \<Rightarrow> nat \<Rightarrow> nat \<Rightarrow> b256 \<Rightarrow> b256 list \<Rightarrow> bytes set" where
  "climb_preimages K n i h [] = {}"
| "climb_preimages K n i h (s # ss) =
     (let p = (if even i then collection_branch_preimage RT (word_of_nat n) h s else collection_branch_preimage RT (word_of_nat n) s h) in
      insert p (climb_preimages K (n + 1) (i div 2) (K p) ss))"

lemma branch_preimage_inject:
  "collection_branch_preimage tag d l r = collection_branch_preimage tag d l' r' \<longleftrightarrow> l = l' \<and> r = r'"
  by (simp add: collection_branch_preimage_def to_be_bytes_inject)

lemma climb_sound:
  "i < length level \<Longrightarrow> length ss = expected_levels (length level) \<Longrightarrow> n + length ss < 2 ^ 16 \<Longrightarrow>
     climb K n i h ss = Ok (hd (merkle_top K RT (word_of_nat n) level)) \<Longrightarrow>
     inj_on K (tree_preimages K (word_of_nat n) level \<union> climb_preimages K n i h ss) \<Longrightarrow> h = level ! i"
proof (induction "length level" arbitrary: level n i h ss rule: less_induct)
  case less
  show ?case
  proof (cases "length level > 1")
    case False
    then obtain a where "level = [a]" "i = 0"
      using less.prems(1) by (cases level) simp_all
    then show ?thesis
      using less.prems(2,4) by (simp add: merkle_top_step(2) expected_levels_step(3))
  next
    case True
    let ?d = "word_of_nat n :: u16" and ?up = "merkle_next K RT (word_of_nat n) level"
    obtain s ss' where ss: "ss = s # ss'" "length ss' = expected_levels (length ?up)"
      using less.prems(2) True by (cases ss) (simp_all add: expected_levels_step(1))
    define p where "p = (if even i then collection_branch_preimage RT ?d h s else collection_branch_preimage RT ?d s h)"
    have d: "saturating_add ?d 1 = word_of_nat (n + 1)"
      using less.prems(3) by (simp add: saturating_depth ss(1))
    have half: "length ?up < length level" "i div 2 < length ?up" "n + 1 + length ss' < 2 ^ 16"
      using less.prems(1,3) True by (simp_all add: ss(1))
    have sets: "climb_preimages K n i h ss = insert p (climb_preimages K (n + 1) (i div 2) (K p) ss')"
        "tree_preimages K ?d level = level_preimages K ?d level \<union> tree_preimages K (word_of_nat (n + 1)) ?up"
      using True d by (simp_all add: ss(1) p_def Let_def tree_preimages.simps [of K ?d level])
    have "climb K (n + 1) (i div 2) (K p) ss' = Ok (hd (merkle_top K RT (word_of_nat (n + 1)) ?up))"
      using less.prems(3,4) d by (simp add: ss(1) p_def collection_branch_def merkle_top_step(1) [OF True] split: if_splits)
    moreover have "inj_on K (tree_preimages K (word_of_nat (n + 1)) ?up \<union> climb_preimages K (n + 1) (i div 2) (K p) ss')"
      by (rule inj_on_subset [OF less.prems(5)]) (auto simp: sets)
    ultimately have "K p = ?up ! (i div 2)"
      using less.hyps [OF half(1,2) ss(2) half(3)] by blast
    then have "K p = K (collection_branch_preimage RT ?d (level ! (2 * (i div 2)))
        (if 2 * (i div 2) + 1 < length level then level ! (2 * (i div 2) + 1) else merkle_empty K RT ?d))" (is "_ = K ?q")
      using half(2) by (simp add: merkle_next_nth)
    moreover have "?q \<in> level_preimages K ?d level"
      unfolding level_preimages_def using half(2) by (intro image_eqI [of _ _ "i div 2"]) simp_all
    ultimately have "p = ?q"
      by (intro inj_onD [OF less.prems(5)]) (simp_all add: sets)
    then show ?thesis
      using less.prems(1) by (cases "even i") (simp_all add: p_def branch_preimage_inject split: if_splits)
  qed
qed

section \<open>Result roots and proofs\<close>

definition leaf_hashes :: "hash_fn \<Rightarrow> bytes list \<Rightarrow> b256 list" where
  "leaf_hashes K vs =
     map (\<lambda>i. K (collection_leaf_preimage RT (word_of_nat (length vs)) i (vs ! i))) [0..<length vs]"

definition result_level :: "hash_fn \<Rightarrow> bytes list \<Rightarrow> b256 list" where
  "result_level K vs = (if vs = [] then [merkle_empty K RT 0] else leaf_hashes K vs)"

definition encoded_results :: "DomainBlockHeader list \<Rightarrow> bytes list \<Rightarrow> bool" where
  "encoded_results results vs \<longleftrightarrow> list_all2 (\<lambda>r v. encode_domain_header r = Ok v) results vs \<and> length vs < 2 ^ 32"

lemma length_leaf_hashes [simp]: "length (leaf_hashes K vs) = length vs"
  by (simp add: leaf_hashes_def)

lemma encoded_results_nth:
  assumes "encoded_results results vs" and "i < length vs"
  shows "length results = length vs" and "encode_domain_header (results ! i) = Ok (vs ! i)" and "length (vs ! i) < 2 ^ 32"
proof -
  show "length results = length vs" "encode_domain_header (results ! i) = Ok (vs ! i)"
    using assms by (auto simp: encoded_results_def list_all2_conv_all_nth)
  then show "length (vs ! i) < 2 ^ 32"
    using encoded_sizes(3) by (force simp: MAX_CANONICAL_OBJECT_BYTES_def)
qed

lemma collection_leaves_run:
  assumes "encoded_results results vs"
  shows "collection_leaves K RT (word_of_nat (length vs)) vs = Ok (leaf_hashes K vs)"
proof -
  have "length vs < 2 ^ 32"
    using assms by (simp add: encoded_results_def)
  then show ?thesis
    using encoded_results_nth(3) [OF assms] unfolding collection_leaves_def collect_res_eq_Ok
    by (auto simp: list_all2_conv_all_nth nth_enumerate_eq collection_leaf_def leaf_hashes_def not_le [symmetric])
qed

lemma domain_results_root_Ok:
  "domain_results_root K results = Ok root \<longleftrightarrow> (\<exists>vs. encoded_results results vs \<and>
     root = collection_root K RT (word_of_nat (length vs)) (hd (merkle_top K RT 0 (result_level K vs))))"
  (is "?l \<longleftrightarrow> ?r")
proof
  assume ?l
  then obtain vs where v: "encoded_results results vs" "merkle_collection_root K RT vs = Ok root"
    by (auto simp: domain_results_root_def encoded_results_def collect_res_eq_Ok merkle_collection_root_def not_le
        split: if_splits)
  then show ?r
    using collection_leaves_run [OF v(1), of K]
    by (intro exI [of _ "vs"]) (auto simp: merkle_collection_root_def Let_def result_level_def leaf_hashes_def split: if_splits)
next
  assume ?r
  then obtain vs where v: "encoded_results results vs"
      "root = collection_root K RT (word_of_nat (length vs)) (hd (merkle_top K RT 0 (result_level K vs)))"
    by blast
  then have "collect_res encode_domain_header results = Ok vs" "length vs < 2 ^ 32"
    by (simp_all add: encoded_results_def collect_res_eq_Ok)
  then show ?l
    using collection_leaves_run [OF v(1), of K] v(2)
    by (auto simp: domain_results_root_def merkle_collection_root_def Let_def result_level_def leaf_hashes_def)
qed

text \<open>Everything hashed under the root of a list of results, and everything hashed to verify a proof.\<close>

definition result_preimages :: "hash_fn \<Rightarrow> DomainBlockHeader list \<Rightarrow> bytes set" where
  "result_preimages K results =
     (case collect_res encode_domain_header results of
        Ok vs \<Rightarrow> (\<lambda>i. collection_leaf_preimage RT (word_of_nat (length vs)) i (vs ! i)) ` {..<length vs}
          \<union> tree_preimages K 0 (result_level K vs)
          \<union> {collection_root_preimage RT (word_of_nat (length vs)) (hd (merkle_top K RT 0 (result_level K vs)))}
      | Err _ \<Rightarrow> {})"

definition result_proof_preimages :: "hash_fn \<Rightarrow> DomainResultProof \<Rightarrow> bytes set" where
  "result_proof_preimages K p =
     (case encode_domain_header (rp_result p) of
        Ok v \<Rightarrow>
          (let leaf = collection_leaf_preimage RT (rp_count p) (unat (rp_index p)) v in
           insert leaf (climb_preimages K 0 (unat (rp_index p)) (K leaf) (rp_siblings p))
           \<union> (case climb K 0 (unat (rp_index p)) (K leaf) (rp_siblings p) of
                Ok h \<Rightarrow> {collection_root_preimage RT (rp_count p) h} | Err _ \<Rightarrow> {}))
      | Err _ \<Rightarrow> {})"

lemma root_preimage_inject:
  "collection_root_preimage tag n h = collection_root_preimage tag n' h' \<longleftrightarrow> n = n' \<and> h = h'"
  by (simp add: collection_root_preimage_def to_be_bytes_inject)

lemma leaf_preimage_value:
  "collection_leaf_preimage tag n i v = collection_leaf_preimage tag n i' v' \<Longrightarrow> v = v'"
  by (simp add: collection_leaf_preimage_def to_be_bytes_inject)

lemma expected_levels_u32: "unat n \<le> 2 ^ 32 \<Longrightarrow> expected_levels (unat n) < 2 ^ 16"
  using expected_levels_bound [of "unat n" 32] by simp

lemma result_proof_accepts:
  assumes "encoded_results results vs" and "i < length results"
    and "root = collection_root K RT (word_of_nat (length vs)) (hd (merkle_top K RT 0 (result_level K vs)))"
  shows "result_proof_verify K \<lparr>rp_root = root, rp_result = results ! i, rp_index = word_of_nat i,
    rp_count = word_of_nat (length vs), rp_siblings = result_siblings K i 0 (leaf_hashes K vs)\<rparr> = Ok ()"
proof -
  have len: "length results = length vs" "i < length vs" "length vs < 2 ^ 32"
    using assms(1,2) by (auto simp: encoded_results_def dest: list_all2_lengthD)
  have n: "unat (word_of_nat (length vs) :: u32) = length vs" "unat (word_of_nat i :: u32) = i"
    using len by (simp_all add: unat_of_nat_fits)
  note enc = encoded_results_nth(2,3) [OF assms(1) len(2)]
  have "expected_levels (length vs) < 2 ^ 16"
    using expected_levels_bound [of "length vs" 32] len(3) by simp
  then have "climb K 0 i (leaf_hashes K vs ! i) (result_siblings K i 0 (leaf_hashes K vs)) = Ok (hd (merkle_top K RT 0 (leaf_hashes K vs)))
      \<and> length (result_siblings K i 0 (leaf_hashes K vs)) = expected_levels (length vs)"
    using climb_complete [of i "leaf_hashes K vs" 0 K] len(2) by simp
  moreover have "vs \<noteq> []" "leaf_hashes K vs ! i = K (collection_leaf_preimage RT (word_of_nat (length vs)) i (vs ! i))"
    using len(2) by (auto simp: leaf_hashes_def)
  moreover have "(word_of_nat (length vs) :: u32) \<noteq> 0" "\<not> (word_of_nat i :: u32) \<ge> word_of_nat (length vs)"
    using len(2) n by (auto simp: word_le_nat_alt simp flip: unat_eq_zero)
  ultimately show ?thesis
    using enc len assms(3) by (simp add: result_proof_verify_def n collection_leaf_def result_level_def)
qed

lemma result_proof_sound:
  assumes vs: "encoded_results results vs"
    and root: "rp_root p = collection_root K RT (word_of_nat (length vs)) (hd (merkle_top K RT 0 (result_level K vs)))"
    and ok: "result_proof_verify K p = Ok ()" and inj: "inj_on K (result_preimages K results \<union> result_proof_preimages K p)"
  shows "unat (rp_count p) = length results \<and> unat (rp_index p) < length results \<and> rp_result p = results ! unat (rp_index p)"
proof -
  let ?i = "unat (rp_index p)" and ?n = "word_of_nat (length vs) :: u32"
  obtain v where v: "encode_domain_header (rp_result p) = Ok v"
    using ok by (auto simp: result_proof_verify_def split: if_splits)
  define leaf where "leaf = collection_leaf_preimage RT (rp_count p) ?i v"
  obtain h where h: "climb K 0 ?i (K leaf) (rp_siblings p) = Ok h" "collection_root K RT (rp_count p) h = rp_root p"
      and shape: "rp_index p < rp_count p" "length (rp_siblings p) = expected_levels (unat (rp_count p))"
    using ok v by (auto simp: result_proof_verify_def collection_leaf_def leaf_def split: if_splits)
  have col: "collect_res encode_domain_header results = Ok vs" and len: "length results = length vs" "length vs < 2 ^ 32"
    using vs by (auto simp: encoded_results_def collect_res_eq_Ok dest: list_all2_lengthD)
  have pres: "result_proof_preimages K p = insert leaf (climb_preimages K 0 ?i (K leaf) (rp_siblings p))
      \<union> {collection_root_preimage RT (rp_count p) h}"
    by (simp add: result_proof_preimages_def v h(1) Let_def insert_commute flip: leaf_def)
  note rpres = result_preimages_def [of K results, unfolded col, simplified]
  have "collection_root_preimage RT (rp_count p) h = collection_root_preimage RT ?n (hd (merkle_top K RT 0 (result_level K vs)))"
    using h(2) root by (intro inj_onD [OF inj]) (simp_all add: collection_root_def pres rpres)
  then have eq: "rp_count p = ?n" "h = hd (merkle_top K RT 0 (result_level K vs))"
    by (simp_all add: root_preimage_inject)
  have cnt: "unat (rp_count p) = length vs" "?i < length vs"
    using shape(1) len(2) by (simp_all add: eq(1) word_less_nat_alt unat_of_nat_fits)
  then have level: "result_level K vs = leaf_hashes K vs"
    by (auto simp: result_level_def)
  have "expected_levels (length vs) < 2 ^ 16"
    using expected_levels_bound [of "length vs" 32] len(2) by simp
  moreover have "inj_on K (tree_preimages K 0 (leaf_hashes K vs) \<union> climb_preimages K 0 ?i (K leaf) (rp_siblings p))"
    by (rule inj_on_subset [OF inj]) (auto simp: pres rpres level)
  ultimately have "K leaf = leaf_hashes K vs ! ?i"
    using climb_sound [of ?i "leaf_hashes K vs" "rp_siblings p" 0 K "K leaf"] cnt shape(2) h(1) eq(2) level by simp
  then have "leaf = collection_leaf_preimage RT ?n ?i (vs ! ?i)"
    using cnt(2) by (intro inj_onD [OF inj]) (simp_all add: leaf_hashes_def pres rpres)
  then have "encode_domain_header (rp_result p) = encode_domain_header (results ! ?i)"
    using v encoded_results_nth(2) [OF vs cnt(2)] leaf_preimage_value by (metis leaf_def eq(1))
  then have "rp_result p = results ! ?i"
    using v domain_header_exact by (metis result.inject(1))
  with cnt len(1) show ?thesis
    by simp
qed

lemma position_Some: "position P xs = Some i \<Longrightarrow> i < length xs \<and> P (xs ! i)"
  by (auto simp: position_def find_Some_iff)

lemma position_None: "position P xs = None \<longleftrightarrow> (\<forall>x \<in> set xs. \<not> P x)"
  by (simp add: position_def find_None_iff all_set_conv_all_nth)

lemma domain_result_proof_run:
  assumes "encoded_results (cb_domain_blocks b) vs"
    and "position (\<lambda>h. dh_domain_id h = d) (cb_domain_blocks b) = Some i"
  shows "domain_result_proof K b d = Ok (Some \<lparr>rp_root = ch_domain_results_root (cb_header b), rp_result = cb_domain_blocks b ! i,
    rp_index = word_of_nat i, rp_count = word_of_nat (length vs), rp_siblings = result_siblings K i 0 (leaf_hashes K vs)\<rparr>)"
proof -
  have "collect_res encode_domain_header (cb_domain_blocks b) = Ok vs" "length vs < 2 ^ 32" "i < length vs"
    using assms position_Some [OF assms(2)] by (auto simp: encoded_results_def collect_res_eq_Ok dest: list_all2_lengthD)
  then show ?thesis
    using collection_leaves_run [OF assms(1)] by (simp add: domain_result_proof_def assms(2))
qed

lemma encode_domain_header_length: "\<exists>v. encode_domain_header h = Ok v \<and> length v = 491"
  by (simp add: encode_domain_header_def encoder_finish_def encoder_tagged_def DOMAIN_HEADER_TAG_def ascii_def
      MAX_CANONICAL_OBJECT_BYTES_def)

definition sample_result :: DomainBlockHeader where
  "sample_result = \<lparr>dh_protocol_version = 1, dh_domain_id = 7, dh_number = 3, dh_parent_hash = 0, dh_consensus_height = 3,
     dh_transactions_root = 0, dh_state_root = 0, dh_receipts_root = 0, dh_logs_bloom = 0, dh_gas_limit = 30000000,
     dh_gas_used = 0, dh_base_fee_per_gas = 7\<rparr>"

definition sample_block :: ConsensusBlock where
  "sample_block = \<lparr>cb_header = \<lparr>ch_protocol_version = 1, ch_network_id = 5, ch_height = 3, ch_parent_hash = 0, ch_timestamp = 9,
     ch_batches_root = 0, ch_domain_results_root = 77, ch_domain_heads_root = 0, ch_validator_set_hash = 0,
     ch_next_validator_set_hash = 0, ch_proposer = 0\<rparr>, cb_batches = [], cb_domain_blocks = [sample_result]\<rparr>"

definition sample_result_proof :: DomainResultProof where
  "sample_result_proof = \<lparr>rp_root = 77, rp_result = sample_result, rp_index = 0, rp_count = 1, rp_siblings = []\<rparr>"

lemma sample_lengths:
  "length (collection_leaf_preimage RT n i v) = 33 + length v" "length (collection_root_preimage RT n h) = 77"
  by (simp_all add: collection_leaf_preimage_def collection_root_preimage_def RESULT_LEAF_TAG_def MERKLE_ROOT_TAG_def ascii_def)

lemma sample_root: "domain_results_root sample_hash [sample_result] = Ok 77"
  unfolding domain_results_root_Ok
  using encode_domain_header_length [of sample_result]
  by (auto simp: encoded_results_def result_level_def merkle_top_step(2) collection_root_def sample_hash_def sample_lengths)

lemma sample_preimages:
  "\<exists>a b. length a = 524 \<and> length b = 77
     \<and> result_preimages sample_hash [sample_result] \<union> result_proof_preimages sample_hash sample_result_proof = {a, b}"
proof -
  obtain v where v: "encode_domain_header sample_result = Ok v" "length v = 491"
    using encode_domain_header_length by blast
  then have "result_preimages sample_hash [sample_result] \<union> result_proof_preimages sample_hash sample_result_proof
      = {collection_leaf_preimage RT 1 0 v, collection_root_preimage RT 1 (sample_hash (collection_leaf_preimage RT 1 0 v))}"
    by (auto simp: result_preimages_def result_proof_preimages_def sample_result_proof_def result_level_def leaf_hashes_def
        merkle_top_step(2) tree_preimages.simps Let_def)
  then show ?thesis
    using v(2) by (intro exI [of _ "collection_leaf_preimage RT 1 0 v"]
        exI [of _ "collection_root_preimage RT 1 (sample_hash (collection_leaf_preimage RT 1 0 v))"]) (simp add: sample_lengths)
qed

text \<open>
  (C36) For a block whose header commits to its domain results, \<open>domain_result_proof\<close> never fails: it
  answers with no proof exactly for the domains that have no result in the block, and otherwise with a
  proof of that domain's result against the committed root which \<open>verify\<close> accepts. Conversely any proof
  against that root which \<open>verify\<close> accepts, whoever made it, names the right number of results and one
  of them at its own index, provided Keccak-256 does not collide on the strings hashed by the tree and by
  the proof.
\<close>

theorem result_proofs_complete_and_sound:
  assumes "domain_results_root K (cb_domain_blocks b) = Ok (ch_domain_results_root (cb_header b))"
  shows "(case domain_result_proof K b d of
      Ok None \<Rightarrow> (\<forall>r \<in> set (cb_domain_blocks b). dh_domain_id r \<noteq> d)
    | Ok (Some p) \<Rightarrow> result_proof_verify K p = Ok () \<and> rp_root p = ch_domain_results_root (cb_header b)
        \<and> dh_domain_id (rp_result p) = d \<and> rp_result p \<in> set (cb_domain_blocks b)
    | Err _ \<Rightarrow> False)
    \<and> (result_proof_verify K p = Ok () \<and> rp_root p = ch_domain_results_root (cb_header b)
       \<and> inj_on K (result_preimages K (cb_domain_blocks b) \<union> result_proof_preimages K p) \<longrightarrow>
       unat (rp_count p) = length (cb_domain_blocks b) \<and> unat (rp_index p) < length (cb_domain_blocks b)
       \<and> rp_result p = cb_domain_blocks b ! unat (rp_index p))"
proof -
  obtain vs where vs: "encoded_results (cb_domain_blocks b) vs" "ch_domain_results_root (cb_header b)
      = collection_root K RT (word_of_nat (length vs)) (hd (merkle_top K RT 0 (result_level K vs)))"
    using assms by (auto simp: domain_results_root_Ok)
  note sound = result_proof_sound [OF vs(1), of p K]
  show ?thesis
  proof (cases "position (\<lambda>h. dh_domain_id h = d) (cb_domain_blocks b)")
    case None
    then have "domain_result_proof K b d = Ok None"
      by (simp add: domain_result_proof_def)
    with None sound vs(2) show ?thesis
      by (auto simp: position_None)
  next
    case (Some i)
    then show ?thesis
      using domain_result_proof_run [OF vs(1) Some, of K] position_Some [OF Some]
        result_proof_accepts [OF vs(1) _ vs(2), of i] sound vs(2) by auto
  qed
qed

theorem result_proofs_complete_and_sound_witness:
  "(\<exists>p. domain_result_proof sample_hash sample_block 7 = Ok (Some p) \<and> result_proof_verify sample_hash p = Ok ())
   \<and> result_proof_verify sample_hash sample_result_proof = Ok () \<and> rp_result sample_result_proof = cb_domain_blocks sample_block ! 0"
proof -
  have inj: "inj_on sample_hash (result_preimages sample_hash [sample_result] \<union> result_proof_preimages sample_hash sample_result_proof)"
    using sample_preimages by (auto simp: sample_hash_def)
  obtain v where v: "encode_domain_header sample_result = Ok v" "length v = 491"
    using encode_domain_header_length by blast
  have ok: "result_proof_verify sample_hash sample_result_proof = Ok ()"
    using v by (simp add: result_proof_verify_def sample_result_proof_def expected_levels_step collection_leaf_def collection_root_def
        sample_hash_def sample_lengths)
  show ?thesis
    using result_proofs_complete_and_sound [of sample_hash sample_block 7 sample_result_proof] sample_root inj ok
    by (auto simp: sample_block_def sample_result_proof_def sample_result_def split: result.splits option.splits)
qed

end
