(* ===== verification/Chain_State.thy ===== *)
theory Chain_State
  imports Chain_Blocks
begin

text \<open>
  \<open>arbor-chain/src/lib.rs\<close>, the finalized application view: domain configurations, genesis, runtime
  creation of domains, genealogies, checkpoints, and the execution of a proposal by
  \<open>ChainMachine\<close>. The functions that hash or execute take the executor's parameters \<open>X\<close>; its Keccak-256
  is \<open>xo_keccak X\<close>.
\<close>

section \<open>Domain configurations\<close>

record DomainConfig =
  dcfg_chain_id :: u64
  dcfg_protocol_revision :: u32
  dcfg_gas_limit :: u64
  dcfg_initial_base_fee_per_gas :: u128

definition domain_config_validate :: "DomainConfig \<Rightarrow> (unit, ChainError) result" where
  "domain_config_validate c =
     (if dcfg_chain_id c = 0 then Err (InvalidDomainConfig ''chain ID must be non-zero'')
      else if dcfg_gas_limit c = 0 \<or> dcfg_gas_limit c > MAX_DOMAIN_BLOCK_GAS
      then Err (InvalidDomainConfig ''gas limit must be in 1..=30,000,000'')
      else if dcfg_initial_base_fee_per_gas c > ucast (- 1 :: u64)
      then Err (InvalidDomainConfig ''base fee exceeds the fixed EVM block field'')
      else
        bind_res (map_err (\<lambda>_. InvalidDomainConfig ''unknown protocol revision'')
          (executor_service_new (dcfg_protocol_revision c))) (\<lambda>_. Ok ()))"

section \<open>Finalized state\<close>

record FinalizedDomain =
  fd_config :: DomainConfig
  fd_header :: DomainBlockHeader
  fd_block_hash :: b256
  fd_state :: ExecutionState

record FinalizedChainGenesis =
  fg_network_id :: NetworkId
  fg_consensus_hash :: b256
  fg_timestamp :: u64
  fg_validator_set_hash :: b256
  fg_root_domain_id :: DomainId
  fg_governance_address :: address
  fg_config :: DomainConfig
  fg_state :: ExecutionState

record FinalizedChainState =
  fs_network_id :: NetworkId
  fs_height :: ConsensusHeight
  fs_consensus_hash :: b256
  fs_timestamp :: u64
  fs_validator_set_hash :: b256
  fs_next_validator_set_hash :: b256
  fs_root_domain_id :: DomainId
  fs_governance_address :: address
  fs_domains :: "(DomainId, FinalizedDomain) btree_map"
  fs_descriptors :: "(DomainId, DomainDescriptor) btree_map"

record FinalizedDomainCheckpoint =
  fdc_domain_id :: DomainId
  fdc_config :: DomainConfig
  fdc_header :: DomainBlockHeader
  fdc_block_hash :: b256
  fdc_state :: ExecutionState
  fdc_descriptor :: "DomainDescriptor option"

record FinalizedChainCheckpoint =
  fcc_network_id :: NetworkId
  fcc_height :: ConsensusHeight
  fcc_consensus_hash :: b256
  fcc_timestamp :: u64
  fcc_validator_set_hash :: b256
  fcc_next_validator_set_hash :: b256
  fcc_root_domain_id :: DomainId
  fcc_governance_address :: address
  fcc_domain_heads_root :: b256
  fcc_domains :: "FinalizedDomainCheckpoint list"

definition empty_ordered_trie_root :: "exec_ops \<Rightarrow> b256" where
  "empty_ordered_trie_root X = transactions_root X []"

text \<open>The block number zero of a domain, as genesis and runtime creation write it.\<close>

definition genesis_header :: "exec_ops \<Rightarrow> DomainId \<Rightarrow> ConsensusHeight \<Rightarrow> DomainConfig \<Rightarrow> ExecutionState \<Rightarrow> DomainBlockHeader" where
  "genesis_header X domain_id height config st =
     \<lparr>dh_protocol_version = PROTOCOL_VERSION, dh_domain_id = domain_id, dh_number = 0, dh_parent_hash = 0,
      dh_consensus_height = height, dh_transactions_root = empty_ordered_trie_root X, dh_state_root = state_root st,
      dh_receipts_root = empty_ordered_trie_root X, dh_logs_bloom = 0, dh_gas_limit = dcfg_gas_limit config,
      dh_gas_used = 0, dh_base_fee_per_gas = dcfg_initial_base_fee_per_gas config\<rparr>"

definition genesis_domain :: "exec_ops \<Rightarrow> DomainId \<Rightarrow> ConsensusHeight \<Rightarrow> DomainConfig \<Rightarrow> ExecutionState
    \<Rightarrow> (FinalizedDomain, ChainError) result" where
  "genesis_domain X domain_id height config st =
     (let header = genesis_header X domain_id height config st in
      bind_res (crypto_hash (domain_header_hash (xo_keccak X) header)) (\<lambda>block_hash.
      Ok \<lparr>fd_config = config, fd_header = header, fd_block_hash = block_hash, fd_state = st\<rparr>))"

definition chain_genesis :: "exec_ops \<Rightarrow> FinalizedChainGenesis \<Rightarrow> (FinalizedChainState, ChainError) result" where
  "chain_genesis X g =
     bind_res (domain_config_validate (fg_config g)) (\<lambda>_.
     bind_res (genesis_domain X (fg_root_domain_id g) 0 (fg_config g) (fg_state g)) (\<lambda>d.
     Ok \<lparr>fs_network_id = fg_network_id g, fs_height = 0, fs_consensus_hash = fg_consensus_hash g,
       fs_timestamp = fg_timestamp g, fs_validator_set_hash = fg_validator_set_hash g,
       fs_next_validator_set_hash = fg_validator_set_hash g, fs_root_domain_id = fg_root_domain_id g,
       fs_governance_address = fg_governance_address g, fs_domains = [(fg_root_domain_id g, d)], fs_descriptors = []\<rparr>))"

definition chain_domain :: "FinalizedChainState \<Rightarrow> DomainId \<Rightarrow> FinalizedDomain option" where
  "chain_domain s domain_id = bt_get (fs_domains s) domain_id"

definition domain_descriptor :: "FinalizedChainState \<Rightarrow> DomainId \<Rightarrow> DomainDescriptor option" where
  "domain_descriptor s domain_id = bt_get (fs_descriptors s) domain_id"

definition insert_genesis_domain :: "exec_ops \<Rightarrow> FinalizedChainState \<Rightarrow> DomainId \<Rightarrow> DomainConfig \<Rightarrow> ExecutionState
    \<Rightarrow> (FinalizedChainState, ChainError) result" where
  "insert_genesis_domain X s domain_id config st =
     bind_res (domain_config_validate config) (\<lambda>_.
     if bt_contains (fs_domains s) domain_id then Err (DuplicateGenesisDomain domain_id)
     else
       bind_res (genesis_domain X domain_id 0 config st) (\<lambda>d.
       Ok (s\<lparr>fs_domains := bt_insert domain_id d (fs_domains s)\<rparr>)))"

section \<open>Genealogy\<close>

text \<open>Each turn puts a new domain into \<open>seen\<close>, and only domains with a descriptor go round again.\<close>

lemma genealogy_progress:
  assumes "bt_get ds current = Some d" and "dd_parent_domain_id d \<notin> seen" and "current \<in> seen"
  shows "card (set (bt_keys ds) - (insert (dd_parent_domain_id d) seen - {dd_parent_domain_id d}))
    < card (set (bt_keys ds) - (seen - {current}))"
proof (rule psubset_card_mono)
  have "current \<in> set (bt_keys ds)"
    using assms(1) by (force simp: bt_get_def bt_keys_def dest: map_of_SomeD)
  then show "set (bt_keys ds) - (insert (dd_parent_domain_id d) seen - {dd_parent_domain_id d}) \<subset> set (bt_keys ds) - (seen - {current})"
    using assms(2,3) by auto
qed simp

text \<open>The loop from a domain towards the root; \<open>reversed\<close> is the path so far, \<open>seen\<close> its members.\<close>

function genealogy_from :: "(DomainId, DomainDescriptor) btree_map \<Rightarrow> DomainId \<Rightarrow> DomainId \<Rightarrow> DomainId set \<Rightarrow> DomainId list
    \<Rightarrow> (DomainId list, ChainError) result" where
  "genealogy_from descriptors root current seen reversed =
     (if current = root then Ok (rev reversed)
      else case bt_get descriptors current of
        None \<Rightarrow> Err (RegistryInvariant ''missing parent descriptor'')
      | Some descriptor \<Rightarrow>
          let current = dd_parent_domain_id descriptor in
          if current \<in> seen then Err (RegistryInvariant ''cyclic domain genealogy'')
          else genealogy_from descriptors root current (insert current seen) (reversed @ [current]))"
  by pat_completeness auto

termination
proof (relation "measures [\<lambda>(_, _, current, seen, _). if current \<in> seen then 0 else 1,
    \<lambda>(ds, _, current, seen, _). card (set (bt_keys ds) - (seen - {current}))]")
  fix ds :: "(DomainId, DomainDescriptor) btree_map" and root current x :: DomainId and seen :: "DomainId set"
    and reversed :: "DomainId list" and d :: DomainDescriptor
  assume "bt_get ds current = Some d" "x = dd_parent_domain_id d" "x \<notin> seen"
  then show "((ds, root, x, insert x seen, reversed @ [x]), ds, root, current, seen, reversed)
      \<in> measures [\<lambda>(_, _, current, seen, _). if current \<in> seen then 0 else 1,
        \<lambda>(ds, _, current, seen, _). card (set (bt_keys ds) - (seen - {current}))]"
    using genealogy_progress [of ds current d seen] by (cases "current \<in> seen") simp_all
qed simp

declare genealogy_from.simps [simp del]

definition genealogy :: "FinalizedChainState \<Rightarrow> DomainId \<Rightarrow> (DomainId list, ChainError) result" where
  "genealogy s domain_id =
     (if \<not> bt_contains (fs_domains s) domain_id then Err (UnknownDomain domain_id)
      else genealogy_from (fs_descriptors s) (fs_root_domain_id s) domain_id {domain_id} [domain_id])"

section \<open>Commitment to the domain heads\<close>

definition heads_commitment :: "hash_fn \<Rightarrow> (DomainId, FinalizedDomain) btree_map \<Rightarrow> DomainHeadsCommitment" where
  "heads_commitment K domains =
     fold (\<lambda>(domain_id, d) heads. heads_insert K domain_id
       \<lparr>head_domain_block_hash = fd_block_hash d, head_state_root = dh_state_root (fd_header d)\<rparr> heads) domains heads_new"

definition chain_domain_heads_root :: "hash_fn \<Rightarrow> FinalizedChainState \<Rightarrow> b256" where
  "chain_domain_heads_root K s = heads_root K (heads_commitment K (fs_domains s))"

definition domain_head_proof :: "hash_fn \<Rightarrow> FinalizedChainState \<Rightarrow> DomainId \<Rightarrow> DomainHeadProof option" where
  "domain_head_proof K s domain_id =
     (if bt_contains (fs_domains s) domain_id then Some (heads_proof K (heads_commitment K (fs_domains s)) domain_id)
      else None)"

section \<open>Checkpoints\<close>

definition chain_checkpoint :: "hash_fn \<Rightarrow> FinalizedChainState \<Rightarrow> FinalizedChainCheckpoint" where
  "chain_checkpoint K s =
     \<lparr>fcc_network_id = fs_network_id s, fcc_height = fs_height s, fcc_consensus_hash = fs_consensus_hash s,
      fcc_timestamp = fs_timestamp s, fcc_validator_set_hash = fs_validator_set_hash s,
      fcc_next_validator_set_hash = fs_next_validator_set_hash s, fcc_root_domain_id = fs_root_domain_id s,
      fcc_governance_address = fs_governance_address s, fcc_domain_heads_root = chain_domain_heads_root K s,
      fcc_domains = map (\<lambda>(domain_id, d). \<lparr>fdc_domain_id = domain_id, fdc_config = fd_config d, fdc_header = fd_header d,
        fdc_block_hash = fd_block_hash d, fdc_state = fd_state d, fdc_descriptor = bt_get (fs_descriptors s) domain_id\<rparr>)
        (fs_domains s)\<rparr>"

definition validate_checkpoint_descriptor :: "hash_fn \<Rightarrow> NetworkId \<Rightarrow> DomainId \<Rightarrow> DomainConfig \<Rightarrow> DomainDescriptor
    \<Rightarrow> (unit, ChainError) result" where
  "validate_checkpoint_descriptor K network_id domain_id config descriptor =
     (if dd_domain_id descriptor \<noteq> domain_id \<or> dd_status descriptor \<noteq> Active
        \<or> dd_evm_chain_id descriptor \<noteq> dcfg_chain_id config
        \<or> dd_protocol_revision descriptor \<noteq> dcfg_protocol_revision config
        \<or> dd_gas_limit descriptor \<noteq> dcfg_gas_limit config
        \<or> dd_initial_base_fee descriptor \<noteq> dcfg_initial_base_fee_per_gas config
        \<or> derive_domain_id K network_id (dd_parent_domain_id descriptor) (dd_create_tx_hash descriptor) \<noteq> domain_id
      then Err (CheckpointError ''runtime domain descriptor mismatch'') else Ok ())"

text \<open>The variables of the loop over the entries: domains, descriptors and chain IDs.\<close>

type_synonym reconstruction =
  "(DomainId, FinalizedDomain) btree_map \<times> (DomainId, DomainDescriptor) btree_map \<times> u64 set"

definition reconstruct_entry :: "hash_fn \<Rightarrow> NetworkId \<Rightarrow> DomainId \<Rightarrow> ConsensusHeight \<Rightarrow> FinalizedDomainCheckpoint
    \<Rightarrow> reconstruction \<Rightarrow> (reconstruction, ChainError) result" where
  "reconstruct_entry K network_id root_domain_id height entry = (\<lambda>(domains, descriptors, chain_ids).
     bind_res (domain_config_validate (fdc_config entry)) (\<lambda>_.
     bind_res
       (if dh_domain_id (fdc_header entry) \<noteq> fdc_domain_id entry
          \<or> dh_state_root (fdc_header entry) \<noteq> state_root (fdc_state entry)
          \<or> dh_consensus_height (fdc_header entry) > height
          \<or> dh_gas_limit (fdc_header entry) \<noteq> dcfg_gas_limit (fdc_config entry)
        then Ok True
        else bind_res (crypto_hash (domain_header_hash K (fdc_header entry))) (\<lambda>hash. Ok (hash \<noteq> fdc_block_hash entry)))
       (\<lambda>mismatch.
     if mismatch then Err (CheckpointError ''domain header, state, config, or hash mismatch'')
     else if dcfg_chain_id (fdc_config entry) \<in> chain_ids then Err (CheckpointError ''duplicate checkpoint chain ID'')
     else
       bind_res
         (case (fdc_domain_id entry = root_domain_id, fdc_descriptor entry) of
            (True, None) \<Rightarrow> Ok descriptors
          | (True, Some _) \<Rightarrow> Err (CheckpointError ''root domain must not have a runtime descriptor'')
          | (False, Some descriptor) \<Rightarrow>
              bind_res (validate_checkpoint_descriptor K network_id (fdc_domain_id entry) (fdc_config entry) descriptor) (\<lambda>_.
              Ok (bt_insert (fdc_domain_id entry) descriptor descriptors))
          | (False, None) \<Rightarrow> Err (CheckpointError ''runtime domain descriptor is missing''))
         (\<lambda>descriptors.
       Ok (bt_insert (fdc_domain_id entry) \<lparr>fd_config = fdc_config entry, fd_header = fdc_header entry,
             fd_block_hash = fdc_block_hash entry, fd_state = fdc_state entry\<rparr> domains,
           descriptors, insert (dcfg_chain_id (fdc_config entry)) chain_ids)))))"

definition reconstruct_checkpoint_domains :: "hash_fn \<Rightarrow> NetworkId \<Rightarrow> DomainId \<Rightarrow> ConsensusHeight \<Rightarrow> FinalizedDomainCheckpoint list
    \<Rightarrow> ((DomainId, FinalizedDomain) btree_map \<times> (DomainId, DomainDescriptor) btree_map, ChainError) result" where
  "reconstruct_checkpoint_domains K network_id root_domain_id height entries =
     bind_res (fold_res (reconstruct_entry K network_id root_domain_id height) entries ([], [], {}))
       (\<lambda>(domains, descriptors, _). Ok (domains, descriptors))"

definition check_committed_descriptor :: "exec_ops \<Rightarrow> FinalizedDomain \<Rightarrow> (DomainId, FinalizedDomain) btree_map
    \<Rightarrow> DomainId \<times> DomainDescriptor \<Rightarrow> (unit, ChainError) result" where
  "check_committed_descriptor X root domains = (\<lambda>(domain_id, descriptor).
     if \<not> bt_contains domains (dd_parent_domain_id descriptor) then Err (CheckpointError ''descriptor parent is missing'')
     else
       bind_res (codec_hash (encode_domain_descriptor descriptor)) (\<lambda>encoded.
       bind_res (evm_hash (es_storage (xo_keccak X) (xo_rlp X) (fd_state root) CHAIN_REGISTRY_ADDRESS
         (descriptor_slot (xo_keccak X) domain_id))) (\<lambda>committed.
       if committed \<noteq> xo_keccak X encoded
       then Err (CheckpointError ''descriptor is not committed by root ChainRegistry'') else Ok ())))"

definition validate_checkpoint_descriptors :: "exec_ops \<Rightarrow> FinalizedDomain \<Rightarrow> (DomainId, FinalizedDomain) btree_map
    \<Rightarrow> (DomainId, DomainDescriptor) btree_map \<Rightarrow> (unit, ChainError) result" where
  "validate_checkpoint_descriptors X root domains descriptors =
     fold_res (\<lambda>e _. check_committed_descriptor X root domains e) descriptors ()"

definition from_checkpoint :: "exec_ops \<Rightarrow> FinalizedChainCheckpoint \<Rightarrow> (FinalizedChainState, ChainError) result" where
  "from_checkpoint X c =
     (if fcc_height c = 0 then Err (CheckpointError ''checkpoint height must be non-zero'')
      else if fcc_domains c = [] then Err (CheckpointError ''checkpoint has no domains'')
      else if \<not> successively (<) (map fdc_domain_id (fcc_domains c))
      then Err (CheckpointError ''checkpoint domains are not strictly sorted'')
      else
        bind_res (reconstruct_checkpoint_domains (xo_keccak X) (fcc_network_id c) (fcc_root_domain_id c) (fcc_height c)
          (fcc_domains c)) (\<lambda>(domains, descriptors).
        bind_res (ok_or (CheckpointError ''root domain is missing'') (bt_get domains (fcc_root_domain_id c))) (\<lambda>root.
        bind_res (validate_checkpoint_descriptors X root domains descriptors) (\<lambda>_.
        let s = \<lparr>fs_network_id = fcc_network_id c, fs_height = fcc_height c, fs_consensus_hash = fcc_consensus_hash c,
              fs_timestamp = fcc_timestamp c, fs_validator_set_hash = fcc_validator_set_hash c,
              fs_next_validator_set_hash = fcc_next_validator_set_hash c, fs_root_domain_id = fcc_root_domain_id c,
              fs_governance_address = fcc_governance_address c, fs_domains = domains, fs_descriptors = descriptors\<rparr> in
        if chain_domain_heads_root (xo_keccak X) s \<noteq> fcc_domain_heads_root c
        then Err (CheckpointError ''domain-head root mismatch'')
        else bind_res (fold_res (\<lambda>d _. bind_res (genealogy s d) (\<lambda>_. Ok ())) (bt_keys descriptors) ()) (\<lambda>_. Ok s)))))"

section \<open>Runtime creation\<close>

definition descriptor_genesis :: "DomainDescriptor \<Rightarrow> ExecutionState \<Rightarrow> DomainGenesis" where
  "descriptor_genesis d st =
     \<lparr>dg_domain_id = dd_domain_id d, dg_parent_domain_id = dd_parent_domain_id d,
      dg_joint_domain_block_hash = dd_joint_domain_block_hash d, dg_create_tx_hash = dd_create_tx_hash d,
      dg_name = dd_name d, dg_symbol = dd_symbol d, dg_evm_chain_id = dd_evm_chain_id d, dg_owner = dd_owner d,
      dg_protocol_revision = dd_protocol_revision d, dg_gas_limit = dd_gas_limit d,
      dg_initial_base_fee = dd_initial_base_fee d, dg_initial_supply = dd_initial_supply d,
      dg_initial_state_root = state_root st\<rparr>"

definition validate_domain_genesis :: "hash_fn \<Rightarrow> DomainDescriptor \<Rightarrow> ExecutionState \<Rightarrow> (unit, ChainError) result" where
  "validate_domain_genesis K descriptor st =
     bind_res (evm_hash (es_account K st (dd_owner descriptor))) (\<lambda>account.
     if (case account of None \<Rightarrow> 0 | Some a \<Rightarrow> ac_balance a) \<noteq> dd_initial_supply descriptor
     then Err (RegistryInvariant ''owner allocation differs from initial supply'')
     else
       bind_res (crypto_hash (domain_genesis_hash K (descriptor_genesis descriptor st))) (\<lambda>hash.
       if hash \<noteq> dd_origin_hash descriptor then Err (RegistryInvariant ''domain origin hash mismatch'') else Ok ()))"

definition descriptor_config :: "DomainDescriptor \<Rightarrow> DomainConfig" where
  "descriptor_config d =
     \<lparr>dcfg_chain_id = dd_evm_chain_id d, dcfg_protocol_revision = dd_protocol_revision d,
      dcfg_gas_limit = dd_gas_limit d, dcfg_initial_base_fee_per_gas = dd_initial_base_fee d\<rparr>"

definition insert_created_domain :: "exec_ops \<Rightarrow> ConsensusHeight \<Rightarrow> CreatedDomain \<Rightarrow> FinalizedChainState
    \<Rightarrow> (FinalizedChainState, ChainError) result" where
  "insert_created_domain X height created s =
     (let descriptor = cd_descriptor created in
      if bt_contains (fs_domains s) (dd_domain_id descriptor) \<or> bt_contains (fs_descriptors s) (dd_domain_id descriptor)
      then Err (DuplicateCreatedDomain (dd_domain_id descriptor))
      else if \<not> bt_contains (fs_domains s) (dd_parent_domain_id descriptor)
      then Err (RegistryInvariant ''created domain parent is absent'')
      else if dd_status descriptor \<noteq> Active
        \<or> derive_domain_id (xo_keccak X) (fs_network_id s) (dd_parent_domain_id descriptor) (dd_create_tx_hash descriptor)
          \<noteq> dd_domain_id descriptor
      then Err (RegistryInvariant ''created domain identity/status mismatch'')
      else if dd_evm_chain_id descriptor \<in> (\<lambda>d. dcfg_chain_id (fd_config d)) ` set (bt_values (fs_domains s))
      then Err (RegistryInvariant ''duplicate EVM chain ID'')
      else
        bind_res (domain_config_validate (descriptor_config descriptor)) (\<lambda>_.
        bind_res (validate_domain_genesis (xo_keccak X) descriptor (cd_genesis_state created)) (\<lambda>_.
        bind_res (genesis_domain X (dd_domain_id descriptor) height (descriptor_config descriptor) (cd_genesis_state created)) (\<lambda>d.
        Ok (s\<lparr>fs_domains := bt_insert (dd_domain_id descriptor) d (fs_domains s),
              fs_descriptors := bt_insert (dd_domain_id descriptor) descriptor (fs_descriptors s)\<rparr>)))))"

section \<open>Execution of a domain\<close>

definition derived_prevrandao :: "hash_fn \<Rightarrow> b256 \<Rightarrow> ConsensusHeight \<Rightarrow> b256" where
  "derived_prevrandao K parent_hash height =
     K (PREVRANDAO_TAG @ [CANONICAL_CODEC_VERSION] @ to_be_bytes parent_hash @ to_be_bytes height)"

text \<open>The divisors \<open>target\<close> and 8 are not zero where they are used, so \<open>checked_div\<close> is plain division.\<close>

definition next_base_fee :: "DomainBlockHeader \<Rightarrow> u128" where
  "next_base_fee parent =
     (let target = dh_gas_limit parent div 2 in
      if target = 0 \<or> dh_gas_used parent = target then dh_base_fee_per_gas parent
      else
        let parent_fee = dh_base_fee_per_gas parent in
        if dh_gas_used parent > target then
          let gas_delta = ucast (dh_gas_used parent - target);
              increase = max (saturating_mul parent_fee gas_delta div ucast target div 8) 1 in
          saturating_add parent_fee increase
        else
          let gas_delta = ucast (target - dh_gas_used parent);
              decrease = saturating_mul parent_fee gas_delta div ucast target div 8 in
          saturating_sub parent_fee decrease)"

definition execute_domain :: "exec_ops \<Rightarrow> b256 \<Rightarrow> FinalizedDomain \<Rightarrow> DomainBatch \<Rightarrow> ConsensusHeight \<Rightarrow> u64 \<Rightarrow> address
    \<Rightarrow> ChainRegistryExecutionContext \<Rightarrow> (DomainBlockHeader \<times> DomainExecutionResult \<times> FinalizedDomain, ChainError) result" where
  "execute_domain X parent_consensus_hash finalized batch height timestamp proposer registry_context =
     bind_res (ok_or (WrongDomainNumber (batch_domain_id batch)) (checked_add (dh_number (fd_header finalized)) 1)) (\<lambda>number.
     let base_fee = next_base_fee (fd_header finalized);
         env = \<lparr>de_chain_id = dcfg_chain_id (fd_config finalized), de_block_number = number, de_timestamp = timestamp,
           de_beneficiary = proposer, de_gas_limit = dcfg_gas_limit (fd_config finalized), de_base_fee_per_gas = base_fee,
           de_prevrandao = derived_prevrandao (xo_keccak X) parent_consensus_hash height\<rparr> in
     bind_res (evm_hash (executor_service_new (dcfg_protocol_revision (fd_config finalized)))) (\<lambda>service.
     bind_res (map_err (DomainExecution (batch_domain_id batch))
       (service_execute_batch_with_registry X service env (fd_state finalized) (batch_transactions batch) registry_context))
       (\<lambda>execution.
     let header = \<lparr>dh_protocol_version = PROTOCOL_VERSION, dh_domain_id = batch_domain_id batch, dh_number = number,
           dh_parent_hash = fd_block_hash finalized, dh_consensus_height = height,
           dh_transactions_root = dr_transactions_root execution, dh_state_root = state_root (dr_state execution),
           dh_receipts_root = dr_receipts_root execution, dh_logs_bloom = dr_logs_bloom execution,
           dh_gas_limit = dcfg_gas_limit (fd_config finalized), dh_gas_used = dr_gas_used execution,
           dh_base_fee_per_gas = base_fee\<rparr> in
     bind_res (crypto_hash (domain_header_hash (xo_keccak X) header)) (\<lambda>block_hash.
     Ok (header, execution, \<lparr>fd_config = fd_config finalized, fd_header = header, fd_block_hash = block_hash,
       fd_state = dr_state execution\<rparr>)))))"

section \<open>Execution of a proposal\<close>

record ValidatedProposal =
  vp_block :: ConsensusBlock
  vp_resulting_state :: FinalizedChainState
  vp_executions :: "DomainExecutionResult list"

definition ensure_batch_order :: "DomainBatch list \<Rightarrow> (unit, ChainError) result" where
  "ensure_batch_order batches =
     (if length batches < 2 \<or> successively (<) (map batch_domain_id batches) then Ok () else Err NonCanonicalBatches)"

definition validate_timestamp :: "u64 \<Rightarrow> u64 \<Rightarrow> (unit, ChainError) result" where
  "validate_timestamp parent actual =
     bind_res (ok_or (InvalidTimestamp (- 1) (- 1) actual) (checked_add parent 1)) (\<lambda>minimum.
     let maximum = saturating_add parent MAX_TIMESTAMP_STEP_SECONDS in
     if actual < minimum \<or> actual > maximum then Err (InvalidTimestamp minimum maximum actual) else Ok ())"

definition validate_aggregate_gas :: "u64 \<Rightarrow> (unit, ChainError) result" where
  "validate_aggregate_gas actual =
     (if actual > MAX_CONSENSUS_BLOCK_GAS then Err (AggregateGas MAX_CONSENSUS_BLOCK_GAS actual) else Ok ())"

text \<open>The variables of the loop over the batches.\<close>

record ProposalLoop =
  pl_resulting_state :: FinalizedChainState
  pl_domain_blocks :: "DomainBlockHeader list"
  pl_executions :: "DomainExecutionResult list"
  pl_aggregate_gas :: u64

definition execute_proposal_batch :: "exec_ops \<Rightarrow> FinalizedChainState \<Rightarrow> ConsensusHeight \<Rightarrow> u64 \<Rightarrow> address \<Rightarrow> DomainBatch
    \<Rightarrow> ProposalLoop \<Rightarrow> (ProposalLoop, ChainError) result" where
  "execute_proposal_batch X parent height timestamp proposer batch l =
     bind_res (ok_or (UnknownDomain (batch_domain_id batch)) (bt_get (fs_domains parent) (batch_domain_id batch))) (\<lambda>finalized.
     if batch_parent_domain_block_hash batch \<noteq> fd_block_hash finalized then Err (WrongDomainParent (batch_domain_id batch))
     else
       bind_res (execute_domain X (fs_consensus_hash parent) finalized batch height timestamp proposer
         \<lparr>rx_network_id = fs_network_id parent, rx_root_domain_id = fs_root_domain_id parent,
          rx_executing_domain_id = batch_domain_id batch, rx_creation_height = height,
          rx_governance_address = fs_governance_address parent,
          rx_finalized_heads = map (\<lambda>(domain_id, d). (domain_id, fd_block_hash d)) (fs_domains parent)\<rparr>)
         (\<lambda>(header, execution, next_domain).
       bind_res (ok_or (AggregateGas MAX_CONSENSUS_BLOCK_GAS (- 1)) (checked_add (pl_aggregate_gas l) (dr_gas_used execution)))
         (\<lambda>aggregate_gas.
       bind_res (validate_aggregate_gas aggregate_gas) (\<lambda>_.
       let s = pl_resulting_state l;
           s = s\<lparr>fs_domains := bt_insert (batch_domain_id batch) next_domain (fs_domains s)\<rparr> in
       bind_res (fold_res (insert_created_domain X height) (dr_created_domains execution) s) (\<lambda>s.
       Ok \<lparr>pl_resulting_state = s, pl_domain_blocks = pl_domain_blocks l @ [header],
           pl_executions = pl_executions l @ [execution], pl_aggregate_gas = aggregate_gas\<rparr>)))))"

definition execute_proposal :: "exec_ops \<Rightarrow> FinalizedChainState \<Rightarrow> DomainBatch list \<Rightarrow> u64 \<Rightarrow> address
    \<Rightarrow> (ValidatedProposal, ChainError) result" where
  "execute_proposal X parent batches timestamp proposer =
     bind_res (validate_timestamp (fs_timestamp parent) timestamp) (\<lambda>_.
     if length batches > MAX_BATCHES_PER_BLOCK then Err (TooManyBatches MAX_BATCHES_PER_BLOCK (length batches))
     else
       bind_res (ok_or WrongConsensusParent (checked_add (fs_height parent) 1)) (\<lambda>height.
       bind_res (fold_res (execute_proposal_batch X parent height timestamp proposer) batches
         \<lparr>pl_resulting_state = parent, pl_domain_blocks = [], pl_executions = [], pl_aggregate_gas = 0\<rparr>) (\<lambda>l.
       bind_res (batches_root (xo_keccak X) batches) (\<lambda>batches_root.
       bind_res (domain_results_root (xo_keccak X) (pl_domain_blocks l)) (\<lambda>domain_results_root.
       let header = \<lparr>ch_protocol_version = PROTOCOL_VERSION, ch_network_id = fs_network_id parent, ch_height = height,
             ch_parent_hash = fs_consensus_hash parent, ch_timestamp = timestamp, ch_batches_root = batches_root,
             ch_domain_results_root = domain_results_root,
             ch_domain_heads_root = chain_domain_heads_root (xo_keccak X) (pl_resulting_state l),
             ch_validator_set_hash = fs_next_validator_set_hash parent,
             ch_next_validator_set_hash = fs_next_validator_set_hash parent, ch_proposer = proposer\<rparr>;
           block = \<lparr>cb_header = header, cb_batches = batches, cb_domain_blocks = pl_domain_blocks l\<rparr> in
       bind_res (encode_consensus_block block) (\<lambda>encoded.
       if length encoded > MAX_CONSENSUS_BLOCK_BYTES then Err (BlockBytes MAX_CONSENSUS_BLOCK_BYTES (length encoded))
       else
         bind_res (block_hash_of (xo_keccak X) block) (\<lambda>consensus_hash.
         Ok \<lparr>vp_block = block,
           vp_resulting_state = (pl_resulting_state l)
             \<lparr>fs_validator_set_hash := ch_validator_set_hash header,
              fs_next_validator_set_hash := ch_next_validator_set_hash header, fs_height := height,
              fs_consensus_hash := consensus_hash, fs_timestamp := timestamp\<rparr>,
           vp_executions = pl_executions l\<rparr>)))))))"

definition build_proposal :: "exec_ops \<Rightarrow> FinalizedChainState \<Rightarrow> DomainBatch list \<Rightarrow> u64 \<Rightarrow> address
    \<Rightarrow> (ValidatedProposal, ChainError) result" where
  "build_proposal X parent batches timestamp proposer =
     (let batches = sort_key batch_domain_id batches in
      bind_res (ensure_batch_order batches) (\<lambda>_. execute_proposal X parent batches timestamp proposer))"

section \<open>Validation of a proposal\<close>

definition compare_domain_block :: "DomainBlockHeader \<times> DomainBlockHeader \<Rightarrow> (unit, ChainError) result" where
  "compare_domain_block = (\<lambda>(actual, expected).
     if dh_number actual \<noteq> dh_number expected \<or> dh_parent_hash actual \<noteq> dh_parent_hash expected
        \<or> dh_consensus_height actual \<noteq> dh_consensus_height expected
     then Err (WrongDomainNumber (dh_domain_id actual))
     else if dh_transactions_root actual \<noteq> dh_transactions_root expected
     then Err (RootMismatch TransactionsField (Some (dh_domain_id actual)))
     else if dh_state_root actual \<noteq> dh_state_root expected
     then Err (RootMismatch StateField (Some (dh_domain_id actual)))
     else if dh_receipts_root actual \<noteq> dh_receipts_root expected
     then Err (RootMismatch ReceiptsField (Some (dh_domain_id actual)))
     else if actual \<noteq> expected then Err HeaderMismatch
     else Ok ())"

definition compare_candidate :: "ConsensusBlock \<Rightarrow> ConsensusBlock \<Rightarrow> (unit, ChainError) result" where
  "compare_candidate actual expected =
     (if ch_batches_root (cb_header actual) \<noteq> ch_batches_root (cb_header expected)
      then Err (RootMismatch BatchesField None)
      else
        bind_res (fold_res (\<lambda>pair _. compare_domain_block pair) (zip (cb_domain_blocks actual) (cb_domain_blocks expected)) ())
          (\<lambda>_.
        if ch_domain_results_root (cb_header actual) \<noteq> ch_domain_results_root (cb_header expected)
        then Err (RootMismatch DomainResultsField None)
        else if ch_domain_heads_root (cb_header actual) \<noteq> ch_domain_heads_root (cb_header expected)
        then Err (RootMismatch DomainHeadsField None)
        else if cb_header actual \<noteq> cb_header expected then Err HeaderMismatch
        else Ok ()))"

definition validate_proposal :: "exec_ops \<Rightarrow> FinalizedChainState \<Rightarrow> ConsensusBlock \<Rightarrow> (ValidatedProposal, ChainError) result" where
  "validate_proposal X parent candidate =
     (if ch_protocol_version (cb_header candidate) \<noteq> PROTOCOL_VERSION
        \<or> ch_network_id (cb_header candidate) \<noteq> fs_network_id parent
        \<or> ch_height (cb_header candidate) \<noteq> saturating_add (fs_height parent) 1
        \<or> ch_parent_hash (cb_header candidate) \<noteq> fs_consensus_hash parent
      then Err WrongConsensusParent
      else
        bind_res (ensure_batch_order (cb_batches candidate)) (\<lambda>_.
        if length (cb_domain_blocks candidate) \<noteq> length (cb_batches candidate)
          \<or> list_ex (\<lambda>(batch, r). batch_domain_id batch \<noteq> dh_domain_id r) (zip (cb_batches candidate) (cb_domain_blocks candidate))
        then Err ResultAlignment
        else
          bind_res (execute_proposal X parent (cb_batches candidate) (ch_timestamp (cb_header candidate))
            (ch_proposer (cb_header candidate))) (\<lambda>expected.
          bind_res (compare_candidate candidate (vp_block expected)) (\<lambda>_. Ok expected))))"

definition executed_transaction_hashes :: "ValidatedProposal \<Rightarrow> b256 set" where
  "executed_transaction_hashes p =
     set (concat (map (\<lambda>execution. map et_transaction_hash (dr_transactions execution)) (vp_executions p)))"

definition chain_balance :: "hash_fn \<Rightarrow> FinalizedChainState \<Rightarrow> DomainId \<Rightarrow> address \<Rightarrow> u256 option" where
  "chain_balance K s domain_id who =
     (case chain_domain s domain_id of
        None \<Rightarrow> None
      | Some d \<Rightarrow> (case es_account K (fd_state d) who of Ok (Some a) \<Rightarrow> Some (ac_balance a) | _ \<Rightarrow> None))"

end
