(* ===== verification/Chain_Correct.thy ===== *)
theory Chain_Correct
  imports Chain_Proofs Chain_State
begin

text \<open>
  The finalized application view is well-formed: the invariant that genesis establishes and the
  execution of proposals keeps, genealogies under it, the exactness of proposal validation, and the
  checkpoints that can be restored.
\<close>

section \<open>Genealogies\<close>

text \<open>\<open>ps\<close> are the ancestors of \<open>c\<close>, nearest first, up to the root.\<close>

fun ascent :: "(DomainId, DomainDescriptor) btree_map \<Rightarrow> DomainId \<Rightarrow> DomainId \<Rightarrow> DomainId list \<Rightarrow> bool" where
  "ascent ds root c [] \<longleftrightarrow> c = root"
| "ascent ds root c (p # ps) \<longleftrightarrow> c \<noteq> root \<and> (\<exists>d. bt_get ds c = Some d \<and> dd_parent_domain_id d = p) \<and> ascent ds root p ps"

lemma ascent_suffix: "ascent ds root c (ps @ q # qs) \<Longrightarrow> ascent ds root q qs"
  by (induction ps arbitrary: c) auto

lemma ascent_unique: "ascent ds root c ps \<Longrightarrow> ascent ds root c qs \<Longrightarrow> ps = qs"
proof (induction ps arbitrary: c qs)
  case Nil
  then show ?case
    by (cases qs) auto
next
  case (Cons p ps)
  then show ?case
    by (cases qs) auto
qed

lemma ascent_distinct: "ascent ds root c ps \<Longrightarrow> distinct (c # ps)"
proof (induction ps arbitrary: c)
  case (Cons p ps)
  have "c \<notin> set (p # ps)"
  proof
    assume "c \<in> set (p # ps)"
    then obtain us vs where "p # ps = us @ c # vs"
      by (meson split_list)
    with Cons.prems have "ascent ds root c vs" "length vs < length (p # ps)"
      using ascent_suffix by (metis, simp)
    with Cons.prems show False
      using ascent_unique by blast
  qed
  with Cons.IH [of p] Cons.prems show ?case
    by simp
qed simp

lemma genealogy_from_exact:
  "genealogy_from ds root c seen rv = Ok path \<longleftrightarrow>
     (\<exists>ps. ascent ds root c ps \<and> distinct ps \<and> set ps \<inter> seen = {} \<and> path = rev (rv @ ps))"
proof (induction ds root c seen rv rule: genealogy_from.induct)
  case (1 ds root c seen rv)
  show ?case
  proof (cases "c = root")
    case True
    have "ascent ds root c ps \<longleftrightarrow> ps = []" for ps
      using True by (cases ps) auto
    moreover have "genealogy_from ds root c seen rv = Ok (rev rv)"
      using True by (simp add: genealogy_from.simps)
    ultimately show ?thesis
      by auto
  next
    case False
    show ?thesis
    proof (cases "bt_get ds c")
      case None
      have "\<not> ascent ds root c ps" for ps
        using False None by (cases ps) auto
      then show ?thesis
        using False None by (simp add: genealogy_from.simps [of ds root c seen rv])
    next
      case (Some d)
      let ?p = "dd_parent_domain_id d"
      have asc: "ascent ds root c ps \<longleftrightarrow> (\<exists>qs. ps = ?p # qs \<and> ascent ds root ?p qs)" for ps
        using False Some by (cases ps) auto
      have "(\<exists>ps. ascent ds root c ps \<and> Q ps) \<longleftrightarrow> (\<exists>qs. ascent ds root ?p qs \<and> Q (?p # qs))" for Q
        unfolding asc by blast
      then show ?thesis
        using "1.IH" [OF False Some refl] False Some
        by (auto simp: genealogy_from.simps [of ds root c seen rv] Let_def)
    qed
  qed
qed

lemma genealogy_exact:
  "genealogy s d = Ok path \<longleftrightarrow>
     bt_contains (fs_domains s) d \<and> (\<exists>ps. ascent (fs_descriptors s) (fs_root_domain_id s) d ps \<and> path = rev (d # ps))"
  using ascent_distinct [of "fs_descriptors s" "fs_root_domain_id s" d] by (auto simp: genealogy_def genealogy_from_exact)

lemma genealogy_is_ok:
  "is_ok (genealogy s d) \<longleftrightarrow>
     bt_contains (fs_domains s) d \<and> (\<exists>ps. ascent (fs_descriptors s) (fs_root_domain_id s) d ps)"
  using genealogy_exact [of s d] by (cases "genealogy s d") auto

lemma ascent_insert:
  "bt_wf ds \<Longrightarrow> bt_get ds k = None \<Longrightarrow> ascent ds root c ps \<Longrightarrow> ascent (bt_insert k v ds) root c ps"
  by (induction ps arbitrary: c) (auto simp: btree.get_insert)

section \<open>Invariant\<close>

definition domain_ok :: "hash_fn \<Rightarrow> ConsensusHeight \<Rightarrow> DomainId \<Rightarrow> FinalizedDomain \<Rightarrow> bool" where
  "domain_ok K height did d \<longleftrightarrow>
     domain_config_validate (fd_config d) = Ok () \<and> dh_domain_id (fd_header d) = did
     \<and> dh_state_root (fd_header d) = state_root (fd_state d) \<and> dh_consensus_height (fd_header d) \<le> height
     \<and> dh_gas_limit (fd_header d) = dcfg_gas_limit (fd_config d)
     \<and> domain_header_hash K (fd_header d) = Ok (fd_block_hash d)"

definition descriptor_ok :: "hash_fn \<Rightarrow> NetworkId \<Rightarrow> (DomainId, FinalizedDomain) btree_map \<Rightarrow> DomainId \<Rightarrow> DomainDescriptor \<Rightarrow> bool" where
  "descriptor_ok K network domains did d \<longleftrightarrow>
     dd_domain_id d = did \<and> dd_status d = Active \<and> bt_contains domains (dd_parent_domain_id d)
     \<and> derive_domain_id K network (dd_parent_domain_id d) (dd_create_tx_hash d) = did
     \<and> map_option fd_config (bt_get domains did) = Some (descriptor_config d)"

definition chain_ids_unique :: "(DomainId, FinalizedDomain) btree_map \<Rightarrow> bool" where
  "chain_ids_unique domains \<longleftrightarrow> (\<forall>i d j e. bt_get domains i = Some d \<and> bt_get domains j = Some e
     \<and> dcfg_chain_id (fd_config d) = dcfg_chain_id (fd_config e) \<longrightarrow> i = j)"

text \<open>The invariant, with domain blocks up to height \<open>h\<close>.\<close>

definition chain_ok_at :: "hash_fn \<Rightarrow> ConsensusHeight \<Rightarrow> FinalizedChainState \<Rightarrow> bool" where
  "chain_ok_at K h s \<longleftrightarrow>
     bt_wf (fs_domains s) \<and> bt_wf (fs_descriptors s)
     \<and> bt_contains (fs_domains s) (fs_root_domain_id s)
     \<and> (\<forall>did d. bt_get (fs_domains s) did = Some d \<longrightarrow> domain_ok K h did d)
     \<and> chain_ids_unique (fs_domains s)
     \<and> (\<forall>did. bt_contains (fs_descriptors s) did \<longleftrightarrow> bt_contains (fs_domains s) did \<and> did \<noteq> fs_root_domain_id s)
     \<and> (\<forall>did d. bt_get (fs_descriptors s) did = Some d \<longrightarrow> descriptor_ok K (fs_network_id s) (fs_domains s) did d)
     \<and> (\<forall>did. bt_contains (fs_domains s) did \<longrightarrow> is_ok (genealogy s did))"

definition chain_ok :: "hash_fn \<Rightarrow> FinalizedChainState \<Rightarrow> bool" where
  "chain_ok K s \<longleftrightarrow> chain_ok_at K (fs_height s) s"

lemma chain_ok_later: "chain_ok_at K h s \<Longrightarrow> h \<le> h' \<Longrightarrow> chain_ok_at K h' s"
  unfolding chain_ok_at_def domain_ok_def by (meson order_trans)

lemma bt_contains_insert: "bt_wf m \<Longrightarrow> bt_contains (bt_insert k v m) j \<longleftrightarrow> j = k \<or> bt_contains m j"
  by (simp add: bt_contains_def btree.get_insert)

lemma genesis_domain_ok:
  assumes "genesis_domain X did h c st = Ok d" and "domain_config_validate c = Ok ()"
  shows "domain_ok (xo_keccak X) h did d" and "fd_config d = c"
  using assms by (auto simp: genesis_domain_def domain_ok_def genesis_header_def Let_def)

lemma chain_genesis_ok:
  assumes "chain_genesis X g = Ok s"
  shows "chain_ok (xo_keccak X) s"
proof -
  obtain d where d: "genesis_domain X (fg_root_domain_id g) 0 (fg_config g) (fg_state g) = Ok d"
      "domain_config_validate (fg_config g) = Ok ()" "fs_domains s = [(fg_root_domain_id g, d)]" "fs_descriptors s = []"
      "fs_root_domain_id s = fg_root_domain_id g" "fs_height s = 0"
    using assms by (auto simp: chain_genesis_def)
  then have "is_ok (genealogy s (fg_root_domain_id g))"
    unfolding genealogy_is_ok by (auto simp: bt_contains_def bt_get_def intro: exI [of _ "[]"])
  then show ?thesis
    using genesis_domain_ok [OF d(1,2)] d(3-)
    by (auto simp: chain_ok_def chain_ok_at_def chain_ids_unique_def bt_wf_def bt_contains_def bt_get_def split: if_splits)
qed

section \<open>Runtime creation keeps the invariant\<close>

lemma insert_created_domain_Ok:
  assumes "insert_created_domain X h created s = Ok s'"
  defines "desc \<equiv> cd_descriptor created"
  shows "\<exists>d. s' = s\<lparr>fs_domains := bt_insert (dd_domain_id desc) d (fs_domains s),
        fs_descriptors := bt_insert (dd_domain_id desc) desc (fs_descriptors s)\<rparr>
    \<and> domain_ok (xo_keccak X) h (dd_domain_id desc) d \<and> fd_config d = descriptor_config desc
    \<and> \<not> bt_contains (fs_domains s) (dd_domain_id desc) \<and> \<not> bt_contains (fs_descriptors s) (dd_domain_id desc)
    \<and> bt_contains (fs_domains s) (dd_parent_domain_id desc) \<and> dd_status desc = Active
    \<and> derive_domain_id (xo_keccak X) (fs_network_id s) (dd_parent_domain_id desc) (dd_create_tx_hash desc) = dd_domain_id desc
    \<and> dd_evm_chain_id desc \<notin> (\<lambda>d. dcfg_chain_id (fd_config d)) ` set (bt_values (fs_domains s))"
proof -
  obtain d where d: "genesis_domain X (dd_domain_id desc) h (descriptor_config desc) (cd_genesis_state created) = Ok d"
      "domain_config_validate (descriptor_config desc) = Ok ()"
      "s' = s\<lparr>fs_domains := bt_insert (dd_domain_id desc) d (fs_domains s),
        fs_descriptors := bt_insert (dd_domain_id desc) desc (fs_descriptors s)\<rparr>"
    using assms(1) by (auto simp: insert_created_domain_def desc_def Let_def if_Err_exact)
  show ?thesis
    using assms(1) genesis_domain_ok [OF d(1,2)] d(3)
    by (intro exI [of _ d]) (auto simp: insert_created_domain_def Let_def if_Err_exact simp flip: desc_def)
qed

lemma new_chain_id_unique:
  assumes "bt_wf m" "chain_ids_unique m" "bt_get m k = None"
    and "dcfg_chain_id (fd_config d) \<notin> (\<lambda>d. dcfg_chain_id (fd_config d)) ` set (bt_values m)"
  shows "chain_ids_unique (bt_insert k d m)"
proof -
  have "bt_get m i = Some e \<Longrightarrow> e \<in> set (bt_values m)" for i e
    using bt_get_eq_Some [OF assms(1)] by (force simp: bt_values_def)
  then have "bt_get m i = Some e \<Longrightarrow> dcfg_chain_id (fd_config e) \<noteq> dcfg_chain_id (fd_config d)" for i e
    using assms(4) by (metis imageI)
  then show ?thesis
    using assms(1-3) unfolding chain_ids_unique_def btree.get_insert [OF assms(1)]
    by (metis option.inject)
qed

lemma insert_created_domain_ok:
  assumes ok: "chain_ok_at (xo_keccak X) h s" and run: "insert_created_domain X h created s = Ok s'"
  shows "chain_ok_at (xo_keccak X) h s'"
proof -
  define desc did where "desc = cd_descriptor created" and "did = dd_domain_id desc"
  obtain d where s': "s' = s\<lparr>fs_domains := bt_insert did d (fs_domains s), fs_descriptors := bt_insert did desc (fs_descriptors s)\<rparr>"
      and d: "domain_ok (xo_keccak X) h did d" "fd_config d = descriptor_config desc"
      and new: "\<not> bt_contains (fs_domains s) did" "\<not> bt_contains (fs_descriptors s) did"
        "bt_contains (fs_domains s) (dd_parent_domain_id desc)" "dd_status desc = Active"
        "derive_domain_id (xo_keccak X) (fs_network_id s) (dd_parent_domain_id desc) (dd_create_tx_hash desc) = did"
        "dd_evm_chain_id desc \<notin> (\<lambda>d. dcfg_chain_id (fd_config d)) ` set (bt_values (fs_domains s))"
    using insert_created_domain_Ok [OF run] unfolding desc_def did_def by blast
  have wf: "bt_wf (fs_domains s)" "bt_wf (fs_descriptors s)" and root: "did \<noteq> fs_root_domain_id s"
    using ok new(1) by (auto simp: chain_ok_at_def)
  have none: "bt_get (fs_domains s) did = None" "bt_get (fs_descriptors s) did = None"
    using new(1,2) by (simp_all add: bt_contains_def)
  have up: "\<exists>ps. ascent (bt_insert did desc (fs_descriptors s)) (fs_root_domain_id s) c ps" if "bt_contains (fs_domains s) c" for c
    using ok that ascent_insert [OF wf(2) none(2)] unfolding chain_ok_at_def genealogy_is_ok by meson
  then obtain ps where "ascent (bt_insert did desc (fs_descriptors s)) (fs_root_domain_id s) (dd_parent_domain_id desc) ps"
    using new(3) by blast
  then have "ascent (bt_insert did desc (fs_descriptors s)) (fs_root_domain_id s) did (dd_parent_domain_id desc # ps)"
    using root by (simp add: btree.get_insert wf)
  then have "\<exists>ps. ascent (bt_insert did desc (fs_descriptors s)) (fs_root_domain_id s) did ps"
    by blast
  with up have lineages: "is_ok (genealogy s' c)" if "bt_contains (fs_domains s') c" for c
    using that by (auto simp: genealogy_is_ok s' bt_contains_insert wf)
  have "chain_ids_unique (fs_domains s')"
    using new_chain_id_unique [OF wf(1) _ none(1)] ok new(6) d(2) by (simp add: s' chain_ok_at_def descriptor_config_def)
  moreover have "descriptor_ok (xo_keccak X) (fs_network_id s) (fs_domains s') did desc"
    using new d(2) by (simp add: descriptor_ok_def s' bt_contains_insert btree.get_insert wf did_def)
  moreover have "descriptor_ok (xo_keccak X) (fs_network_id s) (fs_domains s') j e" if "bt_get (fs_descriptors s) j = Some e" "j \<noteq> did" for j e
    using ok that by (auto simp: chain_ok_at_def descriptor_ok_def s' bt_contains_insert btree.get_insert wf)
  ultimately show ?thesis
    using ok d(1) root wf lineages
    by (auto simp: chain_ok_at_def s' bt_contains_insert btree.get_insert bt_wf_insert split: if_splits)
qed

section \<open>Execution keeps the invariant\<close>

lemma execute_domain_Ok:
  assumes "execute_domain X ph fin batch h ts who ctx = Ok (header, ex, nd)"
  shows "fd_config nd = fd_config fin \<and> fd_header nd = header \<and> dh_domain_id header = batch_domain_id batch
    \<and> (domain_config_validate (fd_config fin) = Ok () \<longrightarrow> domain_ok (xo_keccak X) h (batch_domain_id batch) nd)"
  using assms by (auto simp: execute_domain_def domain_ok_def Let_def)

text \<open>A new head for a domain it already has, under the same configuration.\<close>

lemma replace_domain_ok:
  assumes ok: "chain_ok_at K h s" and old: "bt_get (fs_domains s) k = Some d" and "fd_config d' = fd_config d" and "domain_ok K h k d'"
  shows "chain_ok_at K h (s\<lparr>fs_domains := bt_insert k d' (fs_domains s)\<rparr>)"
proof -
  let ?m = "bt_insert k d' (fs_domains s)"
  have wf: "bt_wf (fs_domains s)"
    using ok by (simp add: chain_ok_at_def)
  have dom: "bt_contains ?m j \<longleftrightarrow> bt_contains (fs_domains s) j" for j
    using old by (auto simp: bt_contains_insert [OF wf]) (simp add: bt_contains_def)
  have cfg: "map_option fd_config (bt_get ?m j) = map_option fd_config (bt_get (fs_domains s) j)" for j
    using old assms(3) by (simp add: btree.get_insert wf)
  have "chain_ids_unique ?m"
    unfolding chain_ids_unique_def
  proof (intro allI impI, elim conjE)
    fix i a j b
    assume "bt_get ?m i = Some a" "bt_get ?m j = Some b" "dcfg_chain_id (fd_config a) = dcfg_chain_id (fd_config b)"
    then have "map_option fd_config (bt_get (fs_domains s) i) = Some (fd_config a)"
        "map_option fd_config (bt_get (fs_domains s) j) = Some (fd_config b)"
      using cfg [of i] cfg [of j] by simp_all
    then show "i = j"
      using ok \<open>dcfg_chain_id (fd_config a) = dcfg_chain_id (fd_config b)\<close>
      unfolding chain_ok_at_def chain_ids_unique_def map_option_eq_Some by metis
  qed
  moreover have "domain_ok K h j e" if "bt_get ?m j = Some e" for j e
    using ok that assms(4) by (auto simp: chain_ok_at_def btree.get_insert wf split: if_splits)
  ultimately show ?thesis
    using ok by (simp add: chain_ok_at_def dom cfg descriptor_ok_def bt_wf_insert genealogy_is_ok)
qed

text \<open>Every domain of \<open>m\<close> keeps its configuration in \<open>m'\<close>.\<close>

definition configs_kept :: "(DomainId, FinalizedDomain) btree_map \<Rightarrow> (DomainId, FinalizedDomain) btree_map \<Rightarrow> bool" where
  "configs_kept m m' \<longleftrightarrow> (\<forall>k d. bt_get m k = Some d \<longrightarrow> map_option fd_config (bt_get m' k) = Some (fd_config d))"

definition loop_ok :: "exec_ops \<Rightarrow> FinalizedChainState \<Rightarrow> ConsensusHeight \<Rightarrow> FinalizedChainState \<Rightarrow> bool" where
  "loop_ok X parent h s \<longleftrightarrow>
     chain_ok_at (xo_keccak X) h s \<and> configs_kept (fs_domains parent) (fs_domains s)
     \<and> fs_network_id s = fs_network_id parent \<and> fs_root_domain_id s = fs_root_domain_id parent
     \<and> fs_governance_address s = fs_governance_address parent"

lemma configs_kept_insert:
  assumes "configs_kept m m'" and "bt_wf m'"
    and "bt_contains m' k \<Longrightarrow> map_option fd_config (bt_get m' k) = Some (fd_config d)"
  shows "configs_kept m (bt_insert k d m')"
  unfolding configs_kept_def btree.get_insert [OF assms(2)]
  using assms(1,3) by (fastforce simp: configs_kept_def bt_contains_def)

lemma loop_ok_created:
  assumes "loop_ok X parent h s" and "insert_created_domain X h created s = Ok s'"
  shows "loop_ok X parent h s'"
proof -
  have "chain_ok_at (xo_keccak X) h s'"
    using assms(1) by (intro insert_created_domain_ok [OF _ assms(2)]) (simp add: loop_ok_def)
  moreover have "configs_kept (fs_domains parent) (fs_domains s')"
    using assms insert_created_domain_Ok [OF assms(2)] by (auto simp: loop_ok_def chain_ok_at_def intro!: configs_kept_insert)
  ultimately show ?thesis
    using assms insert_created_domain_Ok [OF assms(2)] by (auto simp: loop_ok_def)
qed

lemma loop_ok_batch:
  assumes ok: "loop_ok X parent h (pl_resulting_state l)" and par: "chain_ok (xo_keccak X) parent"
    and run: "execute_proposal_batch X parent h ts who batch l = Ok l'"
  shows "loop_ok X parent h (pl_resulting_state l')"
proof -
  let ?s = "pl_resulting_state l"
  obtain fin header ex nd ctx where fin: "bt_get (fs_domains parent) (batch_domain_id batch) = Some fin"
      and ex: "execute_domain X (fs_consensus_hash parent) fin batch h ts who ctx = Ok (header, ex, nd)"
      and created: "fold_res (insert_created_domain X h) (dr_created_domains ex)
        (?s\<lparr>fs_domains := bt_insert (batch_domain_id batch) nd (fs_domains ?s)\<rparr>) = Ok (pl_resulting_state l')"
    using run by (auto simp: execute_proposal_batch_def Let_def if_Err_exact)
  have "domain_config_validate (fd_config fin) = Ok ()"
    using par fin by (simp add: chain_ok_def chain_ok_at_def domain_ok_def)
  then have nd: "fd_config nd = fd_config fin" "domain_ok (xo_keccak X) h (batch_domain_id batch) nd"
    using execute_domain_Ok [OF ex] by simp_all
  obtain d where d: "bt_get (fs_domains ?s) (batch_domain_id batch) = Some d" "fd_config d = fd_config fin"
    using ok fin by (auto simp: loop_ok_def configs_kept_def)
  have "chain_ok_at (xo_keccak X) h (?s\<lparr>fs_domains := bt_insert (batch_domain_id batch) nd (fs_domains ?s)\<rparr>)"
    using ok nd d by (intro replace_domain_ok [OF _ d(1)]) (simp_all add: loop_ok_def)
  moreover have "configs_kept (fs_domains parent) (bt_insert (batch_domain_id batch) nd (fs_domains ?s))"
    using ok nd d by (intro configs_kept_insert) (simp_all add: loop_ok_def chain_ok_at_def)
  ultimately have "loop_ok X parent h (?s\<lparr>fs_domains := bt_insert (batch_domain_id batch) nd (fs_domains ?s)\<rparr>)"
    using ok by (simp add: loop_ok_def)
  then show ?thesis
    by (rule fold_res_invariant [OF created]) (rule loop_ok_created)
qed

lemma execute_proposal_Ok:
  assumes "execute_proposal X parent batches ts who = Ok v"
  shows "\<exists>h l. checked_add (fs_height parent) 1 = Some h
    \<and> fold_res (execute_proposal_batch X parent h ts who) batches
        \<lparr>pl_resulting_state = parent, pl_domain_blocks = [], pl_executions = [], pl_aggregate_gas = 0\<rparr> = Ok l
    \<and> fs_domains (vp_resulting_state v) = fs_domains (pl_resulting_state l)
    \<and> fs_descriptors (vp_resulting_state v) = fs_descriptors (pl_resulting_state l)
    \<and> fs_network_id (vp_resulting_state v) = fs_network_id (pl_resulting_state l)
    \<and> fs_root_domain_id (vp_resulting_state v) = fs_root_domain_id (pl_resulting_state l)
    \<and> fs_height (vp_resulting_state v) = h \<and> fs_timestamp (vp_resulting_state v) = ts
    \<and> block_hash_of (xo_keccak X) (vp_block v) = Ok (fs_consensus_hash (vp_resulting_state v))
    \<and> cb_batches (vp_block v) = batches \<and> cb_domain_blocks (vp_block v) = pl_domain_blocks l
    \<and> ch_protocol_version (cb_header (vp_block v)) = PROTOCOL_VERSION \<and> ch_network_id (cb_header (vp_block v)) = fs_network_id parent
    \<and> ch_height (cb_header (vp_block v)) = h \<and> ch_parent_hash (cb_header (vp_block v)) = fs_consensus_hash parent
    \<and> ch_timestamp (cb_header (vp_block v)) = ts \<and> ch_proposer (cb_header (vp_block v)) = who"
  using assms by (auto simp: execute_proposal_def Let_def if_Err_exact)

lemma execute_proposal_ok:
  assumes ok: "chain_ok (xo_keccak X) parent" and run: "execute_proposal X parent batches ts who = Ok v"
  shows "chain_ok (xo_keccak X) (vp_resulting_state v)"
proof -
  let ?s = "vp_resulting_state v"
  obtain h l where h: "checked_add (fs_height parent) 1 = Some h" "fs_height ?s = h"
      and l: "fold_res (execute_proposal_batch X parent h ts who) batches
        \<lparr>pl_resulting_state = parent, pl_domain_blocks = [], pl_executions = [], pl_aggregate_gas = 0\<rparr> = Ok l"
      and eqs: "fs_domains ?s = fs_domains (pl_resulting_state l)" "fs_descriptors ?s = fs_descriptors (pl_resulting_state l)"
        "fs_network_id ?s = fs_network_id (pl_resulting_state l)" "fs_root_domain_id ?s = fs_root_domain_id (pl_resulting_state l)"
    using execute_proposal_Ok [OF run] by blast
  have "fs_height parent \<le> h"
    using h(1) by (auto simp: word_le_nat_alt checked_simps)
  then have "loop_ok X parent h parent"
    using ok chain_ok_later by (auto simp: loop_ok_def chain_ok_def configs_kept_def)
  then have "loop_ok X parent h (pl_resulting_state l)"
    using fold_res_invariant [OF l, of "\<lambda>l. loop_ok X parent h (pl_resulting_state l)"] loop_ok_batch [OF _ ok] by fastforce
  then have "chain_ok_at (xo_keccak X) h (pl_resulting_state l)"
    by (simp add: loop_ok_def)
  then show ?thesis
    by (simp add: chain_ok_def chain_ok_at_def genealogy_is_ok h(2) eqs)
qed

lemma validate_proposal_executes:
  "validate_proposal X parent block = Ok v \<Longrightarrow>
     execute_proposal X parent (cb_batches block) (ch_timestamp (cb_header block)) (ch_proposer (cb_header block)) = Ok v"
  by (auto simp: validate_proposal_def if_Err_exact)

section \<open>Reachable views\<close>

text \<open>From a genesis, by the proposals the node accepts.\<close>

inductive chain_reachable :: "exec_ops \<Rightarrow> FinalizedChainState \<Rightarrow> bool" for X where
  genesis: "chain_genesis X g = Ok s \<Longrightarrow> chain_reachable X s"
| finalize: "chain_reachable X s \<Longrightarrow> validate_proposal X s block = Ok v \<Longrightarrow> chain_reachable X (vp_resulting_state v)"

lemma chain_reachable_invariant: "chain_reachable X s \<Longrightarrow> chain_ok (xo_keccak X) s"
  by (induction rule: chain_reachable.induct)
    (auto intro: chain_genesis_ok execute_proposal_ok dest: validate_proposal_executes)

lemma ascent_last: "ascent ds root c ps \<Longrightarrow> last (c # ps) = root"
  by (induction ps arbitrary: c) auto

lemma ascent_links:
  "ascent ds root c ps \<Longrightarrow> i < length ps \<Longrightarrow>
     \<exists>d. bt_get ds ((c # ps) ! i) = Some d \<and> dd_parent_domain_id d = (c # ps) ! Suc i"
proof (induction ps arbitrary: c i)
  case (Cons p ps)
  then show ?case
    by (cases i) auto
qed simp

lemma ascent_members:
  assumes "chain_ok K s" and "ascent (fs_descriptors s) (fs_root_domain_id s) c ps" and "bt_contains (fs_domains s) c"
  shows "set (c # ps) \<subseteq> set (bt_keys (fs_domains s))"
  using assms(2,3)
proof (induction ps arbitrary: c)
  case (Cons p ps)
  then have "bt_contains (fs_domains s) p"
    using assms(1) by (auto simp: chain_ok_def chain_ok_at_def descriptor_ok_def)
  then show ?case
    using Cons.IH [of p] Cons.prems by (auto simp: btree.set_keys bt_contains_def)
qed (simp add: btree.set_keys bt_contains_def)

lemma genealogy_total:
  assumes "chain_ok K s" and "bt_contains (fs_domains s) d"
  shows "\<exists>path. genealogy s d = Ok path \<and> hd path = fs_root_domain_id s \<and> last path = d \<and> distinct path
    \<and> set path \<subseteq> set (bt_keys (fs_domains s)) \<and> length path \<le> length (fs_domains s)
    \<and> (\<forall>i. Suc i < length path \<longrightarrow>
         (\<exists>desc. domain_descriptor s (path ! Suc i) = Some desc \<and> dd_parent_domain_id desc = path ! i))"
proof -
  obtain ps where ps: "ascent (fs_descriptors s) (fs_root_domain_id s) d ps"
    using assms by (auto simp: chain_ok_def chain_ok_at_def genealogy_is_ok)
  let ?path = "rev (d # ps)"
  have sub: "set ?path \<subseteq> set (bt_keys (fs_domains s))" and dist: "distinct ?path"
    using ascent_members [OF assms(1) ps assms(2)] ascent_distinct [OF ps] by auto
  then have "length ?path \<le> length (fs_domains s)"
    by (metis List.finite_set card_length card_mono distinct_card length_bt_keys order_trans)
  moreover have "\<exists>desc. domain_descriptor s (?path ! Suc i) = Some desc \<and> dd_parent_domain_id desc = ?path ! i"
    if i: "Suc i < length ?path" for i
  proof -
    have eqs: "?path ! Suc i = (d # ps) ! (length ps - Suc i)" "?path ! i = (d # ps) ! Suc (length ps - Suc i)"
      using i by (simp_all add: rev_nth Suc_diff_Suc del: rev.simps)
    show ?thesis
      using ascent_links [OF ps, of "length ps - Suc i"] i unfolding eqs domain_descriptor_def by simp
  qed
  moreover have "hd ?path = fs_root_domain_id s" "genealogy s d = Ok ?path"
    using ascent_last [OF ps] assms(2) ps by (simp_all add: hd_rev genealogy_exact del: rev.simps)
  ultimately show ?thesis
    using sub dist by (intro exI [of _ ?path]) auto
qed

section \<open>Validation replays exactly\<close>

lemma batch_alignment:
  "fold_res (execute_proposal_batch X parent h ts who) batches l = Ok l' \<Longrightarrow>
     map dh_domain_id (pl_domain_blocks l') = map dh_domain_id (pl_domain_blocks l) @ map batch_domain_id batches"
proof (induction batches arbitrary: l)
  case (Cons b batches)
  then obtain l1 where l1: "execute_proposal_batch X parent h ts who b l = Ok l1"
      "fold_res (execute_proposal_batch X parent h ts who) batches l1 = Ok l'"
    by auto
  have "map dh_domain_id (pl_domain_blocks l1) = map dh_domain_id (pl_domain_blocks l) @ [batch_domain_id b]"
    using l1(1) by (auto simp: execute_proposal_batch_def Let_def if_Err_exact dest!: execute_domain_Ok)
  then show ?case
    using Cons.IH [OF l1(2)] by simp
qed simp

lemma executed_block:
  assumes "execute_proposal X parent batches ts who = Ok v"
  shows "cb_batches (vp_block v) = batches" and "map dh_domain_id (cb_domain_blocks (vp_block v)) = map batch_domain_id batches"
  using execute_proposal_Ok [OF assms] by (auto dest: batch_alignment)

lemma zip_ids:
  "map f xs = map g ys \<Longrightarrow> \<not> list_ex (\<lambda>(y, x). g y \<noteq> f x) (zip ys xs)"
  by (auto simp: list_ex_iff in_set_zip list_eq_iff_nth_eq)

lemma compare_domain_block_Ok: "compare_domain_block (a, b) = Ok () \<longleftrightarrow> a = b"
  by (auto simp: compare_domain_block_def)

lemma compare_blocks_Ok:
  "length xs = length ys \<Longrightarrow> fold_res (\<lambda>pair _. compare_domain_block pair) (zip xs ys) () = Ok () \<longleftrightarrow> xs = ys"
  by (induction xs ys rule: list_induct2) (simp_all add: compare_domain_block_Ok)

lemma compare_candidate_Ok:
  assumes "length (cb_domain_blocks a) = length (cb_domain_blocks b)"
  shows "compare_candidate a b = Ok () \<longleftrightarrow> cb_header a = cb_header b \<and> cb_domain_blocks a = cb_domain_blocks b"
  using compare_blocks_Ok [OF assms] by (auto simp: compare_candidate_def if_Err_exact)

lemma saturating_height: "checked_add (h :: u64) 1 = Some h' \<Longrightarrow> saturating_add h 1 = h'"
  by (simp add: checked_add_def saturating_add_def split: if_splits)

lemma validate_own_block:
  assumes "ensure_batch_order batches = Ok ()" and run: "execute_proposal X parent batches ts who = Ok v"
  shows "validate_proposal X parent (vp_block v) = Ok v"
proof -
  obtain h where h: "checked_add (fs_height parent) 1 = Some h" and b: "cb_batches (vp_block v) = batches"
        "ch_protocol_version (cb_header (vp_block v)) = PROTOCOL_VERSION" "ch_network_id (cb_header (vp_block v)) = fs_network_id parent"
        "ch_height (cb_header (vp_block v)) = h" "ch_parent_hash (cb_header (vp_block v)) = fs_consensus_hash parent"
        "ch_timestamp (cb_header (vp_block v)) = ts" "ch_proposer (cb_header (vp_block v)) = who"
    using execute_proposal_Ok [OF run] by blast
  have "length (cb_domain_blocks (vp_block v)) = length batches"
      "\<not> list_ex (\<lambda>(y, x). batch_domain_id y \<noteq> dh_domain_id x) (zip batches (cb_domain_blocks (vp_block v)))"
    using executed_block(2) [OF run] map_eq_imp_length_eq zip_ids by blast+
  then show ?thesis
    using run assms(1) saturating_height [OF h] compare_candidate_Ok [of "vp_block v" "vp_block v"]
    by (simp add: validate_proposal_def b)
qed

lemma validate_proposal_Ok:
  "validate_proposal X parent block = Ok v \<longleftrightarrow>
     ensure_batch_order (cb_batches block) = Ok () \<and> vp_block v = block
     \<and> execute_proposal X parent (cb_batches block) (ch_timestamp (cb_header block)) (ch_proposer (cb_header block)) = Ok v"
  (is "?l \<longleftrightarrow> ?r")
proof
  assume l: ?l
  then have run: "execute_proposal X parent (cb_batches block) (ch_timestamp (cb_header block)) (ch_proposer (cb_header block)) = Ok v"
    by (rule validate_proposal_executes)
  have "length (cb_domain_blocks block) = length (cb_batches block)" "compare_candidate block (vp_block v) = Ok ()"
      "ensure_batch_order (cb_batches block) = Ok ()"
    using l run by (auto simp: validate_proposal_def if_Err_exact)
  moreover have "length (cb_domain_blocks (vp_block v)) = length (cb_batches block)"
    using executed_block(2) [OF run] map_eq_imp_length_eq by blast
  ultimately show ?r
    using run executed_block(1) [OF run] compare_candidate_Ok [of block "vp_block v"] by simp
next
  assume ?r
  then show ?l
    using validate_own_block by blast
qed

section \<open>Properties\<close>

text \<open>
  (C33) A validator accepts a block exactly when its batches are in canonical order and replaying them on
  the finalized parent rebuilds that very block: no header field, domain result or root of an accepted
  block can differ from the replay, and the overlay returned is the one of the replay. A proposer's own
  block always passes: building and then validating gives what building gave.
\<close>

theorem proposal_validation_exact:
  "(validate_proposal X parent block = Ok v \<longleftrightarrow>
      ensure_batch_order (cb_batches block) = Ok () \<and> vp_block v = block
      \<and> execute_proposal X parent (cb_batches block) (ch_timestamp (cb_header block)) (ch_proposer (cb_header block)) = Ok v)
   \<and> build_proposal X parent batches ts who
      = bind_res (build_proposal X parent batches ts who) (\<lambda>v. validate_proposal X parent (vp_block v))"
proof
  show "build_proposal X parent batches ts who
      = bind_res (build_proposal X parent batches ts who) (\<lambda>v. validate_proposal X parent (vp_block v))"
  proof (cases "build_proposal X parent batches ts who")
    case (Ok v)
    then have "ensure_batch_order (sort_key batch_domain_id batches) = Ok ()"
        "execute_proposal X parent (sort_key batch_domain_id batches) ts who = Ok v"
      by (auto simp: build_proposal_def Let_def)
    then show ?thesis
      using Ok validate_own_block by simp
  qed simp
qed (rule validate_proposal_Ok)

definition sample_genesis :: FinalizedChainGenesis where
  "sample_genesis = \<lparr>fg_network_id = 5, fg_consensus_hash = 0, fg_timestamp = 1, fg_validator_set_hash = 0, fg_root_domain_id = 7,
     fg_governance_address = 9, fg_config = \<lparr>dcfg_chain_id = 1, dcfg_protocol_revision = 1, dcfg_gas_limit = 30000000,
       dcfg_initial_base_fee_per_gas = 1\<rparr>, fg_state = empty_state last_hash\<rparr>"

lemma u64_max_as_u128: "ucast (- 1 :: u64) = (0xFFFFFFFFFFFFFFFF :: u128)"
  by code_simp

lemma sample_genesis_runs:
  "\<exists>s d. chain_genesis sample_exec sample_genesis = Ok s \<and> fs_root_domain_id s = 7 \<and> fs_domains s = [(7, d)]"
proof -
  obtain bs where "encode_domain_header (genesis_header sample_exec 7 0 (fg_config sample_genesis) (empty_state last_hash)) = Ok bs"
    using encode_domain_header_length by blast
  then show ?thesis
    by (auto simp: chain_genesis_def genesis_domain_def domain_header_hash_def hash_encoding_def sample_genesis_def
        domain_config_validate_def u64_max_as_u128 executor_service_new_def protocol_spec_resolve_def MAX_DOMAIN_BLOCK_GAS_def)
qed

text \<open>
  (C34) In every view reachable from a genesis by accepted blocks, each domain's stored head is
  consistent: the header carries the domain's own identifier, hashes to the stored block hash, commits to
  the stored state, was made at no later height, and uses a valid configuration; no two domains share an
  EVM chain ID; the root has no descriptor and every other domain has one, active, with the identifier
  derived from its parent and creating transaction, the same configuration, and a parent that exists.
\<close>

theorem reachable_views_consistent:
  assumes "chain_reachable X s"
  shows "chain_domain s (fs_root_domain_id s) \<noteq> None \<and> domain_descriptor s (fs_root_domain_id s) = None
    \<and> (\<forall>k d. chain_domain s k = Some d \<longrightarrow>
         dh_domain_id (fd_header d) = k \<and> domain_header_hash (xo_keccak X) (fd_header d) = Ok (fd_block_hash d)
         \<and> dh_state_root (fd_header d) = state_root (fd_state d) \<and> dh_consensus_height (fd_header d) \<le> fs_height s
         \<and> domain_config_validate (fd_config d) = Ok () \<and> dh_gas_limit (fd_header d) = dcfg_gas_limit (fd_config d)
         \<and> (k \<noteq> fs_root_domain_id s \<longrightarrow> (\<exists>desc. domain_descriptor s k = Some desc \<and> dd_domain_id desc = k \<and> dd_status desc = Active
              \<and> derive_domain_id (xo_keccak X) (fs_network_id s) (dd_parent_domain_id desc) (dd_create_tx_hash desc) = k
              \<and> fd_config d = descriptor_config desc \<and> chain_domain s (dd_parent_domain_id desc) \<noteq> None)))
    \<and> (\<forall>j d k e. chain_domain s j = Some d \<and> chain_domain s k = Some e
         \<and> dcfg_chain_id (fd_config d) = dcfg_chain_id (fd_config e) \<longrightarrow> j = k)"
proof -
  have ok: "chain_ok_at (xo_keccak X) (fs_height s) s"
    using chain_reachable_invariant [OF assms] by (simp add: chain_ok_def)
  have "\<exists>desc. domain_descriptor s k = Some desc \<and> dd_domain_id desc = k \<and> dd_status desc = Active
      \<and> derive_domain_id (xo_keccak X) (fs_network_id s) (dd_parent_domain_id desc) (dd_create_tx_hash desc) = k
      \<and> fd_config d = descriptor_config desc \<and> chain_domain s (dd_parent_domain_id desc) \<noteq> None"
    if "chain_domain s k = Some d" "k \<noteq> fs_root_domain_id s" for k d
  proof -
    have "bt_contains (fs_descriptors s) k"
      using ok that by (simp add: chain_ok_at_def chain_domain_def bt_contains_def)
    then obtain desc where "bt_get (fs_descriptors s) k = Some desc"
      by (auto simp: bt_contains_def)
    moreover from this have "descriptor_ok (xo_keccak X) (fs_network_id s) (fs_domains s) k desc"
      using ok by (simp add: chain_ok_at_def)
    ultimately show ?thesis
      using that by (auto simp: descriptor_ok_def chain_domain_def domain_descriptor_def bt_contains_def)
  qed
  moreover have "domain_ok (xo_keccak X) (fs_height s) k d" if "chain_domain s k = Some d" for k d
    using ok that by (simp add: chain_ok_at_def chain_domain_def)
  moreover have "chain_domain s (fs_root_domain_id s) \<noteq> None" "domain_descriptor s (fs_root_domain_id s) = None"
    using ok unfolding chain_ok_at_def chain_domain_def domain_descriptor_def bt_contains_def by blast+
  moreover have "j = k" if "chain_domain s j = Some d" "chain_domain s k = Some e"
    "dcfg_chain_id (fd_config d) = dcfg_chain_id (fd_config e)" for j k d e
    using ok that unfolding chain_ok_at_def chain_ids_unique_def chain_domain_def by blast
  ultimately show ?thesis
    unfolding domain_ok_def by presburger
qed

theorem reachable_views_consistent_witness:
  "\<exists>s d. chain_reachable sample_exec s \<and> chain_domain s 7 = Some d \<and> dh_domain_id (fd_header d) = 7
     \<and> domain_config_validate (fd_config d) = Ok ()"
proof -
  obtain s d where s: "chain_genesis sample_exec sample_genesis = Ok s" "fs_domains s = [(7, d)]"
    using sample_genesis_runs by blast
  have "chain_reachable sample_exec s" "chain_domain s 7 = Some d"
    using chain_reachable.genesis [OF s(1)] by (simp_all add: chain_domain_def bt_get_def s(2))
  then show ?thesis
    using reachable_views_consistent [of sample_exec s] by blast
qed

text \<open>
  (C35) In every reachable view the genealogy of every domain exists: the walk over parent descriptors
  ends, at the root, after at most as many steps as there are domains. What it returns starts at the root,
  ends at the domain asked for, visits existing domains only and none twice, and each entry is the
  registered parent of the following one.
\<close>

theorem genealogies_reach_the_root:
  assumes "chain_reachable X s" and "chain_domain s k = Some d"
  shows "\<exists>path. genealogy s k = Ok path \<and> hd path = fs_root_domain_id s \<and> last path = k \<and> distinct path
    \<and> set path \<subseteq> set (bt_keys (fs_domains s)) \<and> length path \<le> length (fs_domains s)
    \<and> (\<forall>i. Suc i < length path \<longrightarrow>
         (\<exists>desc. domain_descriptor s (path ! Suc i) = Some desc \<and> dd_parent_domain_id desc = path ! i))"
  using assms by (intro genealogy_total [OF chain_reachable_invariant]) (simp_all add: chain_domain_def bt_contains_def)

theorem genealogies_reach_the_root_witness:
  "\<exists>s. chain_reachable sample_exec s \<and> genealogy s 7 = Ok [7]"
proof -
  obtain s d where s: "chain_genesis sample_exec sample_genesis = Ok s" "fs_domains s = [(7, d)]"
    using sample_genesis_runs by blast
  have r: "chain_reachable sample_exec s" "chain_domain s 7 = Some d"
    using chain_reachable.genesis [OF s(1)] by (simp_all add: chain_domain_def bt_get_def s(2))
  obtain path where "genealogy s 7 = Ok path" "last path = 7" "length path \<le> 1" "hd path = fs_root_domain_id s" "path \<noteq> []"
    using genealogies_reach_the_root [OF r] by (force simp: s(2) genealogy_exact)
  then have "path = [7]"
    by (cases path) auto
  with \<open>genealogy s 7 = Ok path\<close> r(1) show ?thesis
    by blast
qed

end
