(* ===== verification/Network_Protocol.thy ===== *)
theory Network_Protocol
  imports Chain_State
begin

text \<open>
  \<open>arbor-network/src/protocol.rs\<close> and \<open>peer.rs\<close>: the direct requests and responses with their
  validation, the handshake, gossip payloads and the local peer scores. A \<open>WireHash\<close> is the 256-bit word
  of its bytes, a static rejection reason is a string, a peer identity of \<open>libp2p\<close> is a value of an ordered
  type.
\<close>

section \<open>Limits\<close>

definition DIRECT_PROTOCOL_VERSION :: u16 where
  "DIRECT_PROTOCOL_VERSION = 1"

definition MAX_DIRECT_REQUEST_BYTES :: nat where
  "MAX_DIRECT_REQUEST_BYTES = 2 * 1024 * 1024"

definition MAX_DIRECT_RESPONSE_BYTES :: nat where
  "MAX_DIRECT_RESPONSE_BYTES = MAX_CONSENSUS_BLOCK_BYTES + 2 * 1024 * 1024"

definition NET_MAX_SNAPSHOT_CHUNK_BYTES :: nat where
  "NET_MAX_SNAPSHOT_CHUNK_BYTES = 8 * 1024 * 1024"

definition MAX_BLOCKS_PER_RESPONSE :: u16 where
  "MAX_BLOCKS_PER_RESPONSE = 1"

definition MAX_HEADERS_PER_RESPONSE :: u16 where
  "MAX_HEADERS_PER_RESPONSE = 64"

definition MAX_HISTORY_ITEMS :: u16 where
  "MAX_HISTORY_ITEMS = 1024"

definition MAX_CONSENSUS_MESSAGE_BYTES :: nat where
  "MAX_CONSENSUS_MESSAGE_BYTES = 1024 * 1024"

type_synonym WireHash = b256

section \<open>Handshake\<close>

datatype NodeRole = RoleValidator | RoleFull | RoleLight

text \<open>Declared in the order \<open>derive(Ord)\<close> compares them.\<close>

datatype Capability = TransactionGossip | FinalizedGossip | BlockSyncCap | StateSync | DomainHistoryCap | ConsensusDirect

fun capability_rank :: "Capability \<Rightarrow> nat" where
  "capability_rank TransactionGossip = 0"
| "capability_rank FinalizedGossip = 1"
| "capability_rank BlockSyncCap = 2"
| "capability_rank StateSync = 3"
| "capability_rank DomainHistoryCap = 4"
| "capability_rank ConsensusDirect = 5"

lemma capability_rank_inject: "capability_rank a = capability_rank b \<longleftrightarrow> a = b"
  by (cases a; cases b) simp_all

instantiation Capability :: linorder
begin

definition less_eq_Capability :: "Capability \<Rightarrow> Capability \<Rightarrow> bool" where
  "a \<le> b \<longleftrightarrow> capability_rank a \<le> capability_rank b"

definition less_Capability :: "Capability \<Rightarrow> Capability \<Rightarrow> bool" where
  "a < b \<longleftrightarrow> capability_rank a < capability_rank b"

instance
  by standard (auto simp: less_eq_Capability_def less_Capability_def capability_rank_inject)

end

record Handshake =
  hs_network_id :: WireHash
  hs_genesis_hash :: WireHash
  hs_protocol_version :: u32
  hs_codec_version :: u8
  hs_direct_protocol_version :: u16
  hs_role :: NodeRole
  hs_capabilities :: "Capability list"
  hs_max_frame_bytes :: u32

datatype HandshakeError =
    HsNetwork | HsGenesis | HsProtocolVersion | HsCodecVersion | HsDirectProtocolVersion | HsFrameLimit | HsCapabilities

text \<open>\<open>sort_unstable\<close> on values with a total order, then \<open>dedup\<close> of neighbours.\<close>

definition handshake_new :: "NetworkId \<Rightarrow> b256 \<Rightarrow> NodeRole \<Rightarrow> Capability list \<Rightarrow> Handshake" where
  "handshake_new network_id genesis_hash role capabilities =
     \<lparr>hs_network_id = network_id, hs_genesis_hash = genesis_hash, hs_protocol_version = PROTOCOL_VERSION,
      hs_codec_version = CANONICAL_CODEC_VERSION, hs_direct_protocol_version = DIRECT_PROTOCOL_VERSION, hs_role = role,
      hs_capabilities = remdups_adj (sort capabilities),
      hs_max_frame_bytes =
        (if MAX_DIRECT_RESPONSE_BYTES < 2 ^ 32 then word_of_nat MAX_DIRECT_RESPONSE_BYTES else - 1)\<rparr>"

definition validate_against :: "Handshake \<Rightarrow> Handshake \<Rightarrow> (unit, HandshakeError) result" where
  "validate_against remote local =
     (if hs_network_id remote \<noteq> hs_network_id local then Err HsNetwork
      else if hs_genesis_hash remote \<noteq> hs_genesis_hash local then Err HsGenesis
      else if hs_protocol_version remote \<noteq> hs_protocol_version local then Err HsProtocolVersion
      else if hs_codec_version remote \<noteq> hs_codec_version local then Err HsCodecVersion
      else if hs_direct_protocol_version remote \<noteq> hs_direct_protocol_version local then Err HsDirectProtocolVersion
      else if hs_max_frame_bytes remote = 0 \<or> unat (hs_max_frame_bytes remote) > MAX_DIRECT_RESPONSE_BYTES then Err HsFrameLimit
      else if \<not> successively (<) (hs_capabilities remote) then Err HsCapabilities
      else Ok ())"

text \<open>\<open>binary_search\<close> on a sorted list is membership; \<open>validate_against\<close> enforces the order.\<close>

definition handshake_supports :: "Handshake \<Rightarrow> Capability \<Rightarrow> bool" where
  "handshake_supports h capability \<longleftrightarrow> capability \<in> set (hs_capabilities h)"

section \<open>Requests and responses\<close>

record SyncStatus =
  ss_height :: u64
  ss_consensus_hash :: WireHash
  ss_domain_heads_root :: WireHash
  ss_checkpoint_height :: u64

record FinalizedBlock =
  fb_height :: u64
  fb_block :: bytes
  fb_finality_proof :: bytes

record FinalizedHeader =
  fh_height :: u64
  fh_header :: bytes
  fh_finality_proof :: bytes

record BlockBody =
  bb_height :: u64
  bb_block :: bytes

definition finalized_block_validate_transport :: "FinalizedBlock \<Rightarrow> (unit, string) result" where
  "finalized_block_validate_transport b =
     (if fb_block b = [] \<or> length (fb_block b) > MAX_CONSENSUS_BLOCK_BYTES then Err ''invalid finalized block bytes''
      else if length (fb_finality_proof b) > MAX_CONSENSUS_MESSAGE_BYTES then Err ''finality proof exceeds limit''
      else Ok ())"

datatype DirectRequest =
    ReqHandshake
  | ReqStatus
  | ReqHeaders u64 u16
  | ReqBlockBodies "u64 list"
  | ReqBlocks u64 u16
  | ReqSnapshotManifest u64
  | ReqSnapshotChunk u64 WireHash u32
  | ReqDomainHistory WireHash u64 u16
  | ReqConsensus u8 bytes

fun direct_request_validate :: "DirectRequest \<Rightarrow> (unit, string) result" where
  "direct_request_validate (ReqBlocks _ limit) =
     (if limit = 0 \<or> limit > MAX_BLOCKS_PER_RESPONSE then Err ''invalid block request limit'' else Ok ())"
| "direct_request_validate (ReqHeaders _ limit) =
     (if limit = 0 \<or> limit > MAX_HEADERS_PER_RESPONSE then Err ''invalid header request limit'' else Ok ())"
| "direct_request_validate (ReqBlockBodies heights) =
     (if heights = [] \<or> length heights > unat MAX_BLOCKS_PER_RESPONSE \<or> \<not> successively (<) heights
      then Err ''invalid block body heights'' else Ok ())"
| "direct_request_validate (ReqDomainHistory _ _ limit) =
     (if limit = 0 \<or> limit > MAX_HISTORY_ITEMS then Err ''invalid history request limit'' else Ok ())"
| "direct_request_validate (ReqConsensus kind payload) =
     (if kind = 0 \<or> length payload > MAX_CONSENSUS_MESSAGE_BYTES then Err ''invalid consensus direct payload'' else Ok ())"
| "direct_request_validate _ = Ok ()"

datatype DirectResponse =
    RespHandshakeAccepted Handshake
  | RespStatus SyncStatus
  | RespHeaders "FinalizedHeader list"
  | RespBlockBodies "BlockBody list"
  | RespBlocks "FinalizedBlock list"
  | RespSnapshotManifest bytes
  | RespSnapshotChunk bytes
  | RespDomainHistory "bytes list"
  | RespConsensusAccepted
  | RespRejected u16

text \<open>\<open>usize::checked_add\<close> on a 64-bit machine.\<close>

definition add_usize :: "string \<Rightarrow> nat \<Rightarrow> nat \<Rightarrow> (nat, string) result" where
  "add_usize e a b = (if a + b < 2 ^ 64 then Ok (a + b) else Err e)"

definition sum_headers :: "FinalizedHeader \<Rightarrow> nat \<Rightarrow> (nat, string) result" where
  "sum_headers h tot =
     (if fh_header h = [] \<or> length (fh_header h) > MAX_CONSENSUS_MESSAGE_BYTES
        \<or> length (fh_finality_proof h) > MAX_CONSENSUS_MESSAGE_BYTES
      then Err ''invalid finalized header bytes''
      else
        bind_res (add_usize ''finalized header response size overflow'' tot (length (fh_header h))) (\<lambda>tot.
        add_usize ''finalized header response size overflow'' tot (length (fh_finality_proof h))))"

definition sum_bodies :: "BlockBody \<Rightarrow> nat \<Rightarrow> (nat, string) result" where
  "sum_bodies b tot =
     (if bb_block b = [] \<or> length (bb_block b) > MAX_CONSENSUS_BLOCK_BYTES then Err ''invalid block body bytes''
      else add_usize ''block body response size overflow'' tot (length (bb_block b)))"

definition sum_blocks :: "FinalizedBlock \<Rightarrow> nat \<Rightarrow> (nat, string) result" where
  "sum_blocks b tot =
     bind_res (finalized_block_validate_transport b) (\<lambda>_.
     bind_res (add_usize ''finalized response size overflow'' tot (length (fb_block b))) (\<lambda>tot.
     add_usize ''finalized response size overflow'' tot (length (fb_finality_proof b))))"

fun response_validate_transport :: "DirectResponse \<Rightarrow> (unit, string) result" where
  "response_validate_transport (RespStatus status) =
     (if ss_checkpoint_height status > ss_height status then Err ''checkpoint height exceeds finalized height'' else Ok ())"
| "response_validate_transport (RespHeaders headers) =
     (if length headers > unat MAX_HEADERS_PER_RESPONSE then Err ''too many finalized headers''
      else
        bind_res (fold_res sum_headers headers 0) (\<lambda>tot.
        if tot > MAX_DIRECT_RESPONSE_BYTES then Err ''finalized header response exceeds limit'' else Ok ()))"
| "response_validate_transport (RespBlockBodies bodies) =
     (if length bodies > unat MAX_BLOCKS_PER_RESPONSE then Err ''too many block bodies''
      else
        bind_res (fold_res sum_bodies bodies 0) (\<lambda>tot.
        if tot > MAX_DIRECT_RESPONSE_BYTES then Err ''block body response exceeds limit'' else Ok ()))"
| "response_validate_transport (RespBlocks blocks) =
     (if length blocks > unat MAX_BLOCKS_PER_RESPONSE then Err ''too many finalized blocks''
      else
        bind_res (fold_res sum_blocks blocks 0) (\<lambda>tot.
        if tot > MAX_DIRECT_RESPONSE_BYTES then Err ''finalized response exceeds limit'' else Ok ()))"
| "response_validate_transport (RespSnapshotManifest bs) =
     (if length bs > MAX_DIRECT_REQUEST_BYTES then Err ''snapshot manifest exceeds limit'' else Ok ())"
| "response_validate_transport (RespSnapshotChunk bs) =
     (if bs = [] \<or> length bs > NET_MAX_SNAPSHOT_CHUNK_BYTES then Err ''snapshot chunk exceeds limit'' else Ok ())"
| "response_validate_transport (RespDomainHistory items) =
     (if length items > unat MAX_HISTORY_ITEMS then Err ''too many history items''
      else
        case fold_res (\<lambda>item tot. add_usize [] tot (length item)) items 0 of
          Err _ \<Rightarrow> Err ''history response exceeds limit''
        | Ok tot \<Rightarrow> if tot > MAX_DIRECT_RESPONSE_BYTES then Err ''history response exceeds limit'' else Ok ())"
| "response_validate_transport _ = Ok ()"

record RequestEnvelope =
  re_request_id :: u64
  re_handshake :: Handshake
  re_request :: DirectRequest

record ResponseEnvelope =
  rs_request_id :: u64
  rs_response :: DirectResponse

datatype EnvelopeError = EnvHandshake HandshakeError | EnvRequest string

definition request_envelope_validate :: "RequestEnvelope \<Rightarrow> Handshake \<Rightarrow> (unit, EnvelopeError) result" where
  "request_envelope_validate e local =
     (if re_request_id e = 0 then Err (EnvRequest ''request id is zero'')
      else
        bind_res (map_err EnvHandshake (validate_against (re_handshake e) local)) (\<lambda>_.
        map_err EnvRequest (direct_request_validate (re_request e))))"

section \<open>Gossip\<close>

record FinalizedAnnouncement =
  fa_height :: u64
  fa_consensus_hash :: WireHash
  fa_domain_heads_root :: WireHash

datatype GossipMessage = GossipTransaction WireHash bytes | GossipFinalized FinalizedAnnouncement

fun gossip_validate :: "GossipMessage \<Rightarrow> (unit, string) result" where
  "gossip_validate (GossipTransaction _ envelope) =
     (if envelope = [] \<or> length envelope > MAX_TRANSACTION_ENVELOPE_BYTES then Err ''transaction envelope exceeds limit''
      else Ok ())"
| "gossip_validate (GossipFinalized announcement) =
     (if fa_height announcement = 0 then Err ''zero-height finalized announcement'' else Ok ())"

fun gossip_domain_id :: "GossipMessage \<Rightarrow> DomainId option" where
  "gossip_domain_id (GossipTransaction domain_id _) = Some domain_id"
| "gossip_domain_id (GossipFinalized _) = None"

section \<open>Peer scores\<close>

text \<open>An \<open>i32\<close> score is an integer; the saturation at the width of the type is written out.\<close>

definition BAN_THRESHOLD :: int where
  "BAN_THRESHOLD = - 100"

definition THROTTLE_THRESHOLD :: int where
  "THROTTLE_THRESHOLD = - 40"

definition SCORE_LIMIT :: int where
  "SCORE_LIMIT = 200"

definition clamp_i32 :: "int \<Rightarrow> int" where
  "clamp_i32 x = max (- (2 ^ 31)) (min (2 ^ 31 - 1) x)"

definition score_reward :: "int \<Rightarrow> int \<Rightarrow> int" where
  "score_reward amount score = min (clamp_i32 (score + amount)) SCORE_LIMIT"

definition score_penalize :: "int \<Rightarrow> int \<Rightarrow> int" where
  "score_penalize amount score = max (clamp_i32 (score - amount)) (- SCORE_LIMIT)"

datatype PeerDisposition = Accepted | Throttled | Banned

definition score_disposition :: "int \<Rightarrow> PeerDisposition" where
  "score_disposition score =
     (if score \<le> BAN_THRESHOLD then Banned else if score \<le> THROTTLE_THRESHOLD then Throttled else Accepted)"

type_synonym 'p PeerBook = "('p, int) btree_map"

definition peer_score :: "'p::linorder PeerBook \<Rightarrow> 'p \<Rightarrow> int" where
  "peer_score book peer = (case bt_get book peer of None \<Rightarrow> 0 | Some s \<Rightarrow> s)"

definition update_score :: "(int \<Rightarrow> int) \<Rightarrow> 'p::linorder \<Rightarrow> 'p PeerBook \<Rightarrow> 'p PeerBook" where
  "update_score f peer book = bt_insert peer (f (peer_score book peer)) book"

definition peer_reward :: "'p::linorder \<Rightarrow> 'p PeerBook \<Rightarrow> 'p PeerBook" where
  "peer_reward = update_score (score_reward 2)"

definition peer_timeout :: "'p::linorder \<Rightarrow> 'p PeerBook \<Rightarrow> 'p PeerBook" where
  "peer_timeout = update_score (score_penalize 10)"

definition peer_malformed :: "'p::linorder \<Rightarrow> 'p PeerBook \<Rightarrow> 'p PeerBook" where
  "peer_malformed = update_score (score_penalize 25)"

definition peer_identity_mismatch :: "'p::linorder \<Rightarrow> 'p PeerBook \<Rightarrow> 'p PeerBook" where
  "peer_identity_mismatch = update_score (score_penalize (- BAN_THRESHOLD))"

definition peer_disposition :: "'p::linorder PeerBook \<Rightarrow> 'p \<Rightarrow> PeerDisposition" where
  "peer_disposition book peer = score_disposition (peer_score book peer)"

section \<open>What validation guarantees\<close>

lemma strict_remdups_adj: "sorted xs \<Longrightarrow> sorted_wrt (<) (remdups_adj xs)"
  by (induction xs rule: remdups_adj.induct) auto

text \<open>Every node accepts the handshake of every other node of its network, and its own.\<close>

lemma own_handshake_accepted:
  "validate_against (handshake_new n g r cs) (handshake_new n g r' cs') = Ok ()"
proof -
  have "unat (word_of_nat MAX_DIRECT_RESPONSE_BYTES :: u32) = MAX_DIRECT_RESPONSE_BYTES"
    by (rule unat_of_nat_fits) (simp add: MAX_DIRECT_RESPONSE_BYTES_def MAX_CONSENSUS_BLOCK_BYTES_def)
  moreover have "MAX_DIRECT_RESPONSE_BYTES > 0" "MAX_DIRECT_RESPONSE_BYTES < 2 ^ 32"
    by (simp_all add: MAX_DIRECT_RESPONSE_BYTES_def MAX_CONSENSUS_BLOCK_BYTES_def)
  ultimately have "hs_max_frame_bytes (handshake_new n g r cs) \<noteq> 0"
      "unat (hs_max_frame_bytes (handshake_new n g r cs)) = MAX_DIRECT_RESPONSE_BYTES"
    by (auto simp: handshake_new_def)
  moreover have "successively (<) (remdups_adj (sort cs))"
    using strict_remdups_adj [of "sort cs"] by (simp add: successively_conv_sorted_wrt transp_on_less)
  ultimately show ?thesis
    by (simp add: validate_against_def) (simp add: handshake_new_def)
qed

end
