(* ===== verification/Spec2Isabelle.thy ===== *)
theory Spec2Isabelle
  imports Mempool Snapshot_Manifest Chain_Correct Network_Protocol
begin

text \<open>
  A verification development of Arbor, a blockchain node in Rust that finalizes the blocks of many EVM
  domains under one root consensus (\<open>src/crates\<close>).

  \<^bold>\<open>The program.\<close> \<open>arbor-primitives\<close> holds the protocol data, \<open>arbor-codec\<close> its two wire formats and
  \<open>arbor-crypto\<close> identifiers, signatures and quorums. \<open>arbor-state\<close> commits to accounts (a secure
  Merkle-Patricia trie) and to domain heads (a sparse Merkle tree). \<open>arbor-system\<close> defines the calls and
  the storage layout of the root \<open>ChainRegistry\<close>; \<open>arbor-evm\<close> runs one transaction on an authenticated
  state, with the registry as a native contract; \<open>arbor-executor\<close> runs a batch of them;
  \<open>arbor-chain\<close> executes and validates whole proposals over the finalized view of all domains.
  \<open>arbor-mempool\<close> holds what proposals are built from. Storage, consensus engine, network and node drive
  these parts.

  \<^bold>\<open>Conventions.\<close> A struct is a record and an enum a datatype, with a prefix per record; a function
  keeps its name unless another crate or HOL uses it. Fixed-width integers are words, \<open>usize\<close> is a
  natural number with a 64-bit overflow written out where it can occur. \<open>Result\<close> is the datatype
  \<open>result\<close> with \<open>bind_res\<close> for the question mark operator, \<open>collect_res\<close> for collecting and \<open>fold_res\<close>
  for a loop with early return. A method on \<open>&mut self\<close> takes and returns the record; where callers drop
  the object after an error, \<open>Err\<close> carries none. A \<open>BTreeMap\<close> is its sorted association list. A loop is
  structural recursion, or a \<open>function\<close> with its termination proof: no definition has fuel. A panic of
  \<open>expect\<close> is an error value of its own, and a text made by \<open>to_string\<close> is the error it prints.

  \<^bold>\<open>Parameters.\<close> Code outside the repository is an argument: Keccak-256 (\<open>K\<close>), secp256k1
  (\<open>crypto_ops\<close>), \<open>alloy_rlp\<close> (\<open>rlp\<close>, laws \<open>rlp_ok\<close>, \<open>rlp_format\<close>, \<open>rlp_scalars\<close>), \<open>revm\<close> (\<open>Journal\<close> with
  \<open>journal_ok\<close>, \<open>transact\<close>), the ordered trie root and the bloom filter (\<open>exec_ops\<close>). Where a proof
  needs collision resistance it asks for injectivity on the finite set of strings actually hashed, never
  on all strings. Each such hypothesis is met by a concrete instance in a witness.

  \<^bold>\<open>Theories.\<close>

  \<^item> \<open>Arbor_Prelude\<close>: machine types, results, checked and saturating arithmetic, big-endian bytes.
    \<open>BTree_Map\<close>: ordered maps, with the contract \<open>ordered_map\<close> and its interpretation \<open>btree\<close>. \<open>Cursor\<close>: the
    bounded readers of the crates that have formats of their own.
  \<^item> \<open>Primitives\<close> (\<open>arbor-primitives\<close>); \<open>Canonical_Codec\<close> and \<open>Canonical_Objects\<close>
    (\<open>arbor-codec/canonical.rs\<close>); \<open>Ethereum_Codec\<close> (\<open>ethereum.rs\<close>). The locale \<open>wire_field\<close> is the contract of
    a reader with its writer; every object is shown to decode from exactly one byte string, the one
    its encoder writes, and objects of different kinds never share bytes.
  \<^item> \<open>Crypto\<close> (\<open>arbor-crypto\<close>): a certificate verifies exactly when distinct members of the set with more
    than two thirds of the power signed it, and two certificates share an honest majority of power.
  \<^item> \<open>Mempool\<close> (\<open>arbor-mempool\<close>): one invariant over the five fields, kept by every operation; the effect
    of insertion, reservation, restoring, the ready run and nonce advance; the capacity restoring can
    exceed.
  \<^item> \<open>Domain_Heads\<close> (\<open>domain_heads.rs\<close>): proofs are complete and sound.
  \<^item> \<open>State_Trie\<close>, \<open>Trie_Correct\<close>, \<open>Trie_Walk\<close>, \<open>State_Root\<close> (\<open>mpt.rs\<close>): building refines an abstract trie,
    lookups and walks give the leaves back, roots bind leaves; two keys that differ only in the last
    nibble make a snapshot unreadable. \<open>State_Account\<close> (\<open>account.rs\<close>, \<open>overlay.rs\<close>) and
    \<open>Snapshot_Manifest\<close> (\<open>snapshot.rs\<close>): leaf and manifest formats are canonical, an overlay is a map.
  \<^item> \<open>Chain_Registry\<close> (\<open>arbor-system\<close>): calldata, normalisation, creation and storage slots.
  \<^item> \<open>Execution_State\<close> and \<open>Registry_Precompile\<close> (\<open>arbor-evm\<close>) with \<open>Execution_Correct\<close> and
    \<open>Registry_Safety\<close>: every way to obtain a state keeps it authentic, effects do not depend on the order
    of the change set, deposits follow their state machine. \<open>Domain_Executor\<close> (\<open>arbor-executor\<close>): gas,
    receipts and creations of a batch.
  \<^item> \<open>Chain_Blocks\<close> and \<open>Chain_State\<close> (\<open>arbor-chain\<close>) with \<open>Chain_Proofs\<close> and \<open>Chain_Correct\<close>: block bodies and
    result proofs; the views reachable from genesis by accepted proposals, their invariant and
    genealogies; validation accepts exactly what replaying rebuilds.

  \<^bold>\<open>Bounds.\<close> The limits of the sources (object sizes, batch, gas and time limits, pool capacities) are
  definitions of their own with the source's values. The tree loops of \<open>Chain_Blocks\<close> halve their level,
  the genealogy walk strictly enlarges its set of visited domains, and the walks of the trie descend a
  64-nibble path, which is why they terminate.

  \<^bold>\<open>Not modelled.\<close> \<open>arbor-storage\<close> writes column families of \<open>parity-db\<close>; \<open>arbor-consensus\<close> drives the
  machine of \<open>arbor-chain\<close> against that storage, a mutex and a clock; \<open>arbor-network\<close> is request handling,
  peer accounting and block and snapshot download around \<open>libp2p\<close>; \<open>arbor-node\<close> and \<open>arbor-cli\<close> wire tasks,
  files, signals and arguments. \<open>arbor-rpc\<close> and \<open>arbor-keystore\<close> are empty, \<open>arbor-testkit\<close> and the spikes are
  not part of the node. Within the modelled crates, tracing, display texts, serialisation derives
  and plain field accessors are left out.
\<close>

end
